(* ===== verification/Prelude.thy ===== *)
theory Prelude
  imports Main "HOL-Library.Word"
begin

text \<open>
  What every component shares: the C integer types at the width of the LP64 host build, pointer
  arguments that may be NULL, the errno constants, C's truncating division and integer
  conversions, \<open>memcpy\<close> on byte lists, and the lemmas on lists and words that the component
  proofs use through the collections \<open>cmodel\<close> (unfolding rules of small C helpers) and
  \<open>bytes\<close> (facts on byte lists).
\<close>

unbundle bit_operations_syntax

section \<open>Machine types\<close>

type_synonym u8 = "8 word"
type_synonym u16 = "16 word"
type_synonym u32 = "32 word"
type_synonym u64 = "64 word"
type_synonym csize = "64 word"   \<comment> \<open>\<open>size_t\<close>, \<open>atomic_size_t\<close>\<close>

text \<open>A pointer argument the code compares with NULL: \<open>None\<close> is NULL.\<close>

type_synonym 'a ptr = "'a option"

abbreviation NULL :: "'a ptr" where
  "NULL \<equiv> None"

named_theorems cmodel
named_theorems bytes

section \<open>errno values of Linux\<close>

definition ENOENT :: int where [cmodel]: "ENOENT = 2"
definition EINTR :: int where [cmodel]: "EINTR = 4"
definition EIO :: int where [cmodel]: "EIO = 5"
definition ENOMEM :: int where [cmodel]: "ENOMEM = 12"
definition EFAULT :: int where [cmodel]: "EFAULT = 14"
definition ENODEV :: int where [cmodel]: "ENODEV = 19"
definition EINVAL :: int where [cmodel]: "EINVAL = 22"
definition ENOSPC :: int where [cmodel]: "ENOSPC = 28"

section \<open>C integer conversions and division\<close>

text \<open>Conversion to a 32-bit signed \<open>int\<close> (gcc's rule: keep the low 32 bits).\<close>

definition c_int :: "int \<Rightarrow> int" where
  "c_int v = signed_take_bit 31 v"

text \<open>C's \<open>/\<close> on signed integers truncates towards zero.\<close>

definition c_div :: "int \<Rightarrow> int \<Rightarrow> int" where
  "c_div a b = (if (0 \<le> a) = (0 \<le> b) then \<bar>a\<bar> div \<bar>b\<bar> else - (\<bar>a\<bar> div \<bar>b\<bar>))"

lemma c_int_id: "- (2 ^ 31) \<le> v \<Longrightarrow> v < 2 ^ 31 \<Longrightarrow> c_int v = v"
  by (simp add: c_int_def signed_take_bit_int_eq_self)

lemma c_int_range: "- (2 ^ 31) \<le> c_int v \<and> c_int v < 2 ^ 31"
  using signed_take_bit_int_greater_eq_minus_exp [of 31 v] signed_take_bit_int_less_exp [of 31 v]
  by (simp add: c_int_def)

lemma c_div_bounds: "0 < b \<Longrightarrow> \<bar>c_div a b\<bar> \<le> \<bar>a\<bar>"
  using zdiv_mono2 [of "\<bar>a\<bar>" 1 b] pos_imp_zdiv_nonneg_iff [of b "\<bar>a\<bar>"]
  by (auto simp: c_div_def)

section \<open>memcpy\<close>

text \<open>\<open>memcpy (dst + off) src n\<close> as an update of the array that \<open>dst\<close> points to.\<close>

definition memcpy :: "'a list \<Rightarrow> nat \<Rightarrow> 'a list \<Rightarrow> nat \<Rightarrow> 'a list" where
  "memcpy dst off src n = take off dst @ take n src @ drop (off + n) dst"

lemma length_memcpy [simp]:
  "off + n \<le> length dst \<Longrightarrow> n \<le> length src \<Longrightarrow> length (memcpy dst off src n) = length dst"
  by (simp add: memcpy_def)

lemma nth_memcpy [bytes]:
  "off + n \<le> length dst \<Longrightarrow> n \<le> length src \<Longrightarrow> j < length dst \<Longrightarrow>
   memcpy dst off src n ! j = (if off \<le> j \<and> j < off + n then src ! (j - off) else dst ! j)"
  by (auto simp: memcpy_def nth_append min_def)

lemma memcpy_zero [simp]: "memcpy dst off src 0 = dst"
  by (simp add: memcpy_def)

lemma take_memcpy [bytes]:
  "off + n \<le> length dst \<Longrightarrow> n \<le> length src \<Longrightarrow>
   take (off + n) (memcpy dst off src n) = take off dst @ take n src"
  by (simp add: memcpy_def min_def)

section \<open>Circular reads and writes of an array\<close>

text \<open>
  The \<open>n\<close> elements of \<open>d\<close> from position \<open>s\<close> on, and \<open>d\<close> with
  \<open>xs\<close> stored from position \<open>s\<close> on, both modulo the length of \<open>d\<close>.
\<close>

definition ring_read :: "'a list \<Rightarrow> nat \<Rightarrow> nat \<Rightarrow> 'a list" where
  "ring_read d s n = map (\<lambda>i. d ! ((s + i) mod length d)) [0..<n]"

definition ring_write :: "'a list \<Rightarrow> nat \<Rightarrow> 'a list \<Rightarrow> 'a list" where
  "ring_write d s xs =
     map (\<lambda>j. let i = (j + (length d - s mod length d)) mod length d
              in if i < length xs then xs ! i else d ! j) [0..<length d]"

lemma length_ring_read [simp]: "length (ring_read d s n) = n"
  by (simp add: ring_read_def)

lemma length_ring_write [simp]: "length (ring_write d s xs) = length d"
  by (simp add: ring_write_def)

lemma nth_ring_write:
  "j < length d \<Longrightarrow>
   ring_write d s xs ! j =
     (let i = (j + (length d - s mod length d)) mod length d
      in if i < length xs then xs ! i else d ! j)"
  by (simp add: ring_write_def Let_def)

lemma ring_read_0 [simp]: "ring_read d s 0 = []"
  by (simp add: ring_read_def)

lemma ring_read_mod: "ring_read d (s mod length d) n = ring_read d s n"
  by (simp add: ring_read_def mod_add_left_eq)

lemma nth_ring_read: "i < n \<Longrightarrow> ring_read d s n ! i = d ! ((s + i) mod length d)"
  by (simp add: ring_read_def)

lemma ring_read_add: "ring_read d s (n + m) = ring_read d s n @ ring_read d (s + n) m"
  by (rule nth_equalityI) (auto simp: nth_append nth_ring_read)

lemma take_ring_read: "take k (ring_read d s n) = ring_read d s (min k n)"
  by (rule nth_equalityI) (simp_all add: nth_ring_read)

lemma drop_ring_read: "drop k (ring_read d s n) = ring_read d (s + k) (n - k)"
  by (rule nth_equalityI) (auto simp: nth_ring_read add.assoc)

text \<open>The offset of a slot relative to the start of a circular write.\<close>

lemma ring_offset:
  assumes "i < (n::nat)"
  shows "((s + i) mod n + (n - s mod n)) mod n = i"
proof -
  have "((s + i) mod n + (n - s mod n)) mod n = ((s mod n + i) mod n + (n - s mod n)) mod n"
    by (simp add: mod_add_left_eq)
  also have "\<dots> = (s mod n + i + (n - s mod n)) mod n"
    by (rule mod_add_left_eq)
  also have "s mod n + i + (n - s mod n) = i + n"
    using assms mod_less_divisor [of n s] by linarith
  finally show ?thesis
    using assms by simp
qed

lemma nth_ring_write_slot:
  "i < length d \<Longrightarrow>
   ring_write d s xs ! ((s + i) mod length d) =
     (if i < length xs then xs ! i else d ! ((s + i) mod length d))"
  using ring_offset [of i "length d" s] mod_less_divisor [of "length d" "s + i"]
  by (cases "length d = 0") (simp_all add: ring_write_def Let_def del: mod_less_divisor)

lemma ring_read_write_same:
  "length xs \<le> length d \<Longrightarrow> ring_read (ring_write d s xs) s (length xs) = xs"
  by (rule nth_equalityI) (auto simp: nth_ring_read nth_ring_write_slot)

text \<open>Storing after the \<open>n\<close> elements in use does not touch them.\<close>

lemma ring_read_write_other:
  assumes "n + length xs \<le> length d"
  shows "ring_read (ring_write d (s + n) xs) s n = ring_read d s n"
proof (rule nth_equalityI)
  fix i assume "i < length (ring_read (ring_write d (s + n) xs) s n)"
  then have i: "i < n" by simp
  define j where "j = i + (length d - n)"
  have j: "j < length d" "length xs \<le> j" using i assms by (auto simp: j_def)
  have "s + n + j = s + i + length d"
    using i assms by (simp add: j_def)
  then have eq: "(s + n + j) mod length d = (s + i) mod length d"
    by (simp only: mod_add_self2)
  show "ring_read (ring_write d (s + n) xs) s n ! i = ring_read d s n ! i"
    using i j nth_ring_write_slot [of j d "s + n" xs] by (simp add: nth_ring_read eq)
qed simp

lemma ring_slot_inj:
  "i < n \<Longrightarrow> j < n \<Longrightarrow> (s + i) mod n = (s + j) mod n \<Longrightarrow> i = (j::nat)"
  using ring_offset [of i n s] ring_offset [of j n s] by simp

lemma ring_read_update_other:
  assumes "m \<le> j" "j < length d"
  shows "ring_read (d[(s + j) mod length d := b]) s m = ring_read d s m"
proof (rule nth_equalityI)
  fix i assume "i < length (ring_read (d[(s + j) mod length d := b]) s m)"
  then have i: "i < m" by simp
  then have "(s + j) mod length d \<noteq> (s + i) mod length d"
    using assms ring_slot_inj [of i "length d" j s] by auto
  then show "ring_read (d[(s + j) mod length d := b]) s m ! i = ring_read d s m ! i"
    using i by (simp add: nth_ring_read)
qed simp

lemma ring_read_Suc: "ring_read d s (Suc n) = ring_read d s n @ [d ! ((s + n) mod length d)]"
  by (simp add: ring_read_def)

lemma ring_read_update_same:
  assumes "j < length d"
  shows "ring_read (d[(s + j) mod length d := b]) s (Suc j) = ring_read d s j @ [b]"
proof -
  have "(s + j) mod length d < length d" using assms by (intro mod_less_divisor) linarith
  then show ?thesis
    using ring_read_update_other [of j j d s b] assms by (simp add: ring_read_Suc)
qed

text \<open>The two \<open>memcpy\<close> calls of a wrapping copy, into and out of the ring.\<close>

lemma memcpy_ring_write:
  assumes "0 < length d" "n \<le> length d" "n \<le> length src"
    and f: "f = min (length d - s mod length d) n"
  shows "(let d1 = memcpy d (s mod length d) src f
          in if f < n then memcpy d1 0 (drop f src) (n - f) else d1) = ring_write d s (take n src)"
    (is "?d2 = _")
proof (rule nth_equalityI)
  define o' where "o' = s mod length d"
  have o: "o' < length d" using assms(1) by (simp add: o'_def)
  have fs: "o' + f \<le> length d" "f \<le> length src" "n - f \<le> length src - f"
    "n - f \<le> length d" "f \<le> n"
    using assms(2,3) o by (auto simp: f o'_def)
  show len: "length ?d2 = length (ring_write d s (take n src))"
    using fs by (simp add: Let_def o'_def [symmetric])
  fix j assume "j < length ?d2"
  then have j: "j < length d" using len by simp
  have idx: "(j + (length d - o')) mod length d = (if o' \<le> j then j - o' else j + (length d - o'))"
  proof (cases "o' \<le> j")
    case True
    then have "j + (length d - o') = (j - o') + length d" using o by simp
    then have "(j + (length d - o')) mod length d = (j - o') mod length d"
      by (simp only: mod_add_self2)
    then show ?thesis using True j by simp
  qed (use o in simp)
  have "?d2 ! j = (if o' \<le> j \<and> j < o' + f then src ! (j - o')
                   else if j < n - f then src ! (f + j) else d ! j)"
  proof (cases "f < n")
    case True
    then have "f = length d - o'" using f by (auto simp: o'_def min_def split: if_splits)
    then show ?thesis
      using True fs j o assms(2) by (auto simp: Let_def o'_def [symmetric] nth_memcpy)
  next
    case False
    then show ?thesis
      using fs j by (auto simp: Let_def o'_def [symmetric] nth_memcpy)
  qed
  also have "\<dots> = ring_write d s (take n src) ! j"
  proof -
    have f': "f = (if length d - o' \<le> n then length d - o' else n)"
      using f by (simp add: o'_def min_def)
    have "ring_write d s (take n src) ! j =
      (let i = (if o' \<le> j then j - o' else j + (length d - o'))
       in if i < n then src ! i else d ! j)"
      unfolding nth_ring_write [OF j] o'_def [symmetric] idx Let_def using assms(3) by simp
    moreover have "f + j = j + (length d - o')" if "j < n - f"
      using that f' by (auto split: if_splits)
    ultimately show ?thesis
      using j o assms(2) f' by (cases "o' \<le> j"; cases "length d - o' \<le> n") (auto simp: Let_def)
  qed
  finally show "?d2 ! j = ring_write d s (take n src) ! j" .
qed

lemma memcpy_ring_read:
  assumes "0 < length d" "n \<le> length d" "n \<le> length dst"
    and f: "f = min (length d - s mod length d) n"
  shows "(let dst1 = memcpy dst 0 (drop (s mod length d) d) f
          in if f < n then memcpy dst1 f d (n - f) else dst1) = ring_read d s n @ drop n dst"
    (is "?d2 = _")
proof (rule nth_equalityI)
  define o' where "o' = s mod length d"
  have o: "o' < length d" using assms(1) by (simp add: o'_def)
  have fs: "f \<le> length dst" "f \<le> length d - o'" "f + (n - f) \<le> length dst"
    "n - f \<le> length d" "f \<le> n"
    using assms(2,3) o by (auto simp: f o'_def)
  show len: "length ?d2 = length (ring_read d s n @ drop n dst)"
    using fs assms(3) by (simp add: Let_def o'_def [symmetric])
  fix j assume "j < length ?d2"
  then have j: "j < length dst" using len assms(3) by simp
  have idx: "(s + j) mod length d = (if j < length d - o' then o' + j else j - (length d - o'))"
    if "j < n"
  proof -
    have "(s + j) mod length d = (o' + j) mod length d" by (simp add: o'_def mod_add_left_eq)
    then show ?thesis using that o assms(2) by (auto simp: mod_if)
  qed
  have "?d2 ! j = (if j < f then d ! (o' + j) else if j < n then d ! (j - f) else dst ! j)"
    using fs j o by (auto simp: Let_def o'_def [symmetric] nth_memcpy)
  also have "\<dots> = (ring_read d s n @ drop n dst) ! j"
    using assms(2,3) j o f
    by (auto simp: nth_append nth_ring_read idx o'_def [symmetric] min_def)
  finally show "?d2 ! j = (ring_read d s n @ drop n dst) ! j" .
qed

section \<open>Words\<close>

lemma word_of_nat_le_self:
  assumes "n \<le> unat (w :: 'a::len word)"
  shows "unat (of_nat n :: 'a word) = n"
proof -
  have "n < 2 ^ LENGTH('a)"
    using assms unsigned_less [of w] by (rule order_le_less_trans)
  then show ?thesis
    by (simp add: unsigned_of_nat take_bit_nat_eq_self)
qed

lemma unat_pow2:
  assumes "k < LENGTH('a)"
  shows "unat (2 ^ k :: 'a::len word) = 2 ^ k"
proof -
  have "(2 ^ k :: 'a word) = of_nat (2 ^ k)" by simp
  moreover have "(2 :: nat) ^ k < 2 ^ LENGTH('a)" using assms by (rule power_strict_increasing) simp
  ultimately show ?thesis by (simp only: unat_of_nat mod_less)
qed

lemma unat_and_mask_exp:
  fixes x :: "'a::len word"
  assumes "k < LENGTH('a)"
  shows "unat (x AND (2 ^ k - 1)) = unat x mod 2 ^ k"
proof -
  have "x AND (2 ^ k - 1) = take_bit k x"
    by (simp add: take_bit_eq_mask mask_eq_decr_exp)
  then have "unat (x AND (2 ^ k - 1)) = take_bit k (unat x)"
    by (simp only: unsigned_take_bit_eq)
  then show ?thesis
    by (simp only: take_bit_eq_mod)
qed

text \<open>Indexing with a power-of-two mask commutes with the wrap-around of the counter.\<close>

lemma unat_plus_of_nat_mod:
  fixes x :: "'a::len word"
  assumes "k < LENGTH('a)"
  shows "unat (x + of_nat n) mod 2 ^ k = (unat x + n) mod 2 ^ k"
proof -
  have dv: "(2::nat) ^ k dvd 2 ^ LENGTH('a)"
    using assms by (simp add: le_imp_power_dvd)
  have "unat (x + of_nat n) = (unat x + n mod 2 ^ LENGTH('a)) mod 2 ^ LENGTH('a)"
    by (simp add: unat_word_ariths unat_of_nat)
  also have "\<dots> = (unat x + n) mod 2 ^ LENGTH('a)"
    by (simp add: mod_add_right_eq)
  finally show ?thesis
    using dv by (simp add: mod_mod_cancel)
qed

lemma unat_minus_le:
  fixes a b :: "'a::len word"
  shows "b \<le> a \<Longrightarrow> unat (a - b) = unat a - unat b"
  by (rule unat_sub)

section \<open>Little-endian bytes\<close>

definition le_bytes :: "nat \<Rightarrow> 'a::len word \<Rightarrow> u8 list" where
  "le_bytes n w = map (\<lambda>i. ucast (drop_bit (8 * i) w)) [0..<n]"

primrec of_le_bytes :: "u8 list \<Rightarrow> 'a::len word" where
  "of_le_bytes [] = 0"
| "of_le_bytes (b # bs) = ucast b OR push_bit 8 (of_le_bytes bs)"

lemma length_le_bytes [simp]: "length (le_bytes n w) = n"
  by (simp add: le_bytes_def)

lemma bit_of_le_bytes:
  "i < LENGTH('a) \<Longrightarrow>
   bit (of_le_bytes bs :: 'a::len word) i \<longleftrightarrow> i div 8 < length bs \<and> bit (bs ! (i div 8)) (i mod 8)"
proof (induction bs arbitrary: i)
  case Nil
  then show ?case by simp
next
  case (Cons b bs)
  show ?case
  proof (cases "i < 8")
    case True
    then show ?thesis using Cons.prems by (auto simp: bit_or_iff bit_ucast_iff bit_push_bit_iff)
  next
    case False
    then have "\<not> bit b i" using bit_imp_le_length [of b i] by auto
    moreover have "bit (of_le_bytes bs :: 'a word) (i - 8) \<longleftrightarrow>
        (i - 8) div 8 < length bs \<and> bit (bs ! ((i - 8) div 8)) ((i - 8) mod 8)"
      using Cons.IH [of "i - 8"] Cons.prems False by simp
    moreover have "(i - 8) div 8 = i div 8 - 1" "(i - 8) mod 8 = i mod 8" "0 < i div 8"
      using False by (auto simp: le_div_geq le_mod_geq not_less)
    ultimately show ?thesis
      using Cons.prems False by (cases "i div 8") (auto simp: bit_or_iff bit_ucast_iff bit_push_bit_iff)
  qed
qed

lemma of_le_bytes_le_bytes:
  assumes "LENGTH('a) \<le> 8 * n"
  shows "of_le_bytes (le_bytes n (w :: 'a::len word)) = w"
proof (rule bit_word_eqI)
  fix i assume i: "i < LENGTH('a)"
  then have "i div 8 < n" using assms by linarith
  then show "bit (of_le_bytes (le_bytes n w) :: 'a word) i = bit w i"
    using i by (simp add: bit_of_le_bytes le_bytes_def bit_ucast_iff bit_drop_bit_eq)
qed

end
