(* ===== verification/RingBuffer.thy ===== *)
theory RingBuffer
  imports Prelude
begin

text \<open>
  The single-producer single-consumer byte ring of \<open>src/core/ring_buffer.c\<close> of the debug toolkit,
  operation by operation. The two positions are free-running \<open>size_t\<close> counters that wrap at
  \<open>2 ^ 64\<close>; only their difference and their low bits are used. The abstraction
  \<open>rb_contents\<close> reads the stored bytes in order, and every operation is shown to be the
  operation of a bounded byte queue on it, wrap-around of the counters included. The last part
  states the contract as a locale, from which the order of a byte stream through any script of
  reads and writes follows, and interprets it on the model.
\<close>

section \<open>The code\<close>

record ring_buffer =
  rb_data :: "u8 list ptr"
  rb_capacity :: csize
  rb_mask :: csize
  rb_write_pos :: csize
  rb_read_pos :: csize

definition edt_is_power_of_two :: "csize \<Rightarrow> bool" where
  "edt_is_power_of_two v \<longleftrightarrow> v \<noteq> 0 \<and> v AND (v - 1) = 0"

text \<open>The loop \<open>while (p < v) p <<= 1\<close>: \<open>None\<close> when it never ends.\<close>

partial_function (option) round_up_loop :: "csize \<Rightarrow> csize \<Rightarrow> csize option" where
  "round_up_loop v p = (if p < v then round_up_loop v (push_bit 1 p) else Some p)"

definition edt_round_up_pow2 :: "csize \<Rightarrow> csize option" where
  "edt_round_up_pow2 v = round_up_loop v 1"

text \<open>
  \<open>alloc_ok\<close> says whether \<open>calloc\<close> succeeds. The result is \<open>None\<close> when the
  call does not return, else the return value and the object.
\<close>

definition edt_ring_buffer_init ::
  "bool \<Rightarrow> ring_buffer ptr \<Rightarrow> csize \<Rightarrow> (int \<times> ring_buffer ptr) option" where
  "edt_ring_buffer_init alloc_ok rbp capacity_bytes =
     (case rbp of
        None \<Rightarrow> Some (-1, NULL)
      | Some rb \<Rightarrow>
          if capacity_bytes < 2 then Some (-1, Some rb)
          else
            (case (if \<not> edt_is_power_of_two capacity_bytes
                   then edt_round_up_pow2 capacity_bytes else Some capacity_bytes) of
               None \<Rightarrow> None
             | Some c \<Rightarrow>
                 if \<not> alloc_ok then Some (-1, Some (rb\<lparr>rb_data := NULL\<rparr>))
                 else Some (0, Some (rb\<lparr>rb_data := Some (replicate (unat c) 0), rb_capacity := c,
                                       rb_mask := c - 1, rb_write_pos := 0, rb_read_pos := 0\<rparr>))))"

definition edt_ring_buffer_destroy :: "ring_buffer ptr \<Rightarrow> ring_buffer ptr" where
  "edt_ring_buffer_destroy rbp =
     map_option (\<lambda>rb. rb\<lparr>rb_data := NULL, rb_capacity := 0, rb_mask := 0,
                          rb_write_pos := 0, rb_read_pos := 0\<rparr>) rbp"

definition edt_ring_buffer_reset :: "ring_buffer ptr \<Rightarrow> ring_buffer ptr" where
  "edt_ring_buffer_reset rbp = map_option (\<lambda>rb. rb\<lparr>rb_write_pos := 0, rb_read_pos := 0\<rparr>) rbp"

definition edt_ring_buffer_available_data :: "ring_buffer ptr \<Rightarrow> csize" where
  "edt_ring_buffer_available_data rbp =
     (case rbp of None \<Rightarrow> 0
      | Some rb \<Rightarrow> if rb_data rb = NULL then 0 else rb_write_pos rb - rb_read_pos rb)"

definition edt_ring_buffer_available_space :: "ring_buffer ptr \<Rightarrow> csize" where
  "edt_ring_buffer_available_space rbp =
     (case rbp of None \<Rightarrow> 0
      | Some rb \<Rightarrow> if rb_data rb = NULL then 0
                   else rb_capacity rb - edt_ring_buffer_available_data rbp)"

text \<open>
  \<open>src\<close> is the array the pointer designates; it holds at least \<open>len\<close> bytes. The result
  is the number of bytes taken and the object.
\<close>

definition edt_ring_buffer_write ::
  "ring_buffer ptr \<Rightarrow> u8 list ptr \<Rightarrow> csize \<Rightarrow> csize \<times> ring_buffer ptr" where
  "edt_ring_buffer_write rbp srcp len =
     (case (rbp, srcp) of
        (Some rb, Some src) \<Rightarrow>
          (case rb_data rb of
             None \<Rightarrow> (0, rbp)
           | Some d \<Rightarrow>
               if len = 0 then (0, rbp)
               else
                 let write_pos = rb_write_pos rb;
                     read_pos = rb_read_pos rb;
                     free_space = rb_capacity rb - (write_pos - read_pos);
                     to_write = (if len < free_space then len else free_space)
                 in if to_write = 0 then (0, rbp)
                    else
                      let chunk = rb_capacity rb - (write_pos AND rb_mask rb);
                          first_chunk = (if chunk > to_write then to_write else chunk);
                          d1 = memcpy d (unat (write_pos AND rb_mask rb)) src (unat first_chunk);
                          d2 = (if first_chunk < to_write
                                then memcpy d1 0 (drop (unat first_chunk) src)
                                       (unat (to_write - first_chunk))
                                else d1)
                      in (to_write,
                          Some (rb\<lparr>rb_data := Some d2, rb_write_pos := write_pos + to_write\<rparr>)))
      | _ \<Rightarrow> (0, rbp))"

text \<open>
  The part \<open>read\<close> and \<open>peek\<close> share: the number of bytes copied and the new content of
  the array \<open>dst\<close>, which holds at least \<open>len\<close> bytes.
\<close>

definition ring_copy_out :: "ring_buffer \<Rightarrow> u8 list \<Rightarrow> u8 list \<Rightarrow> csize \<Rightarrow> csize \<times> u8 list" where
  "ring_copy_out rb d dst len =
     (let write_pos = rb_write_pos rb;
          read_pos = rb_read_pos rb;
          available = write_pos - read_pos;
          to_read = (if len < available then len else available)
      in if to_read = 0 then (0, dst)
         else
           let chunk = rb_capacity rb - (read_pos AND rb_mask rb);
               first_chunk = (if chunk > to_read then to_read else chunk);
               dst1 = memcpy dst 0 (drop (unat (read_pos AND rb_mask rb)) d) (unat first_chunk);
               dst2 = (if first_chunk < to_read
                       then memcpy dst1 (unat first_chunk) d (unat (to_read - first_chunk))
                       else dst1)
           in (to_read, dst2))"

definition edt_ring_buffer_read ::
  "ring_buffer ptr \<Rightarrow> u8 list ptr \<Rightarrow> csize \<Rightarrow> csize \<times> u8 list ptr \<times> ring_buffer ptr" where
  "edt_ring_buffer_read rbp dstp len =
     (case (rbp, dstp) of
        (Some rb, Some dst) \<Rightarrow>
          (case rb_data rb of
             None \<Rightarrow> (0, dstp, rbp)
           | Some d \<Rightarrow>
               if len = 0 then (0, dstp, rbp)
               else let (n, dst') = ring_copy_out rb d dst len
                    in if n = 0 then (0, dstp, rbp)
                       else (n, Some dst', Some (rb\<lparr>rb_read_pos := rb_read_pos rb + n\<rparr>)))
      | _ \<Rightarrow> (0, dstp, rbp))"

definition edt_ring_buffer_peek ::
  "ring_buffer ptr \<Rightarrow> u8 list ptr \<Rightarrow> csize \<Rightarrow> csize \<times> u8 list ptr" where
  "edt_ring_buffer_peek rbp dstp len =
     (case (rbp, dstp) of
        (Some rb, Some dst) \<Rightarrow>
          (case rb_data rb of
             None \<Rightarrow> (0, dstp)
           | Some d \<Rightarrow>
               if len = 0 then (0, dstp)
               else let (n, dst') = ring_copy_out rb d dst len in (n, Some dst'))
      | _ \<Rightarrow> (0, dstp))"

section \<open>Well-formed rings and their contents\<close>

definition rb_wf :: "ring_buffer \<Rightarrow> bool" where
  "rb_wf rb \<longleftrightarrow>
     (\<exists>k\<in>{1..<64}. rb_capacity rb = 2 ^ k) \<and> rb_mask rb = rb_capacity rb - 1 \<and>
     (case rb_data rb of None \<Rightarrow> False | Some d \<Rightarrow> length d = unat (rb_capacity rb)) \<and>
     rb_write_pos rb - rb_read_pos rb \<le> rb_capacity rb"

definition rb_used :: "ring_buffer \<Rightarrow> nat" where
  "rb_used rb = unat (rb_write_pos rb - rb_read_pos rb)"

definition rb_contents :: "ring_buffer \<Rightarrow> u8 list" where
  "rb_contents rb =
     (case rb_data rb of None \<Rightarrow> [] | Some d \<Rightarrow> ring_read d (unat (rb_read_pos rb)) (rb_used rb))"

lemma rb_wfE:
  assumes "rb_wf rb"
  obtains d k where "rb_data rb = Some d" "length d = 2 ^ k" "1 \<le> k" "k < 64"
    "rb_capacity rb = 2 ^ k" "unat (rb_capacity rb) = 2 ^ k" "rb_mask rb = 2 ^ k - 1"
    "rb_used rb \<le> 2 ^ k" "rb_contents rb = ring_read d (unat (rb_read_pos rb)) (rb_used rb)"
proof -
  from assms obtain k d where k: "1 \<le> k" "k < 64" "rb_capacity rb = 2 ^ k"
    and d: "rb_data rb = Some d" "length d = unat (rb_capacity rb)"
    by (auto simp: rb_wf_def split: option.splits)
  have c: "unat (rb_capacity rb) = 2 ^ k"
    using k by (simp add: unat_pow2)
  have "rb_write_pos rb - rb_read_pos rb \<le> rb_capacity rb"
    using assms by (simp add: rb_wf_def)
  then have "rb_used rb \<le> 2 ^ k"
    using c by (simp add: rb_used_def word_le_nat_alt)
  with k d c assms that show ?thesis
    by (simp add: rb_wf_def rb_contents_def)
qed

lemma length_rb_contents [simp]: "rb_wf rb \<Longrightarrow> length (rb_contents rb) = rb_used rb"
  by (auto elim: rb_wfE)

lemma rb_used_le_capacity: "rb_wf rb \<Longrightarrow> rb_used rb \<le> unat (rb_capacity rb)"
  by (auto elim: rb_wfE)

lemma available_data_wf:
  "rb_wf rb \<Longrightarrow> unat (edt_ring_buffer_available_data (Some rb)) = length (rb_contents rb)"
  by (auto simp: edt_ring_buffer_available_data_def rb_used_def elim: rb_wfE)

lemma free_space_wf:
  assumes "rb_wf rb"
  shows "unat (rb_capacity rb - (rb_write_pos rb - rb_read_pos rb)) = unat (rb_capacity rb) - rb_used rb"
  using assms by (simp add: rb_wf_def rb_used_def unat_sub)

lemma available_space_wf:
  assumes "rb_wf rb"
  shows "unat (edt_ring_buffer_available_space (Some rb)) =
         unat (rb_capacity rb) - length (rb_contents rb)"
  using free_space_wf [OF assms] assms
  by (auto simp: edt_ring_buffer_available_space_def edt_ring_buffer_available_data_def elim: rb_wfE)

section \<open>Writing\<close>

lemma unat_min_word: "unat (if a < b then a else b) = min (unat a) (unat (b :: 'a::len word))"
  by (auto simp: word_less_nat_alt)

lemma unat_min_word': "unat (if a > b then b else a) = min (unat a) (unat (b :: 'a::len word))"
  by (auto simp: word_less_nat_alt)

text \<open>The chunk up to the end of the array.\<close>

lemma chunk_wf:
  assumes "k < 64" "cap = (2 ^ k :: csize)" "msk = (2 ^ k - 1 :: csize)"
  shows "unat (cap - (p AND msk)) = 2 ^ k - unat p mod 2 ^ k"
    and "unat (p AND msk) = unat p mod 2 ^ k"
proof -
  show m: "unat (p AND msk) = unat p mod 2 ^ k"
    using assms by (simp add: unat_and_mask_exp)
  have c: "unat cap = 2 ^ k"
    using assms by (simp add: unat_pow2)
  have "unat p mod 2 ^ k < 2 ^ k" by simp
  then have "p AND msk \<le> cap"
    using m c by (simp add: word_le_nat_alt)
  then show "unat (cap - (p AND msk)) = 2 ^ k - unat p mod 2 ^ k"
    using m c by (simp add: unat_sub)
qed

text \<open>The write as one circular store of the accepted prefix.\<close>

definition rb_accept :: "ring_buffer \<Rightarrow> csize \<Rightarrow> nat" where
  "rb_accept rb len = min (unat len) (unat (rb_capacity rb) - rb_used rb)"

lemma ring_buffer_write_eq:
  assumes wf: "rb_wf rb" and d: "rb_data rb = Some d" and src: "unat len \<le> length src"
  shows "edt_ring_buffer_write (Some rb) (Some src) len =
    (of_nat (rb_accept rb len),
     Some (rb\<lparr>rb_data := Some (ring_write d (unat (rb_write_pos rb)) (take (rb_accept rb len) src)),
              rb_write_pos := rb_write_pos rb + of_nat (rb_accept rb len)\<rparr>))"
proof -
  from wf obtain k where k: "length d = 2 ^ k" "1 \<le> k" "k < 64" "rb_capacity rb = 2 ^ k"
    "unat (rb_capacity rb) = 2 ^ k" "rb_mask rb = 2 ^ k - 1" "rb_used rb \<le> 2 ^ k"
    using d by (auto elim!: rb_wfE)
  define fs where "fs = rb_capacity rb - (rb_write_pos rb - rb_read_pos rb)"
  define tw where "tw = (if len < fs then len else fs)"
  have n: "unat tw = rb_accept rb len"
    by (simp only: tw_def fs_def unat_min_word free_space_wf [OF wf] rb_accept_def)
  then have tw: "tw = of_nat (rb_accept rb len)" by (metis word_of_nat_eq_iff unat_of_nat word_unat_eq_iff unsigned_of_nat of_nat_unat ucast_id)
  define ch where "ch = rb_capacity rb - (rb_write_pos rb AND rb_mask rb)"
  define fc where "fc = (if ch > tw then tw else ch)"
  note c = chunk_wf [OF k(3,4,6), of "rb_write_pos rb"]
  have fc: "unat fc = min (length d - unat (rb_write_pos rb) mod length d) (rb_accept rb len)"
    by (simp only: fc_def unat_min_word' ch_def c(1) n k(1) min.commute)
  have acc: "rb_accept rb len \<le> length d" "rb_accept rb len \<le> length src"
    using src k by (auto simp: rb_accept_def)
  have less: "fc < tw \<longleftrightarrow> unat fc < rb_accept rb len"
    by (simp add: word_less_nat_alt n)
  have sub: "unat (tw - fc) = rb_accept rb len - unat fc" if "fc < tw"
    using that n by (simp add: unat_sub)
  have cp: "(let d1 = memcpy d (unat (rb_write_pos rb) mod length d) src (unat fc)
          in if unat fc < rb_accept rb len
             then memcpy d1 0 (drop (unat fc) src) (rb_accept rb len - unat fc) else d1) =
        ring_write d (unat (rb_write_pos rb)) (take (rb_accept rb len) src)"
    by (rule memcpy_ring_write) (use acc fc k in auto)
  have cp': "(if fc < tw
               then memcpy (memcpy d (unat (rb_write_pos rb AND rb_mask rb)) src (unat fc)) 0
                      (drop (unat fc) src) (unat (tw - fc))
               else memcpy d (unat (rb_write_pos rb AND rb_mask rb)) src (unat fc)) =
        ring_write d (unat (rb_write_pos rb)) (take (rb_accept rb len) src)"
    using cp by (simp add: Let_def c(2) k(1) [symmetric] less sub cong: if_cong)
  show ?thesis
  proof (cases "tw = 0")
    case True
    then have z: "rb_accept rb len = 0" using n by simp
    have id: "ring_write d (unat (rb_write_pos rb)) [] = d"
      by (rule nth_equalityI) (simp_all add: nth_ring_write Let_def)
    have "edt_ring_buffer_write (Some rb) (Some src) len = (0, Some rb)"
      unfolding edt_ring_buffer_write_def Let_def prod.case option.case d fs_def [symmetric]
        tw_def [symmetric] using True by simp
    then show ?thesis using z d id by simp
  next
    case False
    have "len \<noteq> 0" using False by (auto simp: tw_def word_neq_0_conv split: if_splits)
    then have "edt_ring_buffer_write (Some rb) (Some src) len =
      (tw, Some (rb\<lparr>rb_data := Some (ring_write d (unat (rb_write_pos rb)) (take (rb_accept rb len) src)),
                    rb_write_pos := rb_write_pos rb + tw\<rparr>))"
      unfolding edt_ring_buffer_write_def Let_def prod.case option.case d fs_def [symmetric]
        tw_def [symmetric] ch_def [symmetric] fc_def [symmetric] cp' using False by simp
    then show ?thesis by (simp add: tw)
  qed
qed


lemma write_contents:
  assumes wf: "rb_wf rb" and src: "unat len \<le> length src"
    and w: "edt_ring_buffer_write (Some rb) (Some src) len = (n, rbp)"
  obtains rb' where "rbp = Some rb'" "rb_wf rb'" "unat n = rb_accept rb len"
    "rb_contents rb' = rb_contents rb @ take (rb_accept rb len) src"
    "rb_capacity rb' = rb_capacity rb" "rb_used rb' = rb_used rb + rb_accept rb len"
proof -
  obtain d k where k: "rb_data rb = Some d" "length d = 2 ^ k" "1 \<le> k" "k < 64"
    "rb_capacity rb = 2 ^ k" "unat (rb_capacity rb) = 2 ^ k" "rb_mask rb = 2 ^ k - 1"
    "rb_used rb \<le> 2 ^ k" "rb_contents rb = ring_read d (unat (rb_read_pos rb)) (rb_used rb)"
    using wf by (rule rb_wfE)
  define m where "m = rb_accept rb len"
  have m: "m + rb_used rb \<le> 2 ^ k" "m \<le> length src"
    using src k by (auto simp: m_def rb_accept_def)
  define rb' where "rb' = rb\<lparr>rb_data := Some (ring_write d (unat (rb_write_pos rb)) (take m src)),
    rb_write_pos := rb_write_pos rb + of_nat m\<rparr>"
  have eq: "n = of_nat m" "rbp = Some rb'"
    using w ring_buffer_write_eq [OF wf k(1) src] by (auto simp: rb'_def m_def)
  have lt: "(2::nat) ^ k < 2 ^ 64" using power_strict_increasing [OF k(4), of "2::nat"] by simp
  have um: "unat (of_nat m :: csize) = m"
    using m lt by (simp add: unat_of_nat)
  have used: "rb_used rb' = rb_used rb + m"
  proof -
    have "rb_write_pos rb' - rb_read_pos rb' = (rb_write_pos rb - rb_read_pos rb) + of_nat m"
      by (simp add: rb'_def)
    moreover have "unat (rb_write_pos rb - rb_read_pos rb) + unat (of_nat m :: csize) < 2 ^ 64"
      using m lt um by (simp add: rb_used_def [symmetric])
    ultimately show ?thesis
      using um by (simp add: rb_used_def unat_word_ariths)
  qed
  have wp: "unat (rb_write_pos rb) mod length d = (unat (rb_read_pos rb) + rb_used rb) mod length d"
  proof -
    have "rb_write_pos rb = rb_read_pos rb + of_nat (rb_used rb)"
      by (simp add: rb_used_def)
    then show ?thesis
      using unat_plus_of_nat_mod [of k "rb_read_pos rb" "rb_used rb"] k(2,4) by simp
  qed
  have rw: "ring_write d (unat (rb_write_pos rb)) (take m src) =
            ring_write d (unat (rb_read_pos rb) + rb_used rb) (take m src)"
    by (simp add: ring_write_def wp)
  have wf': "rb_wf rb'"
    using wf k used m by (auto simp: rb_wf_def rb'_def rb_used_def word_le_nat_alt)
  have "rb_contents rb' = rb_contents rb @ take m src"
  proof -
    let ?d = "ring_write d (unat (rb_read_pos rb) + rb_used rb) (take m src)"
    have "ring_read ?d (unat (rb_read_pos rb)) (rb_used rb) = ring_read d (unat (rb_read_pos rb)) (rb_used rb)"
      by (rule ring_read_write_other) (use m k in simp)
    moreover have "ring_read ?d (unat (rb_read_pos rb) + rb_used rb) m = take m src"
      using ring_read_write_same [of "take m src" d "unat (rb_read_pos rb) + rb_used rb"] m k by simp
    ultimately show ?thesis
      using k(9) used by (simp add: rb_contents_def rb'_def rw ring_read_add)
  qed
  with that [of rb'] eq wf' um used show ?thesis
    by (simp add: m_def rb'_def)
qed

section \<open>Reading\<close>

lemma ring_copy_out_eq:
  assumes wf: "rb_wf rb" and d: "rb_data rb = Some d" and dst: "unat len \<le> length dst"
  defines "m \<equiv> min (unat len) (rb_used rb)"
  shows "ring_copy_out rb d dst len = (of_nat m, take m (rb_contents rb) @ drop m dst)"
proof -
  from wf obtain k where k: "length d = 2 ^ k" "1 \<le> k" "k < 64" "rb_capacity rb = 2 ^ k"
    "rb_mask rb = 2 ^ k - 1" "rb_used rb \<le> 2 ^ k"
    "rb_contents rb = ring_read d (unat (rb_read_pos rb)) (rb_used rb)"
    using d by (auto elim!: rb_wfE)
  define av where "av = rb_write_pos rb - rb_read_pos rb"
  define tr where "tr = (if len < av then len else av)"
  have n: "unat tr = m"
    by (simp only: tr_def unat_min_word av_def rb_used_def m_def)
  then have tr: "tr = of_nat m" by (metis word_of_nat_eq_iff unat_of_nat word_unat_eq_iff unsigned_of_nat of_nat_unat ucast_id)
  define ch where "ch = rb_capacity rb - (rb_read_pos rb AND rb_mask rb)"
  define fc where "fc = (if ch > tr then tr else ch)"
  note c = chunk_wf [OF k(3,4,5), of "rb_read_pos rb"]
  have fc: "unat fc = min (length d - unat (rb_read_pos rb) mod length d) m"
    by (simp only: fc_def unat_min_word' ch_def c(1) n k(1) min.commute)
  have less: "fc < tr \<longleftrightarrow> unat fc < m" by (simp add: word_less_nat_alt n)
  have sub: "unat (tr - fc) = m - unat fc" if "fc < tr"
    using that n by (simp add: unat_sub)
  have "(let dst1 = memcpy dst 0 (drop (unat (rb_read_pos rb) mod length d) d) (unat fc)
         in if unat fc < m then memcpy dst1 (unat fc) d (m - unat fc) else dst1) =
        ring_read d (unat (rb_read_pos rb)) m @ drop m dst"
    by (rule memcpy_ring_read) (use k dst fc in \<open>auto simp: m_def\<close>)
  then have cp: "(if fc < tr
     then memcpy (memcpy dst 0 (drop (unat (rb_read_pos rb AND rb_mask rb)) d) (unat fc)) (unat fc) d
            (unat (tr - fc))
     else memcpy dst 0 (drop (unat (rb_read_pos rb AND rb_mask rb)) d) (unat fc)) =
     ring_read d (unat (rb_read_pos rb)) m @ drop m dst"
    by (simp add: Let_def c(2) k(1) [symmetric] less sub cong: if_cong)
  have "take m (rb_contents rb) = ring_read d (unat (rb_read_pos rb)) m"
    by (simp add: k(7) take_ring_read m_def)
  then show ?thesis
    using tr n
    unfolding ring_copy_out_def Let_def av_def [symmetric] tr_def [symmetric] ch_def [symmetric]
      fc_def [symmetric] cp
    by auto
qed

lemma read_contents:
  assumes wf: "rb_wf rb" and dst: "unat len \<le> length dst"
    and r: "edt_ring_buffer_read (Some rb) (Some dst) len = (n, dstp, rbp)"
  obtains rb' where "rbp = Some rb'" "rb_wf rb'" "unat n = min (unat len) (length (rb_contents rb))"
    "dstp = Some (take (unat n) (rb_contents rb) @ drop (unat n) dst)"
    "rb_contents rb' = drop (unat n) (rb_contents rb)" "rb_capacity rb' = rb_capacity rb"
proof -
  obtain d k where k: "rb_data rb = Some d" "length d = 2 ^ k" "1 \<le> k" "k < 64"
    "rb_capacity rb = 2 ^ k" "unat (rb_capacity rb) = 2 ^ k" "rb_mask rb = 2 ^ k - 1"
    "rb_used rb \<le> 2 ^ k" "rb_contents rb = ring_read d (unat (rb_read_pos rb)) (rb_used rb)"
    using wf by (rule rb_wfE)
  define m where "m = min (unat len) (rb_used rb)"
  have um: "unat (of_nat m :: csize) = m"
    using word_of_nat_le_self [of m len] by (simp add: m_def)
  define rb' where "rb' = rb\<lparr>rb_read_pos := rb_read_pos rb + of_nat m\<rparr>"
  have "edt_ring_buffer_read (Some rb) (Some dst) len =
        (of_nat m, Some (take m (rb_contents rb) @ drop m dst), Some rb')"
  proof (cases "m = 0")
    case True
    then show ?thesis
      using k(1) ring_copy_out_eq [OF wf k(1) dst]
      by (simp add: edt_ring_buffer_read_def m_def [symmetric] rb'_def)
  next
    case False
    then have "(of_nat m :: csize) \<noteq> 0" "len \<noteq> 0" using um by (auto simp: m_def)
    then show ?thesis
      using k(1) ring_copy_out_eq [OF wf k(1) dst]
      by (simp add: edt_ring_buffer_read_def m_def [symmetric] rb'_def)
  qed
  with r have eq: "n = of_nat m" "dstp = Some (take m (rb_contents rb) @ drop m dst)" "rbp = Some rb'"
    by simp_all
  have used: "rb_used rb' = rb_used rb - m"
  proof -
    have "rb_write_pos rb' - rb_read_pos rb' = (rb_write_pos rb - rb_read_pos rb) - of_nat m"
      by (simp add: rb'_def)
    moreover have "(of_nat m :: csize) \<le> rb_write_pos rb - rb_read_pos rb"
      using um by (simp add: word_le_nat_alt rb_used_def [symmetric] m_def)
    ultimately show ?thesis
      using um by (simp add: rb_used_def unat_sub)
  qed
  have rp: "unat (rb_read_pos rb') mod length d = (unat (rb_read_pos rb) + m) mod length d"
    using unat_plus_of_nat_mod [of k "rb_read_pos rb" m] k(2,4) by (simp add: rb'_def)
  have "rb_contents rb' = ring_read d (unat (rb_read_pos rb')) (rb_used rb')"
    using k(1) by (simp add: rb_contents_def rb'_def)
  also have "\<dots> = ring_read d (unat (rb_read_pos rb) + m) (rb_used rb - m)"
    by (subst (1 2) ring_read_mod [symmetric]) (simp only: rp used)
  finally have "rb_contents rb' = drop m (rb_contents rb)"
    by (simp add: k(9) drop_ring_read)
  moreover have "rb_wf rb'"
    using wf used k by (auto simp: rb_wf_def rb'_def rb_used_def word_le_nat_alt)
  ultimately show ?thesis
    using that [of rb'] eq um k(9) by (simp add: m_def rb'_def)
qed

lemma peek_contents:
  assumes wf: "rb_wf rb" and dst: "unat len \<le> length dst"
  defines "m \<equiv> min (unat len) (length (rb_contents rb))"
  shows "edt_ring_buffer_peek (Some rb) (Some dst) len =
         (of_nat m, Some (take m (rb_contents rb) @ drop m dst))"
proof -
  obtain d where d: "rb_data rb = Some d" using wf by (rule rb_wfE)
  show ?thesis
    using d ring_copy_out_eq [OF wf d dst] wf by (auto simp: edt_ring_buffer_peek_def m_def)
qed

section \<open>Initialisation\<close>

lemma push_bit_pow2: "push_bit 1 (2 ^ k :: csize) = 2 ^ Suc k"
  by (simp add: push_bit_eq_mult mult.commute)

lemma pow2_word_le: "k \<le> m \<Longrightarrow> m < 64 \<Longrightarrow> (2 ^ k :: csize) \<le> 2 ^ m"
  by (simp add: word_le_nat_alt unat_pow2 power_increasing)

lemma round_up_loop_step:
  "round_up_loop v (2 ^ k) = (if 2 ^ k < v then round_up_loop v (2 ^ Suc k) else Some (2 ^ k))"
  by (subst round_up_loop.simps) (simp only: push_bit_pow2)

lemma round_up_loop_terminates:
  assumes "v \<le> 2 ^ 63" "k < 64"
  shows "\<exists>j. k \<le> j \<and> j < 64 \<and> round_up_loop v (2 ^ k) = Some (2 ^ j) \<and> v \<le> 2 ^ j \<and>
             (j = k \<or> 2 ^ (j - 1) < v)"
  using assms(2)
proof (induction "63 - k" arbitrary: k)
  case 0
  then have k: "k = 63" by simp
  have v: "v \<le> 2 ^ k" unfolding k by (rule assms(1))
  then have "round_up_loop v (2 ^ k) = Some (2 ^ k)"
    using round_up_loop_step [of v k] by (metis leD)
  then show ?case
    using v Suc_lessD 0(2) by (intro exI [of _ k] conjI disjI1 refl order_refl)
next
  case (Suc n)
  show ?case
  proof (cases "(2 ^ k :: csize) < v")
    case False
    then have "round_up_loop v (2 ^ k) = Some (2 ^ k)"
      using round_up_loop_step [of v k] by argo
    moreover have "v \<le> 2 ^ k" using False by (simp only: not_less)
    ultimately show ?thesis
      using Suc.prems by (intro exI [of _ k] conjI disjI1 refl order_refl)
  next
    case True
    from Suc.hyps(2) have "n = 63 - Suc k" "Suc k < 64" by simp_all
    then obtain j where j: "Suc k \<le> j" "j < 64" "round_up_loop v (2 ^ Suc k) = Some (2 ^ j)"
      "v \<le> 2 ^ j" "j = Suc k \<or> 2 ^ (j - 1) < v"
      using Suc.hyps(1) [of "Suc k"] by blast
    have "round_up_loop v (2 ^ k) = Some (2 ^ j)"
      using True j(3) round_up_loop_step [of v k] by argo
    moreover have "2 ^ (j - 1) < v" using j(5)
    proof
      assume "j = Suc k"
      then have "j - 1 = k" by simp
      with True show ?thesis by (simp only:)
    qed
    moreover have "k \<le> j" using j(1) by simp
    ultimately show ?thesis using j(2,4) by (intro exI [of _ j] conjI disjI2)
  qed
qed

text \<open>The points the loop visits: the powers of two, then 0 for ever.\<close>

definition round_up_point :: "csize \<Rightarrow> bool" where
  "round_up_point p \<longleftrightarrow> p = 0 \<or> (\<exists>k<64. p = 2 ^ k)"

lemma round_up_point_le: "round_up_point p \<Longrightarrow> p \<le> 2 ^ 63"
  unfolding round_up_point_def using pow2_word_le [of _ 63] by fastforce

lemma round_up_point_next: "round_up_point p \<Longrightarrow> round_up_point (push_bit 1 p)"
proof -
  assume "round_up_point p"
  then consider "p = 0" | k where "k < 64" "p = 2 ^ k"
    unfolding round_up_point_def by blast
  then show ?thesis
  proof cases
    case (2 k)
    then have p: "push_bit 1 p = 2 ^ Suc k" by (simp only: push_bit_pow2)
    show ?thesis
    proof (cases "k = 63")
      case True
      then show ?thesis using 2 by (simp add: round_up_point_def)
    next
      case False
      then have "Suc k < 64" using 2 by simp
      then show ?thesis unfolding round_up_point_def p by blast
    qed
  qed (simp add: round_up_point_def)
qed

lemma round_up_loop_diverges:
  assumes "2 ^ 63 < v" "round_up_point p"
  shows "round_up_loop v p = None"
proof (rule ccontr)
  assume "round_up_loop v p \<noteq> None"
  then obtain r where r: "round_up_loop v p = Some r" by blast
  have "\<not> (2 ^ 63 < v \<and> round_up_point p)"
  proof (rule round_up_loop.raw_induct
      [where P = "\<lambda>v p r. \<not> (2 ^ 63 < v \<and> round_up_point p)", OF _ r])
    fix f v p r
    assume IH: "\<And>v p r. f v p = Some r \<Longrightarrow> \<not> (2 ^ 63 < v \<and> round_up_point p)"
      and eq: "(if p < v then f v (push_bit 1 p) else Some p) = (Some r :: csize option)"
    show "\<not> (2 ^ 63 < v \<and> round_up_point p)"
    proof
      assume a: "2 ^ 63 < v \<and> round_up_point p"
      then have "p < v" using round_up_point_le [of p] by (blast intro: le_less_trans)
      then have "f v (push_bit 1 p) = Some r" using eq by (simp only: if_True)
      then show False using IH a round_up_point_next by blast
    qed
  qed
  with assms show False by blast
qed

text \<open>C19. The rounding loop returns exactly for requests up to \<open>2 ^ 63\<close>, with the smallest
  power of two that is large enough; above that, the shift loses its bit and the loop runs for ever.\<close>

theorem round_up_pow2_terminates_iff:
  "(edt_round_up_pow2 v \<noteq> None) = (v \<le> 2 ^ 63) \<and>
   (\<forall>c. edt_round_up_pow2 v = Some c \<longrightarrow>
        v \<le> c \<and> (\<exists>j<64. c = 2 ^ j \<and> (j = 0 \<or> 2 ^ (j - 1) < v)))"
proof (cases "v \<le> 2 ^ 63")
  case True
  then obtain j where "j < 64" "edt_round_up_pow2 v = Some (2 ^ j)" "v \<le> 2 ^ j"
    "j = 0 \<or> 2 ^ (j - 1) < v"
    using round_up_loop_terminates [of v 0] by (auto simp: edt_round_up_pow2_def)
  with True show ?thesis by auto
next
  case False
  have "round_up_point 1" unfolding round_up_point_def by (metis power_0 zero_less_numeral)
  then have "edt_round_up_pow2 v = None"
    using False round_up_loop_diverges [of v 1] by (simp add: edt_round_up_pow2_def not_le)
  with False show ?thesis by simp
qed

theorem round_up_pow2_terminates_iff_witness:
  "edt_round_up_pow2 6 = Some 8 \<and> edt_round_up_pow2 (2 ^ 63 + 1) = None"
proof
  show "edt_round_up_pow2 6 = Some 8"
    by (simp add: edt_round_up_pow2_def round_up_loop.simps push_bit_eq_mult)
  show "edt_round_up_pow2 (2 ^ 63 + 1) = None"
    using round_up_pow2_terminates_iff [of "2 ^ 63 + 1"] by simp
qed

lemma and_pred_eq_0_nat: "0 < n \<Longrightarrow> n AND (n - 1) = 0 \<Longrightarrow> \<exists>k. n = 2 ^ k" for n :: nat
proof (induction n rule: less_induct)
  case (less n)
  show ?case
  proof (cases "even n")
    case True
    then obtain m where m: "n = 2 * m" by (rule evenE)
    with less.prems have "0 < m" by simp
    have "n - 1 = 2 * (m - 1) + 1" using m \<open>0 < m\<close> by simp
    then have "n AND (n - 1) = 2 * (m AND (m - 1))"
      using m by (subst and_rec) simp
    with less.prems have "m AND (m - 1) = 0" by simp
    then obtain k where "m = 2 ^ k" using less.IH [of m] m \<open>0 < m\<close> by auto
    then show ?thesis using m by (intro exI [of _ "Suc k"]) simp
  next
    case False
    then obtain m where m: "n = 2 * m + 1" by (rule oddE)
    then have "n AND (n - 1) = 2 * m" by (subst and_rec) simp
    with less.prems m have "n = 2 ^ 0" by simp
    then show ?thesis by blast
  qed
qed

lemma is_power_of_two_iff: "edt_is_power_of_two v \<Longrightarrow> \<exists>k<64. v = 2 ^ k"
proof -
  assume a: "edt_is_power_of_two v"
  then have v0: "v \<noteq> 0" and an: "v AND (v - 1) = 0" by (simp_all add: edt_is_power_of_two_def)
  have "unat v AND (unat v - 1) = unat (v AND (v - 1))"
    using v0 by (simp add: unsigned_and_eq unat_minus_one)
  then have "unat v AND (unat v - 1) = 0" using an by simp
  then obtain k where k: "unat v = 2 ^ k"
    using and_pred_eq_0_nat [of "unat v"] v0 by (auto simp: unat_gt_0)
  have "unat v < 2 ^ 64" using unsigned_less [of v] by simp
  then have "k < 64" using k by (metis power_strict_increasing_iff one_less_numeral_iff semiring_norm(76))
  moreover have "v = 2 ^ k"
    by (rule word_unat_eq_iff [THEN iffD2]) (simp add: k unat_pow2 \<open>k < 64\<close>)
  ultimately show ?thesis by blast
qed

lemma rb_wf_fresh:
  "1 \<le> k \<Longrightarrow> k < 64 \<Longrightarrow> c = 2 ^ k \<Longrightarrow>
   rb_wf (rb\<lparr>rb_data := Some (replicate (unat c) 0), rb_capacity := c, rb_mask := c - 1,
            rb_write_pos := 0, rb_read_pos := 0\<rparr>)"
  by (auto simp: rb_wf_def)

lemma ring_init_wf:
  assumes "2 \<le> n" and "n \<le> 2 ^ 63"
  shows "\<exists>rb'. edt_ring_buffer_init True (Some rb) n = Some (0, Some rb') \<and> rb_wf rb' \<and>
               rb_contents rb' = [] \<and> n \<le> rb_capacity rb'"
proof -
  obtain c k where ck: "1 \<le> k" "k < 64" "c = 2 ^ k" "n \<le> c"
    and eq: "(if \<not> edt_is_power_of_two n then edt_round_up_pow2 n else Some n) = Some c"
  proof (cases "edt_is_power_of_two n")
    case True
    then obtain k where "k < 64" "n = 2 ^ k" using is_power_of_two_iff by blast
    moreover from this assms(1) have "k \<noteq> 0" by (intro notI) (simp add: word_le_nat_alt)
    ultimately show ?thesis using that [of k n] True by simp
  next
    case False
    obtain c j where c: "edt_round_up_pow2 n = Some c" "n \<le> c" "j < 64" "c = 2 ^ j"
      using assms(2) round_up_pow2_terminates_iff [of n] by blast
    moreover from this assms(1) have "j \<noteq> 0" by (intro notI) (simp add: word_le_nat_alt)
    ultimately show ?thesis using that [of j c] False by simp
  qed
  have "\<not> n < 2" using assms(1) by (simp only: not_less)
  with eq have "edt_ring_buffer_init True (Some rb) n =
      Some (0, Some (rb\<lparr>rb_data := Some (replicate (unat c) 0), rb_capacity := c, rb_mask := c - 1,
                         rb_write_pos := 0, rb_read_pos := 0\<rparr>))"
    by (simp add: edt_ring_buffer_init_def)
  then show ?thesis
    using rb_wf_fresh [OF ck(1-3), of rb] ck(4) by (simp add: rb_contents_def rb_used_def)
qed

text \<open>Initialisation either fails with -1, fails to return (only for a request above
  \<open>2 ^ 63\<close>), or gives an empty well-formed ring of at least the requested capacity.\<close>

theorem ring_buffer_init_ok:
  assumes "2 \<le> n" and "n \<le> 2 ^ 63"
  shows "\<exists>rb'. edt_ring_buffer_init True (Some rb) n = Some (0, Some rb') \<and> rb_wf rb' \<and>
               rb_contents rb' = [] \<and> n \<le> rb_capacity rb'"
  using assms by (rule ring_init_wf)

section \<open>The contract of a byte queue\<close>

text \<open>
  What a user of the ring relies on: \<open>put\<close> takes as long a prefix as there is room for and
  appends it, \<open>get\<close> removes from the front.
\<close>

datatype 'b fifo_op = Put "'b list" | Get nat

text \<open>A script of operations: the bytes accepted, the bytes delivered, the final queue.\<close>

fun fifo_run :: "('q \<Rightarrow> 'b list \<Rightarrow> nat \<times> 'q) \<Rightarrow> ('q \<Rightarrow> nat \<Rightarrow> 'b list \<times> 'q) \<Rightarrow> 'q \<Rightarrow>
  'b fifo_op list \<Rightarrow> 'b list \<times> 'b list \<times> 'q" where
  "fifo_run put get q [] = ([], [], q)"
| "fifo_run put get q (Put xs # ops) =
     (let (n, q') = put q xs; (i, out, r) = fifo_run put get q' ops in (take n xs @ i, out, r))"
| "fifo_run put get q (Get k # ops) =
     (let (xs, q') = get q k; (i, out, r) = fifo_run put get q' ops in (i, xs @ out, r))"

fun fifo_op_size :: "'b fifo_op \<Rightarrow> nat" where
  "fifo_op_size (Put xs) = length xs"
| "fifo_op_size (Get k) = k"

locale byte_fifo =
  fixes put :: "'q \<Rightarrow> 'b list \<Rightarrow> nat \<times> 'q"
    and get :: "'q \<Rightarrow> nat \<Rightarrow> 'b list \<times> 'q"
    and contents :: "'q \<Rightarrow> 'b list"
    and room :: "'q \<Rightarrow> nat"
    and inv :: "'q \<Rightarrow> bool"
    and limit :: nat
  assumes put_law: "inv q \<Longrightarrow> length xs < limit \<Longrightarrow> put q xs = (n, q') \<Longrightarrow>
      inv q' \<and> n = min (length xs) (room q) \<and> contents q' = contents q @ take n xs \<and>
      room q' = room q - n"
    and get_law: "inv q \<Longrightarrow> k < limit \<Longrightarrow> get q k = (xs, q') \<Longrightarrow>
      inv q' \<and> xs = take k (contents q) \<and> contents q' = drop k (contents q) \<and>
      room q' = room q + length xs"
begin

lemma fifo_stream:
  assumes "inv q" and "\<forall>op\<in>set ops. fifo_op_size op < limit"
    and "fifo_run put get q ops = (ins, outs, r)"
  shows "inv r \<and> contents q @ ins = outs @ contents r"
  using assms
proof (induction ops arbitrary: q ins outs)
  case Nil
  then show ?case by simp
next
  case (Cons op ops)
  show ?case
  proof (cases op)
    case (Put xs)
    obtain n q' where p: "put q xs = (n, q')" by fastforce
    obtain i where i: "fifo_run put get q' ops = (i, outs, r)" "ins = take n xs @ i"
      using Cons.prems(3) by (auto simp: Put p split: prod.splits)
    have l: "inv q'" "contents q' = contents q @ take n xs"
      using put_law [OF Cons.prems(1) _ p] Cons.prems(2) Put by auto
    then show ?thesis
      using Cons.IH [OF l(1) _ i(1)] Cons.prems(2) i(2) by simp
  next
    case (Get k)
    obtain xs q' where g: "get q k = (xs, q')" by fastforce
    obtain out where out: "fifo_run put get q' ops = (ins, out, r)" "outs = xs @ out"
      using Cons.prems(3) by (auto simp: Get g split: prod.splits)
    have l: "inv q'" "xs = take k (contents q)" "contents q' = drop k (contents q)"
      using get_law [OF Cons.prems(1) _ g] Cons.prems(2) Get by auto
    then show ?thesis
      using Cons.IH [OF l(1) _ out(1)] Cons.prems(2) out(2)
      by (metis append_assoc append_take_drop_id list.set_intros(2))
  qed
qed

text \<open>Fixed-size records stay whole: nothing is ever split.\<close>

lemma put_records:
  assumes "inv q" "length xs < limit" "put q xs = (n, q')"
    and "w dvd room q" "w dvd length xs"
  shows "w dvd n \<and> w dvd room q'"
  using put_law [OF assms(1-3)] assms(4,5) by (auto simp: min_def)

lemma get_records:
  assumes "inv q" "k < limit" "get q k = (xs, q')"
    and "w dvd length (contents q)" "w dvd k"
  shows "w dvd length xs \<and> w dvd length (contents q')"
  using get_law [OF assms(1-3)] assms(4,5) by (auto simp: min_def)

end

definition rb_put :: "ring_buffer \<Rightarrow> u8 list \<Rightarrow> nat \<times> ring_buffer" where
  "rb_put rb xs =
     (case edt_ring_buffer_write (Some rb) (Some xs) (of_nat (length xs)) of
        (n, Some rb') \<Rightarrow> (unat n, rb') | (n, None) \<Rightarrow> (unat n, rb))"

text \<open>Reading into an array of \<open>k\<close> zero bytes.\<close>

definition rb_get :: "ring_buffer \<Rightarrow> nat \<Rightarrow> u8 list \<times> ring_buffer" where
  "rb_get rb k =
     (case edt_ring_buffer_read (Some rb) (Some (replicate k 0)) (of_nat k) of
        (n, Some dst, Some rb') \<Rightarrow> (take (unat n) dst, rb') | _ \<Rightarrow> ([], rb))"

definition rb_room :: "ring_buffer \<Rightarrow> nat" where
  "rb_room rb = unat (rb_capacity rb) - rb_used rb"

lemma unat_of_nat_64: "n < 2 ^ 64 \<Longrightarrow> unat (of_nat n :: csize) = n"
  by (simp add: unat_of_nat)

interpretation rbq: byte_fifo rb_put rb_get rb_contents rb_room rb_wf "2 ^ 64"
proof unfold_locales
  fix q xs n q'
  assume a: "rb_wf q" "length xs < 2 ^ 64" "rb_put q xs = (n, q')"
  obtain m rbp where w: "edt_ring_buffer_write (Some q) (Some xs) (of_nat (length xs)) = (m, rbp)"
    by fastforce
  then obtain rb' where r: "rbp = Some rb'" "rb_wf rb'" "unat m = rb_accept q (of_nat (length xs))"
    "rb_contents rb' = rb_contents q @ take (unat m) xs"
    "rb_capacity rb' = rb_capacity q" "rb_used rb' = rb_used q + unat m"
    using write_contents [OF a(1) _ w] unat_of_nat_64 [OF a(2)] by auto
  with a w show "rb_wf q' \<and> n = min (length xs) (rb_room q) \<and>
      rb_contents q' = rb_contents q @ take n xs \<and> rb_room q' = rb_room q - n"
    using unat_of_nat_64 [OF a(2)] by (auto simp: rb_put_def rb_accept_def rb_room_def)
next
  fix q k xs q'
  assume a: "rb_wf q" "k < 2 ^ 64" "rb_get q k = (xs, q')"
  obtain n dstp rbp where g: "edt_ring_buffer_read (Some q) (Some (replicate k 0)) (of_nat k) = (n, dstp, rbp)"
    by (metis prod_cases3)
  then obtain rb' where r: "rbp = Some rb'" "rb_wf rb'" "unat n = min k (length (rb_contents q))"
    "dstp = Some (take (unat n) (rb_contents q) @ drop (unat n) (replicate k 0))"
    "rb_contents rb' = drop (unat n) (rb_contents q)" "rb_capacity rb' = rb_capacity q"
    using read_contents [OF a(1) _ g] unat_of_nat_64 [OF a(2)] by auto
  have xs: "xs = take (unat n) (rb_contents q)" "q' = rb'"
    using a(3) g r(1,3,4) by (auto simp: rb_get_def)
  then show "rb_wf q' \<and> xs = take k (rb_contents q) \<and> rb_contents q' = drop k (rb_contents q) \<and>
      rb_room q' = rb_room q + length xs"
    using r a(1) length_rb_contents [OF a(1)] length_rb_contents [OF r(2)] rb_used_le_capacity [OF a(1)]
    by (auto simp: rb_room_def min_def)
qed

text \<open>C5. Through any script of writes and reads the bytes come out in the order they were
  accepted, none lost and none repeated: what was stored before and what was accepted equals what
  was delivered followed by what is still stored.\<close>

theorem ring_buffer_stream_order:
  assumes "rb_wf rb" and "\<forall>op\<in>set ops. fifo_op_size op < 2 ^ 64"
    and "fifo_run rb_put rb_get rb ops = (accepted, delivered, rb')"
  shows "rb_wf rb' \<and> rb_contents rb @ accepted = delivered @ rb_contents rb'"
  using assms by (rule rbq.fifo_stream)

text \<open>C12. A write takes the longest prefix that fits and appends it to the contents, whatever the
  positions are, also across the wrap-around of the array and of the counters.\<close>

theorem ring_buffer_write_refines:
  assumes "rb_wf rb" and "unat len \<le> length src"
  shows "\<exists>rb' n. edt_ring_buffer_write (Some rb) (Some src) len = (n, Some rb') \<and>
           unat n = min (unat len) (unat (rb_capacity rb) - length (rb_contents rb)) \<and>
           rb_wf rb' \<and> rb_contents rb' = rb_contents rb @ take (unat n) src \<and>
           rb_capacity rb' = rb_capacity rb"
proof -
  obtain n rbp where "edt_ring_buffer_write (Some rb) (Some src) len = (n, rbp)" by fastforce
  with write_contents [OF assms this] show ?thesis
    using assms(1) by (metis rb_accept_def length_rb_contents)
qed

text \<open>C13. A read delivers the oldest bytes, as many as asked for and available, leaves the rest of the
  destination array alone, and removes them; a peek delivers the same bytes and removes nothing.\<close>

theorem ring_buffer_read_refines:
  assumes "rb_wf rb" and "unat len \<le> length dst"
  shows "\<exists>rb' n. edt_ring_buffer_read (Some rb) (Some dst) len =
             (n, Some (take (unat n) (rb_contents rb) @ drop (unat n) dst), Some rb') \<and>
           unat n = min (unat len) (length (rb_contents rb)) \<and>
           rb_wf rb' \<and> rb_contents rb' = drop (unat n) (rb_contents rb) \<and>
           edt_ring_buffer_peek (Some rb) (Some dst) len =
             (n, Some (take (unat n) (rb_contents rb) @ drop (unat n) dst))"
proof -
  obtain n dstp rbp where r: "edt_ring_buffer_read (Some rb) (Some dst) len = (n, dstp, rbp)"
    by (metis prod_cases3)
  then obtain rb' where "rbp = Some rb'" "rb_wf rb'" and n: "unat n = min (unat len) (length (rb_contents rb))"
    "dstp = Some (take (unat n) (rb_contents rb) @ drop (unat n) dst)"
    "rb_contents rb' = drop (unat n) (rb_contents rb)"
    using read_contents [OF assms r] by metis
  moreover have "of_nat (unat n) = n" by simp
  ultimately show ?thesis
    using r peek_contents [OF assms] by (metis (no_types, lifting))
qed

section \<open>The unit test, with positions about to wrap\<close>

definition rb_demo :: ring_buffer where
  "rb_demo = \<lparr>rb_data = Some [0, 0, 0, 0, 0, 0, 0, 0], rb_capacity = 8, rb_mask = 7,
              rb_write_pos = 0xFFFFFFFFFFFFFFFE, rb_read_pos = 0xFFFFFFFFFFFFFFFE\<rparr>"

lemma rb_demo_wf: "rb_wf rb_demo"
  unfolding rb_wf_def rb_demo_def by (simp add: bexI [of _ 3])

lemma rb_demo_contents [simp]: "rb_contents rb_demo = []" "rb_capacity rb_demo = 8"
  by (simp_all add: rb_contents_def rb_used_def rb_demo_def)

lemma rb_demo_run:
  "(let (i, out, r) = fifo_run rb_put rb_get rb_demo
      [Put [1, 2, 3, 4, 5, 6], Get 3, Put [7, 8, 9, 10, 11], Get 16] in (i, out)) =
   ([1, 2, 3, 4, 5, 6, 7, 8, 9, 10, 11], [1, 2, 3, 4, 5, 6, 7, 8, 9, 10, 11])"
  by code_simp

theorem ring_buffer_stream_order_witness:
  "\<exists>r. fifo_run rb_put rb_get rb_demo [Put [1, 2, 3, 4, 5, 6], Get 3, Put [7, 8, 9, 10, 11], Get 16] =
       ([1, 2, 3, 4, 5, 6, 7, 8, 9, 10, 11], [1, 2, 3, 4, 5, 6, 7, 8, 9, 10, 11], r) \<and>
       rb_contents r = []"
proof -
  obtain r where r: "fifo_run rb_put rb_get rb_demo
      [Put [1, 2, 3, 4, 5, 6], Get 3, Put [7, 8, 9, 10, 11], Get 16] =
      ([1, 2, 3, 4, 5, 6, 7, 8, 9, 10, 11], [1, 2, 3, 4, 5, 6, 7, 8, 9, 10, 11], r)"
    using rb_demo_run by (auto simp: Let_def split: prod.splits)
  then show ?thesis
    using ring_buffer_stream_order [OF rb_demo_wf _ r] by simp
qed

theorem ring_buffer_write_refines_witness:
  "\<exists>rb' n. edt_ring_buffer_write (Some rb_demo) (Some [1, 2, 3, 4, 5, 6, 7, 8, 9]) 9 = (n, Some rb') \<and>
     unat n = 8 \<and> rb_contents rb' = [1, 2, 3, 4, 5, 6, 7, 8]"
  using ring_buffer_write_refines [OF rb_demo_wf, of 9 "[1, 2, 3, 4, 5, 6, 7, 8, 9]"] by auto

theorem ring_buffer_read_refines_witness:
  "\<exists>rb'. edt_ring_buffer_read (Some rb_demo) (Some [1, 2]) 2 = (0, Some [1, 2], Some rb')"
  using ring_buffer_read_refines [OF rb_demo_wf, of 2 "[1, 2]"] by (auto simp: unat_eq_0)

theorem ring_buffer_init_ok_witness:
  "\<exists>rb'. edt_ring_buffer_init True (Some rb_demo) 6 = Some (0, Some rb') \<and> rb_wf rb' \<and> 6 \<le> rb_capacity rb'"
  using ring_buffer_init_ok [of 6 rb_demo] by (auto simp: word_le_nat_alt)

end
