(* ===== verification/RingSpsc.thy ===== *)
theory RingSpsc
  imports RingBuffer
begin

text \<open>
  The ring of \<open>src/core/ring_buffer.c\<close> under concurrency: a producer thread inside
  \<open>edt_ring_buffer_write\<close> and a consumer thread inside \<open>edt_ring_buffer_read\<close>,
  interleaved at every atomic load, every atomic store and every byte copied. The atomics are
  release/acquire in the code; the steps here are interleaved in one order, which is what
  release/acquire gives for one location written by one thread each. Every reachable state delivers
  a prefix of what was committed. With a second consumer thread, which the toolkit has, this fails.
\<close>

section \<open>The two threads\<close>

datatype prod_pc =
    PIdle
  | PLoaded "u8 list" csize              \<comment> \<open>\<open>src\<close>, the loaded \<open>write_pos\<close>\<close>
  | PCopy "u8 list" csize csize nat      \<comment> \<open>\<open>src\<close>, \<open>write_pos\<close>, \<open>to_write\<close>, bytes copied\<close>

datatype cons_pc =
    CIdle
  | CLoaded csize csize                  \<comment> \<open>\<open>len\<close>, the loaded \<open>write_pos\<close>\<close>
  | CCopy csize csize "u8 list"          \<comment> \<open>the loaded \<open>read_pos\<close>, \<open>to_read\<close>, \<open>dst\<close> so far\<close>

text \<open>
  One atomic step of \<open>edt_ring_buffer_write (rb, src, length src)\<close>; the last component holds
  the bytes committed by the step.
\<close>

fun prod_step :: "u8 list \<Rightarrow> ring_buffer \<Rightarrow> prod_pc \<Rightarrow> ring_buffer \<times> prod_pc \<times> u8 list" where
  "prod_step src rb PIdle =
     (if rb_data rb = NULL \<or> src = [] then (rb, PIdle, [])
      else (rb, PLoaded src (rb_write_pos rb), []))"
| "prod_step _ rb (PLoaded src write_pos) =
     (let read_pos = rb_read_pos rb;
          free_space = rb_capacity rb - (write_pos - read_pos);
          len = of_nat (length src);
          to_write = (if len < free_space then len else free_space)
      in if to_write = 0 then (rb, PIdle, []) else (rb, PCopy src write_pos to_write 0, []))"
| "prod_step _ rb (PCopy src write_pos to_write i) =
     (if i < unat to_write
      then (rb\<lparr>rb_data := map_option
                 (\<lambda>d. d[unat ((write_pos + of_nat i) AND rb_mask rb) := src ! i]) (rb_data rb)\<rparr>,
            PCopy src write_pos to_write (Suc i), [])
      else (rb\<lparr>rb_write_pos := write_pos + to_write\<rparr>, PIdle, take (unat to_write) src))"

text \<open>One atomic step of \<open>edt_ring_buffer_read (rb, dst, len)\<close>; the last component holds the
  bytes the call returns with.\<close>

fun cons_step :: "csize \<Rightarrow> ring_buffer \<Rightarrow> cons_pc \<Rightarrow> ring_buffer \<times> cons_pc \<times> u8 list" where
  "cons_step len rb CIdle =
     (if rb_data rb = NULL \<or> len = 0 then (rb, CIdle, [])
      else (rb, CLoaded len (rb_write_pos rb), []))"
| "cons_step _ rb (CLoaded len write_pos) =
     (let read_pos = rb_read_pos rb;
          available = write_pos - read_pos;
          to_read = (if len < available then len else available)
      in if to_read = 0 then (rb, CIdle, []) else (rb, CCopy read_pos to_read [], []))"
| "cons_step _ rb (CCopy read_pos to_read dst) =
     (if length dst < unat to_read
      then (rb, CCopy read_pos to_read
                  (dst @ [the (rb_data rb) ! unat ((read_pos + of_nat (length dst)) AND rb_mask rb)]), [])
      else (rb\<lparr>rb_read_pos := read_pos + to_read\<rparr>, CIdle, dst))"

section \<open>One producer and one consumer\<close>

record spsc =
  sp_ring :: ring_buffer
  sp_prod :: prod_pc
  sp_cons :: cons_pc
  sp_in :: "u8 list"      \<comment> \<open>history: the bytes committed by the producer\<close>
  sp_out :: "u8 list"     \<comment> \<open>history: the bytes returned to the consumer\<close>

inductive spsc_step :: "spsc \<Rightarrow> spsc \<Rightarrow> bool" where
  producer: "prod_step src (sp_ring s) (sp_prod s) = (rb, pc, bs) \<Longrightarrow> length src < 2 ^ 64 \<Longrightarrow>
     spsc_step s (s\<lparr>sp_ring := rb, sp_prod := pc, sp_in := sp_in s @ bs\<rparr>)"
| consumer: "cons_step len (sp_ring s) (sp_cons s) = (rb, pc, bs) \<Longrightarrow>
     spsc_step s (s\<lparr>sp_ring := rb, sp_cons := pc, sp_out := sp_out s @ bs\<rparr>)"

definition spsc_start :: "spsc \<Rightarrow> bool" where
  "spsc_start s \<longleftrightarrow> rb_wf (sp_ring s) \<and> rb_contents (sp_ring s) = [] \<and>
     sp_prod s = PIdle \<and> sp_cons s = CIdle \<and> sp_in s = [] \<and> sp_out s = []"

inductive spsc_reach :: "spsc \<Rightarrow> bool" where
  start: "spsc_start s \<Longrightarrow> spsc_reach s"
| step: "spsc_reach s \<Longrightarrow> spsc_step s t \<Longrightarrow> spsc_reach t"

inductive_cases spsc_stepE: "spsc_step s t"

text \<open>What each thread relies on between its steps.\<close>

definition prod_inv :: "ring_buffer \<Rightarrow> prod_pc \<Rightarrow> bool" where
  "prod_inv rb pc = (case pc of
       PIdle \<Rightarrow> True
     | PLoaded src w \<Rightarrow> w = rb_write_pos rb \<and> length src < 2 ^ 64
     | PCopy src w n i \<Rightarrow> w = rb_write_pos rb \<and> i \<le> unat n \<and> unat n \<le> length src \<and>
         rb_used rb + unat n \<le> unat (rb_capacity rb) \<and>
         ring_read (the (rb_data rb)) (unat w) i = take i src)"

definition cons_inv :: "ring_buffer \<Rightarrow> cons_pc \<Rightarrow> bool" where
  "cons_inv rb pc = (case pc of
       CIdle \<Rightarrow> True
     | CLoaded len w \<Rightarrow> unat (w - rb_read_pos rb) \<le> rb_used rb
     | CCopy r n dst \<Rightarrow> r = rb_read_pos rb \<and> length dst \<le> unat n \<and> unat n \<le> rb_used rb \<and>
         dst = take (length dst) (rb_contents rb))"

definition spsc_inv :: "spsc \<Rightarrow> bool" where
  "spsc_inv s \<longleftrightarrow> rb_wf (sp_ring s) \<and> prod_inv (sp_ring s) (sp_prod s) \<and>
     cons_inv (sp_ring s) (sp_cons s) \<and> sp_in s = sp_out s @ rb_contents (sp_ring s)"

section \<open>Every step keeps the invariant\<close>

lemma rb_write_pos_mod:
  assumes "rb_wf rb" "rb_data rb = Some d"
  shows "unat (rb_write_pos rb) mod length d = (unat (rb_read_pos rb) + rb_used rb) mod length d"
proof -
  obtain k where k: "length d = 2 ^ k" "k < 64" using assms by (auto elim!: rb_wfE)
  have "rb_write_pos rb = rb_read_pos rb + of_nat (rb_used rb)"
    by (simp add: rb_used_def)
  then show ?thesis
    using unat_plus_of_nat_mod [of k "rb_read_pos rb" "rb_used rb"] k by simp
qed

lemma ring_slot:
  assumes "rb_wf rb" "rb_data rb = Some d"
  shows "unat ((w + of_nat i) AND rb_mask rb) = (unat w + i) mod length d"
proof -
  obtain k where k: "length d = 2 ^ k" "k < 64" "rb_mask rb = 2 ^ k - 1"
    using assms by (auto elim!: rb_wfE)
  then show ?thesis
    using unat_plus_of_nat_mod [of k w i] unat_and_mask_exp [of k "w + of_nat i"] by simp
qed

lemma ring_read_write_pos:
  assumes "rb_wf rb" "rb_data rb = Some d"
  shows "ring_read d (unat (rb_write_pos rb)) n = ring_read d (unat (rb_read_pos rb) + rb_used rb) n"
  using rb_write_pos_mod [OF assms] by (metis ring_read_mod)

lemma prod_copy_step:
  assumes wf: "rb_wf rb" and inv: "prod_inv rb (PCopy src w n i)" and i: "i < unat n"
  defines "rb' \<equiv> rb\<lparr>rb_data := map_option
      (\<lambda>d. d[unat ((w + of_nat i) AND rb_mask rb) := src ! i]) (rb_data rb)\<rparr>"
  shows "rb_wf rb' \<and> prod_inv rb' (PCopy src w n (Suc i)) \<and> rb_contents rb' = rb_contents rb \<and>
    rb_used rb' = rb_used rb \<and> rb_read_pos rb' = rb_read_pos rb"
proof -
  obtain d where d: "rb_data rb = Some d" "length d = unat (rb_capacity rb)"
    "rb_contents rb = ring_read d (unat (rb_read_pos rb)) (rb_used rb)"
    using wf by (auto elim!: rb_wfE)
  from inv have p: "w = rb_write_pos rb" "unat n \<le> length src" "rb_used rb + unat n \<le> length d"
    "ring_read d (unat w) i = take i src"
    using d by (auto simp: prod_inv_def)
  define d' where "d' = d[(unat w + i) mod length d := src ! i]"
  have rb': "rb_data rb' = Some d'" "rb_used rb' = rb_used rb" "rb_read_pos rb' = rb_read_pos rb"
    "rb_write_pos rb' = rb_write_pos rb" "rb_capacity rb' = rb_capacity rb"
    using d ring_slot [OF wf d(1), of w i] by (simp_all add: rb'_def d'_def rb_used_def)
  have "rb_wf rb'"
    using wf d(1) by (simp add: rb_wf_def rb'_def)
  moreover have "ring_read d' (unat w) (Suc i) = take (Suc i) src"
    using ring_read_update_same [of i d "unat w" "src ! i"] p i
    by (simp add: d'_def take_Suc_conv_app_nth)
  moreover have "ring_read d' (unat (rb_read_pos rb)) (rb_used rb) = rb_contents rb"
  proof -
    have "(unat w + i) mod length d = (unat (rb_read_pos rb) + (rb_used rb + i)) mod length d"
      using rb_write_pos_mod [OF wf d(1)] p(1) by (metis add.assoc mod_add_left_eq)
    then show ?thesis
      using ring_read_update_other [of "rb_used rb" "rb_used rb + i" d "unat (rb_read_pos rb)" "src ! i"]
        p(3) i d(3) by (simp add: d'_def)
  qed
  ultimately show ?thesis
    using rb' p i d(2) by (simp add: prod_inv_def rb_contents_def)
qed

lemma prod_commit_step:
  assumes wf: "rb_wf rb" and inv: "prod_inv rb (PCopy src w n i)" and i: "\<not> i < unat n"
  defines "rb' \<equiv> rb\<lparr>rb_write_pos := w + n\<rparr>"
  shows "rb_wf rb' \<and> rb_contents rb' = rb_contents rb @ take (unat n) src \<and>
    rb_used rb' = rb_used rb + unat n \<and> rb_read_pos rb' = rb_read_pos rb"
proof -
  obtain d k where d: "rb_data rb = Some d" "length d = unat (rb_capacity rb)" "length d = 2 ^ k" "k < 64"
    "rb_contents rb = ring_read d (unat (rb_read_pos rb)) (rb_used rb)"
    using wf by (auto elim!: rb_wfE)
  from inv i have p: "w = rb_write_pos rb" "rb_used rb + unat n \<le> length d"
    "ring_read d (unat (rb_write_pos rb)) (unat n) = take (unat n) src"
    using d by (auto simp: prod_inv_def)
  have "(2::nat) ^ k < 2 ^ 64" using power_strict_increasing [OF d(4), of "2::nat"] by simp
  then have lt: "unat (rb_write_pos rb - rb_read_pos rb) + unat n < 2 ^ 64"
    using p(2) d(3) by (simp add: rb_used_def)
  have "rb_write_pos rb' - rb_read_pos rb' = (rb_write_pos rb - rb_read_pos rb) + n"
    by (simp add: rb'_def p)
  then have used: "rb_used rb' = rb_used rb + unat n"
    using lt by (simp add: rb_used_def unat_word_ariths)
  have "rb_wf rb'"
    using wf used p(2) d(2) by (auto simp: rb_wf_def rb'_def rb_used_def word_le_nat_alt split: option.splits)
  moreover have "rb_contents rb' = rb_contents rb @ take (unat n) src"
    using p(3) used d(1,5) ring_read_write_pos [OF wf d(1), of "unat n"]
    by (simp add: rb_contents_def rb'_def ring_read_add)
  ultimately show ?thesis using used by (simp add: rb'_def)
qed

lemma cons_inv_mono:
  "cons_inv rb pc \<Longrightarrow> rb_read_pos rb' = rb_read_pos rb \<Longrightarrow> rb_used rb \<le> rb_used rb' \<Longrightarrow>
   rb_wf rb \<Longrightarrow> rb_contents rb' = rb_contents rb @ bs \<Longrightarrow> cons_inv rb' pc"
  by (auto simp: cons_inv_def split: cons_pc.splits)

lemma prod_step_inv:
  assumes "rb_wf rb" "prod_inv rb pc" "cons_inv rb cpc" "length src < 2 ^ 64"
    and step: "prod_step src rb pc = (rb', pc', bs)"
  shows "rb_wf rb' \<and> prod_inv rb' pc' \<and> cons_inv rb' cpc \<and> rb_contents rb' = rb_contents rb @ bs"
proof (cases pc)
  case PIdle
  then show ?thesis using assms by (auto simp: prod_inv_def split: if_splits)
next
  case (PLoaded xs w)
  have w: "w = rb_write_pos rb" "length xs < 2 ^ 64" using assms(2) PLoaded by (simp_all add: prod_inv_def)
  define fs where "fs = rb_capacity rb - (rb_write_pos rb - rb_read_pos rb)"
  define n where "n = (if of_nat (length xs) < fs then of_nat (length xs) else fs)"
  have n: "unat n \<le> length xs" "rb_used rb + unat n \<le> unat (rb_capacity rb)"
    using free_space_wf [OF assms(1)] w(2) rb_used_le_capacity [OF assms(1)]
    by (simp_all only: n_def unat_min_word fs_def unat_of_nat_64)
  have "(rb', pc', bs) = (if n = 0 then (rb, PIdle, []) else (rb, PCopy xs w n 0, []))"
    using step unfolding PLoaded prod_step.simps Let_def w(1) fs_def [symmetric] n_def [symmetric] by simp
  then show ?thesis
    using assms(1,3) n w by (auto simp: prod_inv_def split: if_splits)
next
  case (PCopy xs w n i)
  show ?thesis
  proof (cases "i < unat n")
    case True
    then show ?thesis
      using prod_copy_step [OF assms(1) _ True] assms(1-3) step PCopy
        cons_inv_mono [OF assms(3), of rb' "[]"] by auto
  next
    case False
    then show ?thesis
      using prod_commit_step [OF assms(1) _ False] assms(1-3) step PCopy
        cons_inv_mono [OF assms(3), of rb' bs] by (auto simp: prod_inv_def)
  qed
qed

lemma cons_commit_step:
  assumes wf: "rb_wf rb" and inv: "cons_inv rb (CCopy r n dst)" and i: "\<not> length dst < unat n"
  defines "rb' \<equiv> rb\<lparr>rb_read_pos := r + n\<rparr>"
  shows "rb_wf rb' \<and> rb_contents rb = dst @ rb_contents rb' \<and> rb_used rb' \<le> rb_used rb"
proof -
  obtain d k where d: "rb_data rb = Some d" "length d = 2 ^ k" "k < 64"
    "rb_contents rb = ring_read d (unat (rb_read_pos rb)) (rb_used rb)"
    using wf by (auto elim!: rb_wfE)
  have p: "r = rb_read_pos rb" "unat n \<le> rb_used rb" "dst = take (unat n) (rb_contents rb)"
    using inv i by (auto simp: cons_inv_def)
  have "rb_write_pos rb' - rb_read_pos rb' = (rb_write_pos rb - rb_read_pos rb) - n"
    by (simp add: rb'_def p(1))
  moreover have "n \<le> rb_write_pos rb - rb_read_pos rb"
    using p(2) by (simp add: rb_used_def word_le_nat_alt)
  ultimately have used: "rb_used rb' = rb_used rb - unat n"
    by (simp add: rb_used_def unat_sub)
  have "unat (rb_read_pos rb') mod length d = (unat (rb_read_pos rb) + unat n) mod length d"
    using unat_plus_of_nat_mod [of k "rb_read_pos rb" "unat n"] d(2,3) by (simp add: rb'_def p(1))
  then have "rb_contents rb' = drop (unat n) (rb_contents rb)"
    using d used by (simp add: rb_contents_def rb'_def drop_ring_read)
      (metis ring_read_mod rb'_def ring_buffer.select_convs(5) ring_buffer.update_convs(5))
  moreover have "rb_wf rb'"
    using wf used rb_used_le_capacity [OF wf]
    by (auto simp: rb_wf_def rb'_def rb_used_def word_le_nat_alt split: option.splits)
  ultimately show ?thesis using p(3) used by (metis append_take_drop_id diff_le_self)
qed

lemma cons_step_inv:
  assumes "rb_wf rb" "prod_inv rb pc" "cons_inv rb cpc"
    and step: "cons_step len rb cpc = (rb', cpc', bs)"
  shows "rb_wf rb' \<and> prod_inv rb' pc \<and> cons_inv rb' cpc' \<and> rb_contents rb = bs @ rb_contents rb'"
proof (cases cpc)
  case CIdle
  then show ?thesis using assms by (auto simp: cons_inv_def rb_used_def split: if_splits)
next
  case (CLoaded l w)
  define av where "av = w - rb_read_pos rb"
  define n where "n = (if l < av then l else av)"
  have n: "unat n \<le> rb_used rb"
    using assms(3) CLoaded by (simp only: n_def unat_min_word av_def) (simp add: cons_inv_def)
  have "(rb', cpc', bs) = (if n = 0 then (rb, CIdle, []) else (rb, CCopy (rb_read_pos rb) n [], []))"
    using step unfolding CLoaded cons_step.simps Let_def av_def [symmetric] n_def [symmetric] by simp
  then show ?thesis
    using assms(1,2) n by (auto simp: cons_inv_def split: if_splits)
next
  case (CCopy r n dst)
  obtain d where d: "rb_data rb = Some d"
    "rb_contents rb = ring_read d (unat (rb_read_pos rb)) (rb_used rb)"
    using assms(1) by (auto elim!: rb_wfE)
  show ?thesis
  proof (cases "length dst < unat n")
    case True
    have p: "r = rb_read_pos rb" "unat n \<le> rb_used rb" "dst = take (length dst) (rb_contents rb)"
      using assms(3) CCopy by (simp_all add: cons_inv_def)
    have lt: "length dst < length (rb_contents rb)" using p(2) True assms(1) by simp
    have "d ! unat ((r + of_nat (length dst)) AND rb_mask rb) = rb_contents rb ! length dst"
      using ring_slot [OF assms(1) d(1)] d(2) lt p(1) by (simp add: nth_ring_read)
    then have "take (Suc (length dst)) (rb_contents rb) =
        dst @ [d ! unat ((r + of_nat (length dst)) AND rb_mask rb)]"
      using p(3) lt by (simp add: take_Suc_conv_app_nth)
    then show ?thesis
      using True step CCopy assms p d(1) by (auto simp: cons_inv_def)
  next
    case False
    have "prod_inv (rb\<lparr>rb_read_pos := r + n\<rparr>) pc"
      using assms(2) cons_commit_step [OF assms(1) _ False, of r] assms(3) CCopy
      by (auto simp: prod_inv_def split: prod_pc.splits)
    then show ?thesis
      using cons_commit_step [OF assms(1) _ False, of r] assms(3) step CCopy False
      by (auto simp: cons_inv_def)
  qed
qed

lemma spsc_step_inv: "spsc_step s t \<Longrightarrow> spsc_inv s \<Longrightarrow> spsc_inv t"
proof (induction rule: spsc_step.induct)
  case (producer src s rb pc bs)
  then show ?case
    using prod_step_inv [of "sp_ring s" "sp_prod s" "sp_cons s" src rb pc bs] by (auto simp: spsc_inv_def)
next
  case (consumer len s rb pc bs)
  then show ?case
    using cons_step_inv [of "sp_ring s" "sp_prod s" "sp_cons s" len rb pc bs] by (auto simp: spsc_inv_def)
qed

lemma spsc_reach_inv: "spsc_reach s \<Longrightarrow> spsc_inv s"
proof (induction rule: spsc_reach.induct)
  case (start s)
  then show ?case by (simp add: spsc_start_def spsc_inv_def prod_inv_def cons_inv_def)
qed (blast intro: spsc_step_inv)

text \<open>C7. One producer and one consumer, interleaved at every load, store and copied byte: what the
  consumer has received is always a prefix of what the producer has committed, and the rest is
  exactly what the ring holds.\<close>

theorem spsc_delivers_in_order:
  assumes "spsc_reach s"
  shows "sp_in s = sp_out s @ rb_contents (sp_ring s)"
  using spsc_reach_inv [OF assms] by (simp add: spsc_inv_def)

section \<open>Executable schedules\<close>

datatype turn = TProd "u8 list" | TCons csize

fun spsc_exec :: "spsc \<Rightarrow> turn list \<Rightarrow> spsc" where
  "spsc_exec s [] = s"
| "spsc_exec s (TProd src # ts) =
     (let (rb, pc, bs) = prod_step src (sp_ring s) (sp_prod s)
      in spsc_exec (s\<lparr>sp_ring := rb, sp_prod := pc, sp_in := sp_in s @ bs\<rparr>) ts)"
| "spsc_exec s (TCons len # ts) =
     (let (rb, pc, bs) = cons_step len (sp_ring s) (sp_cons s)
      in spsc_exec (s\<lparr>sp_ring := rb, sp_cons := pc, sp_out := sp_out s @ bs\<rparr>) ts)"

fun turn_ok :: "turn \<Rightarrow> bool" where
  "turn_ok (TProd src) = (length src < 2 ^ 64)"
| "turn_ok (TCons len) = True"

lemma spsc_exec_reach: "spsc_reach s \<Longrightarrow> list_all turn_ok ts \<Longrightarrow> spsc_reach (spsc_exec s ts)"
proof (induction s ts rule: spsc_exec.induct)
  case (1 s)
  then show ?case by simp
next
  case (2 s src ts)
  obtain rb pc bs where p: "prod_step src (sp_ring s) (sp_prod s) = (rb, pc, bs)"
    by (metis prod_cases3)
  have "spsc_reach (s\<lparr>sp_ring := rb, sp_prod := pc, sp_in := sp_in s @ bs\<rparr>)"
    using spsc_reach.step [OF "2.prems"(1) producer [OF p]] "2.prems"(2) by simp
  then show ?case using "2.IH" [OF p [symmetric] refl refl] "2.prems"(2) p by simp
next
  case (3 s len ts)
  obtain rb pc bs where p: "cons_step len (sp_ring s) (sp_cons s) = (rb, pc, bs)"
    by (metis prod_cases3)
  have "spsc_reach (s\<lparr>sp_ring := rb, sp_cons := pc, sp_out := sp_out s @ bs\<rparr>)"
    using spsc_reach.step [OF "3.prems"(1) consumer [OF p]] .
  then show ?case using "3.IH" [OF p [symmetric] refl refl] "3.prems"(2) p by simp
qed

definition spsc_demo :: spsc where
  "spsc_demo = \<lparr>sp_ring = rb_demo, sp_prod = PIdle, sp_cons = CIdle, sp_in = [], sp_out = []\<rparr>"

lemma spsc_demo_reach: "spsc_reach spsc_demo"
  by (rule spsc_reach.start) (simp add: spsc_start_def spsc_demo_def rb_demo_wf)

text \<open>The consumer asks while a write is half done and gets a byte once it is committed.\<close>

definition spsc_demo_turns :: "turn list" where
  "spsc_demo_turns = [TProd [1, 2], TProd [], TProd [], TCons 1, TProd [], TCons 1, TProd [],
     TCons 1, TCons 1, TCons 1, TCons 1, TCons 1]"

lemma spsc_demo_run:
  "(\<lambda>s. (sp_in s, sp_out s)) (spsc_exec spsc_demo spsc_demo_turns) = ([1, 2], [1])"
  by code_simp

theorem spsc_delivers_in_order_witness:
  "sp_out (spsc_exec spsc_demo spsc_demo_turns) = [1] \<and>
   rb_contents (sp_ring (spsc_exec spsc_demo spsc_demo_turns)) = [2]"
proof -
  have "spsc_reach (spsc_exec spsc_demo spsc_demo_turns)"
    by (rule spsc_exec_reach [OF spsc_demo_reach]) (simp add: spsc_demo_turns_def)
  moreover have i: "sp_in (spsc_exec spsc_demo spsc_demo_turns) = [1, 2]"
    "sp_out (spsc_exec spsc_demo spsc_demo_turns) = [1]"
    using spsc_demo_run by simp_all
  ultimately have "[1, 2] = [1] @ rb_contents (sp_ring (spsc_exec spsc_demo spsc_demo_turns))"
    using spsc_delivers_in_order [of "spsc_exec spsc_demo spsc_demo_turns"] by (simp only: i)
  then show ?thesis by (simp add: i)
qed

section \<open>Two consumers\<close>

text \<open>
  In the toolkit \<open>main\<close> and every connected SUMP client call
  \<open>edt_logic_analyzer_capture_blocking\<close> on the one analyzer, so several threads run
  \<open>edt_ring_buffer_read\<close> on the one ring. A schedule says which consumer moves.
\<close>

fun duo_exec :: "csize \<Rightarrow> ring_buffer \<Rightarrow> cons_pc \<Rightarrow> cons_pc \<Rightarrow> bool list \<Rightarrow>
  u8 list \<times> u8 list \<times> ring_buffer" where
  "duo_exec len rb c1 c2 [] = ([], [], rb)"
| "duo_exec len rb c1 c2 (True # ts) =
     (let (rb', c1', bs) = cons_step len rb c1; (o1, o2, r) = duo_exec len rb' c1' c2 ts
      in (bs @ o1, o2, r))"
| "duo_exec len rb c1 c2 (False # ts) =
     (let (rb', c2', bs) = cons_step len rb c2; (o1, o2, r) = duo_exec len rb' c1 c2' ts
      in (o1, bs @ o2, r))"

definition rb_demo4 :: ring_buffer where
  "rb_demo4 = \<lparr>rb_data = Some [1, 2, 3, 4, 0, 0, 0, 0], rb_capacity = 8, rb_mask = 7,
              rb_write_pos = 4, rb_read_pos = 0\<rparr>"

lemma rb_demo4_wf: "rb_wf rb_demo4"
  unfolding rb_wf_def rb_demo4_def by (simp add: bexI [of _ 3])

text \<open>The second consumer loads both positions and copies two bytes; the first reads twice; then the
  second commits its stale position.\<close>

definition duo_turns :: "bool list" where
  "duo_turns = replicate 4 False @ replicate 10 True @ [False]"

lemma duo_run:
  "(let (o1, o2, r) = duo_exec 2 rb_demo4 CIdle CIdle duo_turns in (o1, o2, rb_contents r)) =
   ([1, 2, 3, 4], [1, 2], [3, 4])"
  by code_simp


end
