(* ===== verification/LogicAnalyzer.thy ===== *)
theory LogicAnalyzer
  imports RingBuffer
begin

text \<open>
  The 8-channel logic analyzer of \<open>src/logic/logic_analyzer.c\<close>: the synthetic wave, the trigger, the
  body of the sampling thread, the configuration calls and the two ways to take samples out. The
  reader callback is a parameter, the sequence of values its calls return, indexed by the counter
  the thread keeps; the monotonic clock is a parameter too. The ring carries raw bytes, 16 per
  sample (8 of the time stamp, 1 of the channels, 7 of padding, taken as 0).
\<close>

section \<open>Samples and their bytes\<close>

record logic_sample =
  timestamp_ns :: u64
  channels :: u8

definition sample_size :: nat where
  "sample_size = 16"

definition sample_bytes :: "logic_sample \<Rightarrow> u8 list" where
  "sample_bytes x = le_bytes 8 (timestamp_ns x) @ [channels x] @ replicate 7 0"

definition bytes_sample :: "u8 list \<Rightarrow> logic_sample" where
  "bytes_sample bs = \<lparr>timestamp_ns = of_le_bytes (take 8 bs), channels = bs ! 8\<rparr>"

definition samples_bytes :: "logic_sample list \<Rightarrow> u8 list" where
  "samples_bytes xs = concat (map sample_bytes xs)"

fun bytes_samples :: "u8 list \<Rightarrow> logic_sample list" where
  "bytes_samples bs =
     (if length bs < 16 then [] else bytes_sample (take 16 bs) # bytes_samples (drop 16 bs))"

declare bytes_samples.simps [simp del]

lemma length_sample_bytes [simp]: "length (sample_bytes x) = 16"
  by (simp add: sample_bytes_def)

lemma bytes_sample_bytes [simp]: "bytes_sample (sample_bytes x) = x"
  by (simp add: bytes_sample_def sample_bytes_def of_le_bytes_le_bytes nth_append)

lemma length_samples_bytes [simp]: "length (samples_bytes xs) = 16 * length xs"
  by (induction xs) (simp_all add: samples_bytes_def)

lemma samples_bytes_simps [simp]:
  "samples_bytes [] = []"
  "samples_bytes (x # xs) = sample_bytes x @ samples_bytes xs"
  "samples_bytes (xs @ ys) = samples_bytes xs @ samples_bytes ys"
  by (simp_all add: samples_bytes_def)

lemma bytes_samples_Nil [simp]: "bytes_samples [] = []"
  by (simp add: bytes_samples.simps)

lemma bytes_samples_Cons [simp]:
  "bytes_samples (sample_bytes x @ bs) = x # bytes_samples bs"
  by (subst bytes_samples.simps) simp

lemma bytes_samples_bytes [simp]: "bytes_samples (samples_bytes xs) = xs"
  by (induction xs) simp_all

lemma take_samples_bytes: "take (16 * n) (samples_bytes xs) = samples_bytes (take n xs)"
proof (induction xs arbitrary: n)
  case (Cons x xs)
  then show ?case by (cases n) simp_all
qed simp

lemma drop_samples_bytes: "drop (16 * n) (samples_bytes xs) = samples_bytes (drop n xs)"
proof (induction xs arbitrary: n)
  case (Cons x xs)
  then show ?case by (cases n) simp_all
qed simp

lemma bytes_samples_append:
  "16 dvd length as \<Longrightarrow> bytes_samples (as @ bs) = bytes_samples as @ bytes_samples bs"
proof (induction as rule: bytes_samples.induct)
  case (1 as)
  show ?case
  proof (cases "length as < 16")
    case True
    then have "as = []" using "1.prems" by (auto dest: dvd_imp_le)
    then show ?thesis by simp
  next
    case False
    then have "bytes_samples (drop 16 as @ bs) = bytes_samples (drop 16 as) @ bytes_samples bs"
      using "1.IH" "1.prems" by (simp add: dvd_diff_nat)
    then show ?thesis
      using False by (subst (1 2) bytes_samples.simps) simp
  qed
qed

lemma length_bytes_samples: "length (bytes_samples bs) = length bs div 16"
proof (induction bs rule: bytes_samples.induct)
  case (1 bs)
  show ?case
  proof (cases "length bs < 16")
    case False
    then have "length bs div 16 = Suc ((length bs - 16) div 16)"
      by (simp add: le_div_geq)
    then show ?thesis using 1 False by (subst bytes_samples.simps) simp
  qed (simp add: bytes_samples.simps)
qed

section \<open>State\<close>

datatype trigger_mode = TRIGGER_NONE | EDGE_RISING | EDGE_FALLING | LEVEL_HIGH | LEVEL_LOW

record trigger_config =
  mode :: trigger_mode
  channel :: u8

record logic_config =
  sample_rate_hz :: u32
  max_sample_rate_hz :: u32
  ring_capacity_samples :: csize
  simulate_signal :: int

record logic_analyzer =
  la_config :: logic_config
  la_ring :: ring_buffer
  la_trigger :: trigger_config
  la_reader :: "(u64 \<Rightarrow> u8) ptr"
  la_running :: int
  la_armed :: int
  la_total_samples :: u64
  la_dropped_samples :: u64
  la_last_raw_value :: u8
  la_period_ns :: u64
  la_synthetic_counter :: u64

definition EDT_MAX_CHANNELS :: u8 where
  "EDT_MAX_CHANNELS = 8"

definition EDT_MAX_SAMPLE_RATE_HZ :: u32 where
  "EDT_MAX_SAMPLE_RATE_HZ = 100000000"

section \<open>Signal and trigger\<close>

definition half_period :: "u32 \<Rightarrow> u64 \<Rightarrow> u64" where
  "half_period rate d = (let h = ucast rate div d in if h = 0 then 1 else h)"

definition wave_bit :: "u64 \<Rightarrow> u64 \<Rightarrow> nat \<Rightarrow> u8" where
  "wave_bit tick h n = (if (tick div h) AND 1 \<noteq> 0 then push_bit n 1 else 0)"

definition edt_synthetic_wave :: "u64 \<Rightarrow> u32 \<Rightarrow> u8" where
  "edt_synthetic_wave tick rate =
     (if rate = 0 then 0
      else wave_bit tick (half_period rate 2000) 0 OR
           wave_bit tick (half_period rate 10000) 1 OR
           wave_bit tick (half_period rate 20000) 2 OR
           wave_bit tick (half_period rate 500000) 3 OR
           wave_bit tick 16 4 OR
           wave_bit tick 32 5 OR
           (if (tick div 128) AND 1 = 0 then push_bit 6 1 else 0) OR
           wave_bit tick 1024 7)"

definition edt_trigger_matched :: "trigger_config \<Rightarrow> u8 \<Rightarrow> u8 \<Rightarrow> bool" where
  "edt_trigger_matched trg previous current =
     (let bit_mask = (push_bit (unat (channel trg)) 1 :: u8);
          prev_bit = (if previous AND bit_mask \<noteq> 0 then 1 else 0 :: u8);
          curr_bit = (if current AND bit_mask \<noteq> 0 then 1 else 0 :: u8)
      in (case mode trg of
            TRIGGER_NONE \<Rightarrow> True
          | EDGE_RISING \<Rightarrow> prev_bit = 0 \<and> curr_bit = 1
          | EDGE_FALLING \<Rightarrow> prev_bit = 1 \<and> curr_bit = 0
          | LEVEL_HIGH \<Rightarrow> curr_bit = 1
          | LEVEL_LOW \<Rightarrow> curr_bit = 0))"

section \<open>The sampling thread\<close>

definition read_raw :: "logic_analyzer \<Rightarrow> u8" where
  "read_raw la =
     (case la_reader la of
        Some f \<Rightarrow> f (la_synthetic_counter la)
      | None \<Rightarrow> if simulate_signal (la_config la) \<noteq> 0
                then edt_synthetic_wave (la_synthetic_counter la) (sample_rate_hz (la_config la))
                else 0)"

text \<open>One turn of the inner loop, over the batch built so far.\<close>

definition sample_one :: "u64 \<Rightarrow> logic_analyzer \<Rightarrow> logic_sample list \<Rightarrow> logic_analyzer \<times> logic_sample list" where
  "sample_one batch_start la batch =
     (let current_raw = read_raw la;
          x = \<lparr>timestamp_ns = batch_start + of_nat (length batch) * la_period_ns la,
               channels = current_raw\<rparr>;
          armed = (if la_armed la \<noteq> 0 \<and>
                      edt_trigger_matched (la_trigger la) (la_last_raw_value la) current_raw
                   then 0 else la_armed la)
      in (la\<lparr>la_synthetic_counter := la_synthetic_counter la + 1, la_armed := armed,
             la_last_raw_value := current_raw, la_total_samples := la_total_samples la + 1\<rparr>,
          if armed = 0 then batch @ [x] else batch))"

text \<open>The inner loop \<open>while (batch_count < batch_target)\<close>: \<open>None\<close> when it never ends.\<close>

partial_function (option) fill_batch ::
  "nat \<Rightarrow> u64 \<Rightarrow> logic_analyzer \<Rightarrow> logic_sample list \<Rightarrow> (logic_analyzer \<times> logic_sample list) option" where
  "fill_batch target batch_start la batch =
     (if length batch < target
      then fill_batch target batch_start (fst (sample_one batch_start la batch))
             (snd (sample_one batch_start la batch))
      else Some (la, batch))"

definition batch_target :: "logic_analyzer \<Rightarrow> nat" where
  "batch_target la = (if sample_rate_hz (la_config la) \<ge> 1000000 then 256 else 32)"

definition push_batch :: "logic_analyzer \<Rightarrow> logic_sample list \<Rightarrow> logic_analyzer" where
  "push_batch la batch =
     (if length batch > 0
      then let bytes_to_write = of_nat (length batch * sample_size);
               (bytes_written, ring) =
                 edt_ring_buffer_write (Some (la_ring la)) (Some (samples_bytes batch)) bytes_to_write;
               la' = la\<lparr>la_ring := the ring\<rparr>
           in if bytes_written < bytes_to_write
              then la'\<lparr>la_dropped_samples := la_dropped_samples la' +
                        (bytes_to_write - bytes_written) div of_nat sample_size\<rparr>
              else la'
      else la)"

text \<open>
  One turn of the outer loop at clock reading \<open>now\<close>: the new state and how long the thread
  sleeps; the outer loop tests \<open>running\<close> before each turn.
\<close>

definition edt_logic_sample_turn :: "u64 \<Rightarrow> logic_analyzer \<Rightarrow> (logic_analyzer \<times> u64 option) option" where
  "edt_logic_sample_turn now la =
     (let batch_period_ns = la_period_ns la * of_nat (batch_target la)
      in case fill_batch (batch_target la) now la [] of
           None \<Rightarrow> None
         | Some (la', batch) \<Rightarrow>
             Some (push_batch la' batch,
               if batch_period_ns \<ge> 1000000 then Some batch_period_ns
               else if sample_rate_hz (la_config la') \<le> 100000 then Some 1000000 else None))"

text \<open>The thread over the clock readings of its turns, \<open>stop_at\<close> the number of turns after which
  another thread has cleared \<open>running\<close>.\<close>

fun edt_logic_sample_thread :: "u64 list \<Rightarrow> logic_analyzer \<Rightarrow> logic_analyzer option" where
  "edt_logic_sample_thread [] la = Some (la\<lparr>la_running := 0\<rparr>)"
| "edt_logic_sample_thread (now # rest) la =
     (if la_running la \<noteq> 0
      then (case edt_logic_sample_turn now la of
              None \<Rightarrow> None
            | Some (la', _) \<Rightarrow> edt_logic_sample_thread rest la')
      else Some la)"

section \<open>Configuration and control\<close>

definition period_of :: "u32 \<Rightarrow> u64" where
  "period_of rate = (let p = 1000000000 div ucast rate in if p = 0 then 1 else p)"

definition la_defaults :: logic_config where
  "la_defaults = \<lparr>sample_rate_hz = 1000000, max_sample_rate_hz = EDT_MAX_SAMPLE_RATE_HZ,
                  ring_capacity_samples = push_bit 16 1, simulate_signal = 1\<rparr>"

text \<open>The configuration as \<open>edt_logic_analyzer_init\<close> keeps it.\<close>

definition normalise_config :: "logic_config ptr \<Rightarrow> logic_config" where
  "normalise_config config =
     (let c0 = (case config of Some c \<Rightarrow> c | None \<Rightarrow> la_defaults);
          c1 = (if max_sample_rate_hz c0 = 0 \<or> max_sample_rate_hz c0 > EDT_MAX_SAMPLE_RATE_HZ
                then c0\<lparr>max_sample_rate_hz := EDT_MAX_SAMPLE_RATE_HZ\<rparr> else c0);
          c2 = (if sample_rate_hz c1 = 0
                then c1\<lparr>sample_rate_hz := sample_rate_hz la_defaults\<rparr> else c1);
          c3 = (if sample_rate_hz c2 > max_sample_rate_hz c2
                then c2\<lparr>sample_rate_hz := max_sample_rate_hz c2\<rparr> else c2)
      in if ring_capacity_samples c3 = 0
         then c3\<lparr>ring_capacity_samples := ring_capacity_samples la_defaults\<rparr> else c3)"

definition ring_zero :: ring_buffer where
  "ring_zero = \<lparr>rb_data = NULL, rb_capacity = 0, rb_mask = 0, rb_write_pos = 0, rb_read_pos = 0\<rparr>"

text \<open>\<open>None\<close> when the call does not return (the ring's size rounding).\<close>

definition edt_logic_analyzer_init ::
  "bool \<Rightarrow> logic_analyzer ptr \<Rightarrow> logic_config ptr \<Rightarrow> (int \<times> logic_analyzer ptr) option" where
  "edt_logic_analyzer_init alloc_ok lap config =
     (case lap of
        None \<Rightarrow> Some (- EINVAL, NULL)
      | Some _ \<Rightarrow>
          let cfg = normalise_config config;
              la = \<lparr>la_config = cfg, la_ring = ring_zero,
                    la_trigger = \<lparr>mode = TRIGGER_NONE, channel = 0\<rparr>, la_reader = NULL,
                    la_running = 0, la_armed = 0, la_total_samples = 0, la_dropped_samples = 0,
                    la_last_raw_value = 0, la_period_ns = period_of (sample_rate_hz cfg),
                    la_synthetic_counter = 0\<rparr>;
              ring_bytes = ring_capacity_samples cfg * of_nat sample_size
          in case edt_ring_buffer_init alloc_ok (Some ring_zero) ring_bytes of
               None \<Rightarrow> None
             | Some (r, ring) \<Rightarrow>
                 Some (if r \<noteq> 0 then - ENOMEM else 0, Some (la\<lparr>la_ring := the ring\<rparr>)))"

text \<open>\<open>created\<close>: the outcome of \<open>pthread_create\<close>, the errno value when it fails.\<close>

definition edt_logic_analyzer_start ::
  "int + unit \<Rightarrow> logic_analyzer ptr \<Rightarrow> int \<times> logic_analyzer ptr" where
  "edt_logic_analyzer_start created lap =
     (case lap of
        None \<Rightarrow> (- EINVAL, NULL)
      | Some la \<Rightarrow>
          if la_running la \<noteq> 0 then (0, Some la)
          else
            let la1 = la\<lparr>la_armed := (if mode (la_trigger la) \<noteq> TRIGGER_NONE then 1 else 0),
                         la_running := 1\<rparr>
            in case created of
                 Inl err \<Rightarrow> (- err, Some (la1\<lparr>la_running := 0\<rparr>))
               | Inr _ \<Rightarrow> (0, Some la1))"

text \<open>Joining the thread is its last turn; here the effect of the call on the object.\<close>

definition edt_logic_analyzer_stop :: "logic_analyzer ptr \<Rightarrow> int \<times> logic_analyzer ptr" where
  "edt_logic_analyzer_stop lap =
     (case lap of
        None \<Rightarrow> (- EINVAL, NULL)
      | Some la \<Rightarrow> if la_running la = 0 then (0, Some la) else (0, Some (la\<lparr>la_running := 0\<rparr>)))"

definition edt_logic_analyzer_destroy :: "logic_analyzer ptr \<Rightarrow> logic_analyzer ptr" where
  "edt_logic_analyzer_destroy lap =
     (case lap of
        None \<Rightarrow> NULL
      | Some _ \<Rightarrow> map_option (\<lambda>la. la\<lparr>la_ring := the (edt_ring_buffer_destroy (Some (la_ring la)))\<rparr>)
                   (snd (edt_logic_analyzer_stop lap)))"

definition edt_logic_analyzer_set_sample_rate ::
  "logic_analyzer ptr \<Rightarrow> u32 \<Rightarrow> int \<times> logic_analyzer ptr" where
  "edt_logic_analyzer_set_sample_rate lap rate =
     (case lap of
        None \<Rightarrow> (- EINVAL, NULL)
      | Some la \<Rightarrow>
          if rate = 0 then (- EINVAL, Some la)
          else let r = (if rate > max_sample_rate_hz (la_config la)
                        then max_sample_rate_hz (la_config la) else rate)
               in (0, Some (la\<lparr>la_config := (la_config la)\<lparr>sample_rate_hz := r\<rparr>,
                               la_period_ns := period_of r\<rparr>)))"

definition edt_logic_analyzer_get_sample_rate :: "logic_analyzer ptr \<Rightarrow> u32" where
  "edt_logic_analyzer_get_sample_rate lap =
     (case lap of None \<Rightarrow> 0 | Some la \<Rightarrow> sample_rate_hz (la_config la))"

definition edt_logic_analyzer_set_trigger ::
  "logic_analyzer ptr \<Rightarrow> trigger_config ptr \<Rightarrow> int \<times> logic_analyzer ptr" where
  "edt_logic_analyzer_set_trigger lap trgp =
     (case (lap, trgp) of
        (Some la, Some trg) \<Rightarrow>
          if channel trg \<ge> EDT_MAX_CHANNELS then (- EINVAL, lap)
          else (0, Some (la\<lparr>la_trigger := trg,
                            la_armed := (if mode trg = TRIGGER_NONE then 0 else 1)\<rparr>))
      | _ \<Rightarrow> (- EINVAL, lap))"

definition edt_logic_analyzer_arm :: "logic_analyzer ptr \<Rightarrow> int \<times> logic_analyzer ptr" where
  "edt_logic_analyzer_arm lap =
     (case lap of
        None \<Rightarrow> (- EINVAL, NULL)
      | Some la \<Rightarrow> if mode (la_trigger la) = TRIGGER_NONE then (0, Some la)
                    else (0, Some (la\<lparr>la_armed := 1\<rparr>)))"

definition edt_logic_analyzer_set_reader ::
  "logic_analyzer ptr \<Rightarrow> (u64 \<Rightarrow> u8) ptr \<Rightarrow> logic_analyzer ptr" where
  "edt_logic_analyzer_set_reader lap reader = map_option (\<lambda>la. la\<lparr>la_reader := reader\<rparr>) lap"

definition edt_logic_analyzer_total_samples :: "logic_analyzer ptr \<Rightarrow> u64" where
  "edt_logic_analyzer_total_samples lap = (case lap of None \<Rightarrow> 0 | Some la \<Rightarrow> la_total_samples la)"

definition edt_logic_analyzer_dropped_samples :: "logic_analyzer ptr \<Rightarrow> u64" where
  "edt_logic_analyzer_dropped_samples lap = (case lap of None \<Rightarrow> 0 | Some la \<Rightarrow> la_dropped_samples la)"

section \<open>Taking samples out\<close>

text \<open>\<open>out_samples\<close> as the bytes of the array it points to.\<close>

definition edt_logic_analyzer_read_samples ::
  "logic_analyzer ptr \<Rightarrow> u8 list ptr \<Rightarrow> csize \<Rightarrow> csize \<times> u8 list ptr \<times> logic_analyzer ptr" where
  "edt_logic_analyzer_read_samples lap outp max_samples =
     (case (lap, outp) of
        (Some la, Some out) \<Rightarrow>
          if max_samples = 0 then (0, outp, lap)
          else let (bytes_read, out', ring) =
                     edt_ring_buffer_read (Some (la_ring la)) outp (max_samples * of_nat sample_size)
               in (bytes_read div of_nat sample_size, out', Some (la\<lparr>la_ring := the ring\<rparr>))
      | _ \<Rightarrow> (0, outp, lap))"

text \<open>
  The polling loop. \<open>env k\<close> is what the sampling thread did to the ring before the
  \<open>k\<close>-th poll and \<open>clk k\<close> the \<open>k\<close>-th reading of the clock in the loop;
  \<open>None\<close> when the loop never ends.
\<close>

partial_function (option) capture_loop ::
  "(nat \<Rightarrow> ring_buffer \<Rightarrow> ring_buffer) \<Rightarrow> (nat \<Rightarrow> u64) \<Rightarrow> u64 \<Rightarrow> u32 \<Rightarrow> csize \<Rightarrow> nat \<Rightarrow>
   logic_analyzer \<Rightarrow> u8 list \<Rightarrow> csize \<Rightarrow> (csize \<times> u8 list \<times> logic_analyzer) option" where
  "capture_loop env clk start_ns timeout_ms max_samples k la out got =
     (if got < max_samples
      then let la1 = la\<lparr>la_ring := env k (la_ring la)\<rparr>;
               off = 16 * unat got;
               res = edt_logic_analyzer_read_samples (Some la1) (Some (drop off out)) (max_samples - got);
               out' = take off out @ the (fst (snd res));
               la' = the (snd (snd res));
               got' = got + fst res
           in if got' \<ge> max_samples then Some (got', out', la')
              else if timeout_ms > 0 \<and> clk k - start_ns \<ge> ucast timeout_ms * 1000000
                   then Some (got', out', la')
                   else capture_loop env clk start_ns timeout_ms max_samples (Suc k) la' out' got'
      else Some (got, out, la))"

definition edt_logic_analyzer_capture_blocking ::
  "(nat \<Rightarrow> ring_buffer \<Rightarrow> ring_buffer) \<Rightarrow> (nat \<Rightarrow> u64) \<Rightarrow> u64 \<Rightarrow>
   logic_analyzer ptr \<Rightarrow> u8 list ptr \<Rightarrow> csize \<Rightarrow> u32 \<Rightarrow> (csize \<times> u8 list ptr \<times> logic_analyzer ptr) option" where
  "edt_logic_analyzer_capture_blocking env clk start_ns lap outp max_samples timeout_ms =
     (case (lap, outp) of
        (Some la, Some out) \<Rightarrow>
          if max_samples = 0 then Some (0, outp, lap)
          else map_option (\<lambda>(n, out', la'). (n, Some out', Some la'))
                 (capture_loop env clk start_ns timeout_ms max_samples 0 la out 0)
      | _ \<Rightarrow> Some (0, outp, lap))"

section \<open>The trigger\<close>

lemma bit_mask_test: "(v AND push_bit n 1 = (0::u8)) = (\<not> bit v n)"
  by (simp add: and_exp_eq_0_iff_not_bit push_bit_eq_mult)

lemma trigger_matched_bits:
  "edt_trigger_matched trg p c =
     (let b = bit c (unat (channel trg)); a = bit p (unat (channel trg))
      in case mode trg of TRIGGER_NONE \<Rightarrow> True | EDGE_RISING \<Rightarrow> \<not> a \<and> b | EDGE_FALLING \<Rightarrow> a \<and> \<not> b
         | LEVEL_HIGH \<Rightarrow> b | LEVEL_LOW \<Rightarrow> \<not> b)"
  by (cases "mode trg") (simp_all add: edt_trigger_matched_def Let_def bit_mask_test del: push_bit_of_1)

text \<open>The raw value \<open>k\<close> samples from now, and whether the trigger fires there.\<close>

definition raw_at :: "logic_analyzer \<Rightarrow> nat \<Rightarrow> u8" where
  "raw_at la k = read_raw (la\<lparr>la_synthetic_counter := la_synthetic_counter la + of_nat k\<rparr>)"

definition fires_at :: "logic_analyzer \<Rightarrow> nat \<Rightarrow> bool" where
  "fires_at la k =
     edt_trigger_matched (la_trigger la)
       (if k = 0 then la_last_raw_value la else raw_at la (k - 1)) (raw_at la k)"

text \<open>The analyzer after \<open>m\<close> samples that did not fire.\<close>

definition skip_samples :: "nat \<Rightarrow> logic_analyzer \<Rightarrow> logic_analyzer" where
  "skip_samples m la =
     la\<lparr>la_synthetic_counter := la_synthetic_counter la + of_nat m,
        la_last_raw_value := (if m = 0 then la_last_raw_value la else raw_at la (m - 1)),
        la_total_samples := la_total_samples la + of_nat m\<rparr>"

lemma read_raw_skip [simp]: "read_raw (skip_samples m la) = raw_at la m"
  by (cases "la_reader la") (simp_all add: read_raw_def raw_at_def skip_samples_def)

lemma sample_one_skip:
  assumes "la_armed la \<noteq> 0" "\<not> fires_at la m"
  shows "sample_one st (skip_samples m la) batch = (skip_samples (Suc m) la, batch)"
proof -
  have f: "\<not> edt_trigger_matched (la_trigger (skip_samples m la))
      (la_last_raw_value (skip_samples m la)) (raw_at la m)"
    using assms(2) by (simp add: fires_at_def skip_samples_def)
  have a: "la_armed (skip_samples m la) \<noteq> 0" using assms(1) by (simp add: skip_samples_def)
  show ?thesis
    using f a unfolding sample_one_def Let_def read_raw_skip
    by (simp add: skip_samples_def algebra_simps)
qed

lemma fill_batch_step:
  "length batch < target \<Longrightarrow>
   fill_batch target st la batch =
     fill_batch target st (fst (sample_one st la batch)) (snd (sample_one st la batch))"
  by (subst fill_batch.simps) simp

lemma fill_batch_done: "target \<le> length batch \<Longrightarrow> fill_batch target st la batch = Some (la, batch)"
  by (subst fill_batch.simps) simp

lemma fill_batch_skip:
  assumes "la_armed la \<noteq> 0" "0 < target" "\<forall>j<m. \<not> fires_at la j"
  shows "fill_batch target st la [] = fill_batch target st (skip_samples m la) []"
  using assms(3)
proof (induction m)
  case 0
  have "skip_samples 0 la = la" by (simp add: skip_samples_def)
  then show ?case by simp
next
  case (Suc m)
  then have "\<not> fires_at la m" by simp
  then show ?case
    using Suc sample_one_skip [OF assms(1), of m st "[]"] assms(2)
    by (simp add: fill_batch_step [of "[]"])
qed

lemma raw_at_armed [simp]: "raw_at (la\<lparr>la_armed := a\<rparr>) k = raw_at la k"
  by (cases "la_reader la") (simp_all add: raw_at_def read_raw_def)

lemma skip_samples_armed: "(skip_samples m la)\<lparr>la_armed := a\<rparr> = skip_samples m (la\<lparr>la_armed := a\<rparr>)"
  by (simp add: skip_samples_def)

lemma sample_one_collect:
  assumes "la_armed la = 0"
  shows "sample_one st (skip_samples m la) batch =
    (skip_samples (Suc m) la,
     batch @ [\<lparr>timestamp_ns = st + of_nat (length batch) * la_period_ns la, channels = raw_at la m\<rparr>])"
  unfolding sample_one_def Let_def read_raw_skip
  using assms by (simp add: skip_samples_def algebra_simps)

definition batch_of :: "u64 \<Rightarrow> logic_analyzer \<Rightarrow> nat \<Rightarrow> nat \<Rightarrow> nat \<Rightarrow> logic_sample list" where
  "batch_of st la i m n =
     map (\<lambda>j. \<lparr>timestamp_ns = st + of_nat (i + j) * la_period_ns la, channels = raw_at la (m + j)\<rparr>) [0..<n]"

lemma length_batch_of [simp]: "length (batch_of st la i m n) = n"
  by (simp add: batch_of_def)

lemma batch_of_Suc:
  "batch_of st la i m (Suc n) =
   \<lparr>timestamp_ns = st + of_nat i * la_period_ns la, channels = raw_at la m\<rparr> # batch_of st la (Suc i) (Suc m) n"
  by (simp add: batch_of_def upt_conv_Cons map_Suc_upt [symmetric] comp_def add_ac del: upt_Suc)

lemma fill_batch_collect:
  assumes "la_armed la = 0"
  shows "length batch + n = target \<Longrightarrow>
    fill_batch target st (skip_samples m la) batch =
      Some (skip_samples (m + n) la, batch @ batch_of st la (length batch) m n)"
proof (induction n arbitrary: m batch)
  case 0
  then show ?case by (simp add: fill_batch_done batch_of_def)
next
  case (Suc n)
  then show ?case
    by (simp add: fill_batch_step sample_one_collect [OF assms] batch_of_Suc)
qed

text \<open>C14. The trigger gate: an armed analyzer records nothing until the first sample at which the
  trigger fires, then disarms and fills the batch with that sample and the ones after it, one per
  read. The time stamps count from the start of the batch, not from the sample that fired, however
  long the wait.\<close>

theorem trigger_gate:
  assumes "la_armed la \<noteq> 0" and "0 < target"
    and "\<forall>j<m. \<not> fires_at la j" and "fires_at la m"
  shows "fill_batch target st la [] =
    Some ((skip_samples (m + target) la)\<lparr>la_armed := 0\<rparr>, batch_of st la 0 m target)"
proof -
  let ?x = "\<lparr>timestamp_ns = st, channels = raw_at la m\<rparr>"
  let ?la0 = "la\<lparr>la_armed := 0\<rparr>"
  have fire: "edt_trigger_matched (la_trigger (skip_samples m la))
      (la_last_raw_value (skip_samples m la)) (raw_at la m)"
    using assms(4) by (simp add: fires_at_def skip_samples_def)
  have one: "sample_one st (skip_samples m la) [] = (skip_samples (Suc m) ?la0, [?x])"
    using fire assms(1) unfolding sample_one_def Let_def read_raw_skip
    by (simp add: skip_samples_def algebra_simps)
  have b: "batch_of st ?la0 i k n = batch_of st la i k n" for i k n
    by (simp add: batch_of_def)
  obtain n where n: "target = Suc n" using assms(2) by (cases target) auto
  have "fill_batch target st la [] = fill_batch target st (skip_samples m la) []"
    using assms by (intro fill_batch_skip) auto
  also have "\<dots> = fill_batch target st (skip_samples (Suc m) ?la0) [?x]"
    using one assms(2) by (simp add: fill_batch_step [of "[]"])
  also have "\<dots> = Some (skip_samples (Suc m + n) ?la0, [?x] @ batch_of st ?la0 1 (Suc m) n)"
    using fill_batch_collect [of ?la0 "[?x]" n target st "Suc m"] n by simp
  finally show ?thesis
    by (simp add: n b batch_of_Suc skip_samples_armed)
qed

text \<open>C17. If the trigger never fires, the inner loop of the sampling thread never ends: the thread does
  not return to the test of \<open>running\<close>, so a stop, which joins it, waits for ever.\<close>

theorem unfired_trigger_hangs:
  assumes "la_running la \<noteq> 0" and "la_armed la \<noteq> 0" and "\<forall>j. \<not> fires_at la j"
  shows "edt_logic_sample_thread (now # rest) la = None"
proof -
  have "fill_batch target st la [] = None" if "0 < target" for target st
  proof (rule ccontr)
    assume "fill_batch target st la [] \<noteq> None"
    then obtain r where r: "fill_batch target st la [] = Some r" by blast
    have "\<not> (0 < target \<and> [] = ([] :: logic_sample list) \<and> (\<exists>m. la = skip_samples m la))"
    proof (rule fill_batch.raw_induct [where P = "\<lambda>target st x batch r.
        \<not> (0 < target \<and> batch = [] \<and> (\<exists>m. x = skip_samples m la))", OF _ r])
      fix f target st x batch r
      assume IH: "\<And>target st x batch r. f target st x batch = Some r \<Longrightarrow>
          \<not> (0 < target \<and> batch = [] \<and> (\<exists>m. x = skip_samples m la))"
        and eq: "(if length batch < target
                  then f target st (fst (sample_one st x batch)) (snd (sample_one st x batch))
                  else Some (x, batch)) = Some r"
      show "\<not> (0 < target \<and> batch = [] \<and> (\<exists>m. x = skip_samples m la))"
      proof
        assume a: "0 < target \<and> batch = [] \<and> (\<exists>m. x = skip_samples m la)"
        then obtain m where m: "x = skip_samples m la" by blast
        have "f target st (skip_samples (Suc m) la) [] = Some r"
          using eq a m sample_one_skip [OF assms(2), of m st "[]"] assms(3) by simp
        then show False using IH a by blast
      qed
    qed
    moreover have "la = skip_samples 0 la" by (simp add: skip_samples_def)
    ultimately show False using that by blast
  qed
  then have "edt_logic_sample_turn now la = None"
    by (simp add: edt_logic_sample_turn_def batch_target_def)
  then show ?thesis using assms(1) by simp
qed

section \<open>The ring holds whole samples\<close>

definition ring_whole :: "ring_buffer \<Rightarrow> bool" where
  "ring_whole rb \<longleftrightarrow> rb_wf rb \<and> 16 dvd unat (rb_capacity rb) \<and> 16 dvd length (rb_contents rb)"

definition ring_samples :: "ring_buffer \<Rightarrow> logic_sample list" where
  "ring_samples rb = bytes_samples (rb_contents rb)"

definition sample_room :: "ring_buffer \<Rightarrow> nat" where
  "sample_room rb = (unat (rb_capacity rb) - length (rb_contents rb)) div 16"

lemma rb_put_write:
  assumes "rb_wf rb" "length xs < 2 ^ 64"
  obtains n rb' where "edt_ring_buffer_write (Some rb) (Some xs) (of_nat (length xs)) = (n, Some rb')"
    "rb_put rb xs = (unat n, rb')" "rb_capacity rb' = rb_capacity rb"
proof -
  obtain n r where w: "edt_ring_buffer_write (Some rb) (Some xs) (of_nat (length xs)) = (n, r)"
    by fastforce
  obtain rb' where "r = Some rb'" "rb_capacity rb' = rb_capacity rb"
    using write_contents [OF assms(1) _ w] unat_of_nat_64 [OF assms(2)] by auto
  then show ?thesis using that w by (simp add: rb_put_def)
qed

lemma push_batch_samples:
  assumes ok: "ring_whole (la_ring la)" and len: "length batch \<le> 256"
  defines "n \<equiv> min (length batch) (sample_room (la_ring la))"
  shows "\<exists>rb'. push_batch la batch = la\<lparr>la_ring := rb',
             la_dropped_samples := la_dropped_samples la + of_nat (length batch - n)\<rparr> \<and>
           ring_whole rb' \<and> ring_samples rb' = ring_samples (la_ring la) @ take n batch \<and>
           rb_capacity rb' = rb_capacity (la_ring la)"
proof (cases "batch = []")
  case True
  then show ?thesis using ok by (intro exI [of _ "la_ring la"]) (simp add: push_batch_def n_def)
next
  case False
  let ?rb = "la_ring la" and ?xs = "samples_bytes batch"
  have wf: "rb_wf ?rb" and c16: "16 dvd unat (rb_capacity ?rb)" "16 dvd length (rb_contents ?rb)"
    using ok unfolding ring_whole_def by blast+
  have lx: "length ?xs < 2 ^ 64" using len by simp
  obtain w rb' where w: "edt_ring_buffer_write (Some ?rb) (Some ?xs) (of_nat (length ?xs)) = (w, Some rb')"
    "rb_put ?rb ?xs = (unat w, rb')" "rb_capacity rb' = rb_capacity ?rb"
    using rb_put_write [OF wf lx] by blast
  have room: "rb_room ?rb = 16 * sample_room ?rb"
    using c16 wf by (simp add: rb_room_def sample_room_def dvd_diff_nat)
  note law = rbq.put_law [OF wf lx w(2)]
  have uw: "unat w = 16 * n"
    using law room by (simp add: n_def min_def)
  have cont: "rb_contents rb' = rb_contents ?rb @ samples_bytes (take n batch)"
    using law uw take_samples_bytes [of n batch] by simp
  have "length (rb_contents rb') = length (rb_contents ?rb) + 16 * n"
    unfolding cont by (simp add: n_def)
  then have whole: "ring_whole rb'"
    using law c16 w(3) unfolding ring_whole_def by simp
  have samples: "ring_samples rb' = ring_samples ?rb @ take n batch"
    by (simp add: ring_samples_def cont bytes_samples_append [OF c16(2)])
  have total: "unat (of_nat (length batch * sample_size) :: csize) = 16 * length batch"
    using lx unat_of_nat_64 [of "length batch * sample_size"] unfolding sample_size_def length_samples_bytes
    by (metis mult.commute)
  have dropped: "(of_nat (length batch * sample_size) - w) div of_nat sample_size =
      (of_nat (length batch - n) :: csize)" if "w < of_nat (length batch * sample_size)"
  proof -
    have "unat (of_nat (length batch * sample_size) - w) = 16 * (length batch - n)"
      using that total uw by (simp add: unat_sub diff_mult_distrib2)
    then have "unat ((of_nat (length batch * sample_size) - w) div of_nat sample_size) = length batch - n"
      by (simp add: unat_div sample_size_def)
    then show ?thesis by (metis of_nat_unat ucast_id)
  qed
  have none: "n = length batch" if "\<not> w < of_nat (length batch * sample_size)"
    using that total uw by (simp add: word_less_nat_alt n_def min_def split: if_splits)
  have bytes: "(of_nat (length ?xs) :: csize) = of_nat (length batch * sample_size)"
    by (simp add: sample_size_def mult.commute)
  have "push_batch la batch = la\<lparr>la_ring := rb',
      la_dropped_samples := la_dropped_samples la + of_nat (length batch - n)\<rparr>"
    using False w(1) dropped none unfolding push_batch_def Let_def bytes by auto
  then show ?thesis using whole samples w(3) by blast
qed

text \<open>C15. One turn of the sampling thread with the trigger disarmed: the samples of the batch, one per
  read of the signal, are appended to the ring in order, as many whole samples as there is room
  for; the rest is dropped and counted exactly, and every sample read is counted.\<close>

theorem sampling_turn_appends:
  assumes "la_armed la = 0" and "ring_whole (la_ring la)"
  shows "\<exists>la' sleep. edt_logic_sample_turn now la = Some (la', sleep) \<and>
    (let b = batch_of now la 0 0 (batch_target la);
         n = min (length b) (sample_room (la_ring la))
     in ring_whole (la_ring la') \<and> ring_samples (la_ring la') = ring_samples (la_ring la) @ take n b \<and>
        la_dropped_samples la' = la_dropped_samples la + of_nat (length b - n) \<and>
        la_total_samples la' = la_total_samples la + of_nat (length b))"
proof -
  let ?t = "batch_target la"
  let ?b = "batch_of now la 0 0 ?t"
  have s0: "skip_samples 0 la = la" by (simp add: skip_samples_def)
  have fill: "fill_batch ?t now la [] = Some (skip_samples ?t la, ?b)"
    using fill_batch_collect [OF assms(1), of "[]" ?t ?t now 0] by (simp add: s0)
  have fields: "la_ring (skip_samples ?t la) = la_ring la"
    "la_dropped_samples (skip_samples ?t la) = la_dropped_samples la"
    "la_total_samples (skip_samples ?t la) = la_total_samples la + of_nat ?t"
    by (simp_all add: skip_samples_def)
  have "length ?b \<le> 256" by (simp add: batch_target_def)
  from push_batch_samples [of "skip_samples ?t la", unfolded fields, OF assms(2) this]
  obtain rb' where push: "push_batch (skip_samples ?t la) ?b = (skip_samples ?t la)\<lparr>la_ring := rb',
      la_dropped_samples := la_dropped_samples la +
        of_nat (length ?b - min (length ?b) (sample_room (la_ring la)))\<rparr>"
    "ring_whole rb'" "ring_samples rb' = ring_samples (la_ring la) @
        take (min (length ?b) (sample_room (la_ring la))) ?b" by blast
  show ?thesis
    unfolding edt_logic_sample_turn_def Let_def fill option.case prod.case push(1)
    using push(2,3) fields(3) by simp
qed

lemma read_samples_bytes:
  assumes "ring_whole (la_ring la)" and "m \<noteq> 0" and "16 * unat m < 2 ^ 64" and "16 * unat m \<le> length out"
  obtains n rb' where
    "edt_logic_analyzer_read_samples (Some la) (Some out) m =
       (n, Some (take (16 * unat n) (rb_contents (la_ring la)) @ drop (16 * unat n) out),
        Some (la\<lparr>la_ring := rb'\<rparr>))"
    "unat n = min (unat m) (length (rb_contents (la_ring la)) div 16)"
    "16 * unat n \<le> length (rb_contents (la_ring la))"
    "ring_whole rb'" "rb_contents rb' = drop (16 * unat n) (rb_contents (la_ring la))"
proof -
  let ?c = "rb_contents (la_ring la)"
  have wf: "rb_wf (la_ring la)" and c16: "16 dvd unat (rb_capacity (la_ring la))" "16 dvd length ?c"
    using assms(1) unfolding ring_whole_def by blast+
  have um: "unat (m * of_nat sample_size) = 16 * unat m"
    using assms(3) unat_mult_lem [of m "of_nat sample_size"] by (simp add: sample_size_def)
  obtain b outp rbp where r: "edt_ring_buffer_read (Some (la_ring la)) (Some out) (m * of_nat sample_size) =
      (b, outp, rbp)" by (metis prod_cases3)
  obtain rb' where rb': "rbp = Some rb'" "rb_wf rb'" "unat b = min (16 * unat m) (length ?c)"
      "outp = Some (take (unat b) ?c @ drop (unat b) out)"
      "rb_contents rb' = drop (unat b) ?c" "rb_capacity rb' = rb_capacity (la_ring la)"
    using read_contents [OF wf _ r] assms(4) um by auto
  let ?n = "b div of_nat sample_size"
  have n: "unat ?n = min (unat m) (length ?c div 16)" "unat b = 16 * unat ?n"
    using rb'(3) c16(2) by (auto simp: unat_div sample_size_def min_def elim!: dvdE)
  have whole: "ring_whole rb'"
    using rb'(2,5,6) c16 n(2) unfolding ring_whole_def by (simp add: dvd_diff_nat)
  have "16 * unat ?n \<le> length ?c" using rb'(3) n(2) by simp
  moreover have "edt_logic_analyzer_read_samples (Some la) (Some out) m =
      (?n, Some (take (unat b) ?c @ drop (unat b) out), Some (la\<lparr>la_ring := rb'\<rparr>))"
    using assms(2) rb'(1,4) r by (simp add: edt_logic_analyzer_read_samples_def)
  ultimately show ?thesis using that [of ?n rb'] n whole rb'(5) by simp
qed

text \<open>Reading samples out delivers the oldest whole samples of the ring, as many as asked for and
  present, into the front of the array, and leaves the rest in the ring.\<close>

theorem read_samples_refines:
  assumes "ring_whole (la_ring la)" and "m \<noteq> 0" and "16 * unat m < 2 ^ 64" and "16 * unat m \<le> length out"
  shows "\<exists>n out' la'. edt_logic_analyzer_read_samples (Some la) (Some out) m = (n, Some out', Some la') \<and>
    unat n = min (unat m) (length (ring_samples (la_ring la))) \<and>
    bytes_samples (take (16 * unat n) out') = take (unat n) (ring_samples (la_ring la)) \<and>
    drop (16 * unat n) out' = drop (16 * unat n) out \<and> length out' = length out \<and>
    ring_whole (la_ring la') \<and> ring_samples (la_ring la') = drop (unat n) (ring_samples (la_ring la))"
proof -
  let ?c = "rb_contents (la_ring la)"
  obtain n rb' where r: "edt_logic_analyzer_read_samples (Some la) (Some out) m =
       (n, Some (take (16 * unat n) ?c @ drop (16 * unat n) out), Some (la\<lparr>la_ring := rb'\<rparr>))"
    "unat n = min (unat m) (length ?c div 16)" "16 * unat n \<le> length ?c"
    "ring_whole rb'" "rb_contents rb' = drop (16 * unat n) ?c"
    using read_samples_bytes [OF assms] by blast
  have split: "bytes_samples (take (16 * unat n) ?c) @ bytes_samples (drop (16 * unat n) ?c) = bytes_samples ?c"
    using r(3) by (subst bytes_samples_append [symmetric]) (auto simp: min_def)
  have len: "length (bytes_samples (take (16 * unat n) ?c)) = unat n"
    using r(3) by (simp add: length_bytes_samples)
  have tk: "bytes_samples (take (16 * unat n) ?c) = take (unat n) (bytes_samples ?c)"
    and dp: "bytes_samples (drop (16 * unat n) ?c) = drop (unat n) (bytes_samples ?c)"
    unfolding split [symmetric] using len by simp_all
  have "16 * unat n \<le> length out" using r(2) assms(4) by simp
  then show ?thesis
    using r tk dp unfolding ring_samples_def length_bytes_samples
    by (intro exI [of _ n] exI [of _ "take (16 * unat n) ?c @ drop (16 * unat n) out"]
        exI [of _ "la\<lparr>la_ring := rb'\<rparr>"]) simp
qed

section \<open>The life of an analyzer\<close>

text \<open>The calls on an initialised analyzer, a turn of its thread included.\<close>

datatype la_call =
    CallSetRate u32
  | CallSetTrigger "trigger_config ptr"
  | CallArm
  | CallSetReader "(u64 \<Rightarrow> u8) ptr"
  | CallStart "int + unit"
  | CallStop
  | CallRead csize
  | ThreadTurn u64

fun la_apply :: "la_call \<Rightarrow> logic_analyzer \<Rightarrow> logic_analyzer option" where
  "la_apply (CallSetRate r) la = snd (edt_logic_analyzer_set_sample_rate (Some la) r)"
| "la_apply (CallSetTrigger t) la = snd (edt_logic_analyzer_set_trigger (Some la) t)"
| "la_apply CallArm la = snd (edt_logic_analyzer_arm (Some la))"
| "la_apply (CallSetReader f) la = edt_logic_analyzer_set_reader (Some la) f"
| "la_apply (CallStart created) la = snd (edt_logic_analyzer_start created (Some la))"
| "la_apply CallStop la = snd (edt_logic_analyzer_stop (Some la))"
| "la_apply (CallRead m) la =
     snd (snd (edt_logic_analyzer_read_samples (Some la) (Some (replicate (16 * unat m) 0)) m))"
| "la_apply (ThreadTurn now) la =
     (if la_running la \<noteq> 0 then map_option fst (edt_logic_sample_turn now la) else Some la)"

fun la_run :: "la_call list \<Rightarrow> logic_analyzer \<Rightarrow> logic_analyzer option" where
  "la_run [] la = Some la"
| "la_run (c # cs) la = (case la_apply c la of None \<Rightarrow> None | Some la' \<Rightarrow> la_run cs la')"

definition la_ok :: "logic_analyzer \<Rightarrow> bool" where
  "la_ok la \<longleftrightarrow>
     0 < sample_rate_hz (la_config la) \<and>
     sample_rate_hz (la_config la) \<le> max_sample_rate_hz (la_config la) \<and>
     max_sample_rate_hz (la_config la) \<le> EDT_MAX_SAMPLE_RATE_HZ \<and>
     la_period_ns la = period_of (sample_rate_hz (la_config la)) \<and>
     channel (la_trigger la) < EDT_MAX_CHANNELS \<and>
     (la_armed la \<noteq> 0 \<longrightarrow> mode (la_trigger la) \<noteq> TRIGGER_NONE) \<and>
     ring_whole (la_ring la)"

lemma fill_batch_frame:
  assumes "fill_batch target st la batch = Some (la', batch')"
  shows "la_ring la' = la_ring la \<and> la_running la' = la_running la \<and> la_config la' = la_config la \<and>
    la_trigger la' = la_trigger la \<and> la_period_ns la' = la_period_ns la \<and> (la_armed la' = 0 \<or> la_armed la' = la_armed la) \<and>
    (length batch \<le> target \<longrightarrow> length batch' = target)"
proof -
  let ?P = "\<lambda>target st la batch r. la_ring (fst r) = la_ring la \<and> la_running (fst r) = la_running la \<and> la_config (fst r) = la_config la \<and>
    la_trigger (fst r) = la_trigger la \<and> la_period_ns (fst r) = la_period_ns la \<and>
    (la_armed (fst r) = 0 \<or> la_armed (fst r) = la_armed la) \<and>
    (length batch \<le> target \<longrightarrow> length (snd r) = target)"
  have "?P target st la batch (la', batch')"
  proof (rule fill_batch.raw_induct [where P = ?P, OF _ assms])
    fix f target st la batch and r :: "logic_analyzer \<times> logic_sample list"
    assume IH: "\<And>target st la batch r. f target st la batch = Some r \<Longrightarrow> ?P target st la batch r"
      and eq: "(if length batch < target
                then f target st (fst (sample_one st la batch)) (snd (sample_one st la batch))
                else Some (la, batch)) = Some r"
    show "?P target st la batch r"
    proof (cases "length batch < target")
      case True
      then have "?P target st (fst (sample_one st la batch)) (snd (sample_one st la batch)) r"
        using eq IH by simp
      then show ?thesis using True by (auto simp: sample_one_def Let_def split: if_splits)
    next
      case False
      then show ?thesis using eq by auto
    qed
  qed
  then show ?thesis by simp
qed

lemma turn_frame:
  assumes "edt_logic_sample_turn now la = Some (la', sl)" and "ring_whole (la_ring la)"
  shows "la_config la' = la_config la \<and> la_trigger la' = la_trigger la \<and>
    la_period_ns la' = la_period_ns la \<and> (la_armed la' = 0 \<or> la_armed la' = la_armed la) \<and>
    ring_whole (la_ring la')"
proof -
  obtain la1 b where f: "fill_batch (batch_target la) now la [] = Some (la1, b)"
    and la': "la' = push_batch la1 b"
    using assms(1) by (auto simp: edt_logic_sample_turn_def Let_def split: option.splits)
  note fr = fill_batch_frame [OF f]
  have len: "length b \<le> 256" using fr by (auto simp: batch_target_def split: if_splits)
  have whole: "ring_whole (la_ring la1)" using fr assms(2) by simp
  show ?thesis using push_batch_samples [OF whole len] fr la' by auto
qed

lemma read_samples_whole:
  assumes "ring_whole (la_ring la)"
    and "edt_logic_analyzer_read_samples (Some la) (Some (replicate (16 * unat m) 0)) m = (n, o', lap)"
  shows "\<exists>rb'. lap = Some (la\<lparr>la_ring := rb'\<rparr>) \<and> ring_whole rb'"
proof (cases "m = 0")
  case True
  then show ?thesis
    using assms by (intro exI [of _ "la_ring la"]) (simp add: edt_logic_analyzer_read_samples_def)
next
  case False
  let ?out = "replicate (16 * unat m) (0 :: u8)"
  let ?c = "rb_contents (la_ring la)"
  have wf: "rb_wf (la_ring la)" and c16: "16 dvd unat (rb_capacity (la_ring la))" "16 dvd length ?c"
    using assms(1) unfolding ring_whole_def by blast+
  obtain b outp rbp where r: "edt_ring_buffer_read (Some (la_ring la)) (Some ?out) (m * of_nat sample_size) =
      (b, outp, rbp)" by (metis prod_cases3)
  have um: "unat (m * of_nat sample_size) = (16 * unat m) mod 2 ^ 64"
    by (simp add: sample_size_def mult.commute unat_word_ariths(2))
  have le: "unat (m * of_nat sample_size) \<le> length ?out" unfolding um by simp
  obtain rb' where rb': "rbp = Some rb'" "rb_wf rb'" "unat b = min (unat (m * of_nat sample_size)) (length ?c)"
      "rb_contents rb' = drop (unat b) ?c" "rb_capacity rb' = rb_capacity (la_ring la)"
    using read_contents [OF wf le r] by auto
  have "16 dvd unat b"
    using rb'(3) c16(2) unfolding um by (simp add: min_def dvd_mod)
  then have "ring_whole rb'"
    using rb' c16 unfolding ring_whole_def by (simp add: dvd_diff_nat)
  then show ?thesis
    using assms(2) False r rb'(1) by (auto simp: edt_logic_analyzer_read_samples_def)
qed

lemma la_apply_ok:
  assumes "la_ok la" and "la_apply c la = Some la'"
  shows "la_ok la'"
proof (cases c)
  case (CallSetRate r)
  have "0 < r" if "r \<noteq> 0" using that by (simp add: word_gt_0)
  then show ?thesis
    using assms CallSetRate
    by (auto simp: la_ok_def edt_logic_analyzer_set_sample_rate_def Let_def split: if_splits)
next
  case (CallSetTrigger t)
  then show ?thesis
    using assms by (cases t) (auto simp: la_ok_def edt_logic_analyzer_set_trigger_def split: if_splits)
next
  case (CallRead m)
  obtain n o' lap where r: "edt_logic_analyzer_read_samples (Some la)
      (Some (replicate (16 * unat m) 0)) m = (n, o', lap)" by (metis prod_cases3)
  have "ring_whole (la_ring la)" using assms(1) by (simp add: la_ok_def)
  from read_samples_whole [OF this r] show ?thesis
    using assms CallRead r by (auto simp: la_ok_def)
next
  case (ThreadTurn now)
  show ?thesis
  proof (cases "la_running la \<noteq> 0")
    case True
    then obtain sl where t: "edt_logic_sample_turn now la = Some (la', sl)"
      using assms(2) ThreadTurn by (auto)
    show ?thesis
      using turn_frame [OF t] assms(1) by (auto simp: la_ok_def)
  next
    case False
    then show ?thesis using assms ThreadTurn by simp
  qed
qed (use assms in \<open>auto simp: la_ok_def edt_logic_analyzer_arm_def edt_logic_analyzer_set_reader_def
       edt_logic_analyzer_start_def edt_logic_analyzer_stop_def Let_def split: if_splits sum.splits\<close>)

lemma la_run_ok: "la_ok la \<Longrightarrow> la_run cs la = Some la' \<Longrightarrow> la_ok la'"
  by (induction cs arbitrary: la) (auto split: option.splits dest: la_apply_ok)

lemma normalise_config_range:
  "0 < sample_rate_hz (normalise_config c) \<and>
   sample_rate_hz (normalise_config c) \<le> max_sample_rate_hz (normalise_config c) \<and>
   max_sample_rate_hz (normalise_config c) \<le> EDT_MAX_SAMPLE_RATE_HZ"
  by (auto simp: normalise_config_def Let_def EDT_MAX_SAMPLE_RATE_HZ_def la_defaults_def word_gt_0 not_less
      split: option.splits)

lemma init_la_ok:
  assumes "edt_logic_analyzer_init True (Some la0) config = Some (r, Some la)"
    and "ring_capacity_samples (normalise_config config) \<le> 2 ^ 59"
    and "ring_capacity_samples (normalise_config config) \<noteq> 0"
  shows "r = 0 \<and> la_ok la \<and> ring_samples (la_ring la) = []"
proof -
  let ?c = "ring_capacity_samples (normalise_config config)"
  let ?n = "?c * of_nat sample_size"
  have uc: "unat ?c \<le> 2 ^ 59" "0 < unat ?c"
    using assms(2,3) by (simp_all add: word_le_nat_alt unat_gt_0)
  have un: "unat ?n = 16 * unat ?c"
    using uc unat_mult_lem [of ?c "of_nat sample_size"] by (simp add: sample_size_def)
  have n: "2 \<le> ?n" "?n \<le> 2 ^ 63" using un uc by (simp_all add: word_le_nat_alt)
  obtain rb' where rb': "edt_ring_buffer_init True (Some ring_zero) ?n = Some (0, Some rb')"
      "rb_wf rb'" "rb_contents rb' = []" "?n \<le> rb_capacity rb'"
    using ring_init_wf [OF n] by blast
  obtain k where k: "unat (rb_capacity rb') = 2 ^ k" using rb'(2) by (auto elim: rb_wfE)
  have "16 \<le> unat (rb_capacity rb')" using rb'(4) un uc by (simp add: word_le_nat_alt)
  then have "(2::nat) ^ 4 \<le> 2 ^ k" using k by simp
  then have "4 \<le> k" by (rule power_le_imp_le_exp [rotated]) simp
  then have "(2::nat) ^ 4 dvd unat (rb_capacity rb')" unfolding k by (rule le_imp_power_dvd)
  then have "ring_whole rb'" using rb' unfolding ring_whole_def by simp
  then show ?thesis
    using assms(1) rb'(1,3) normalise_config_range [of config]
    by (auto simp: edt_logic_analyzer_init_def Let_def la_ok_def EDT_MAX_CHANNELS_def ring_samples_def)
qed

text \<open>C16. From a successful initialisation on, through any sequence of configuration calls, starts,
  stops, reads and turns of the sampling thread, the rate stays positive and within the maximum,
  the period is the one of the rate, the trigger channel is one of the eight, the analyzer is never
  armed without a trigger, and the ring is well formed and holds whole samples only.\<close>

theorem analyzer_invariant:
  assumes "edt_logic_analyzer_init True (Some la0) config = Some (r, Some la)"
    and "ring_capacity_samples (normalise_config config) \<le> 2 ^ 59"
    and "la_run calls la = Some la'"
  shows "r = 0 \<and> la_ok la'"
proof -
  have "ring_capacity_samples (normalise_config config) \<noteq> 0"
    by (simp add: normalise_config_def Let_def la_defaults_def)
  from init_la_ok [OF assms(1,2) this] assms(3) show ?thesis by (auto intro: la_run_ok)
qed

section \<open>Capture with a time limit\<close>

text \<open>What the sampling thread may do to the ring between two polls: add whole samples.\<close>

definition sampler_env :: "(nat \<Rightarrow> ring_buffer \<Rightarrow> ring_buffer) \<Rightarrow> bool" where
  "sampler_env env \<longleftrightarrow> (\<forall>k rb. ring_whole rb \<longrightarrow> ring_whole (env k rb) \<and>
     (\<exists>xs. rb_contents (env k rb) = rb_contents rb @ xs))"

text \<open>The result of the loop, relative to the state it was entered in.\<close>

definition capture_post ::
  "csize \<Rightarrow> csize \<Rightarrow> u8 list \<Rightarrow> ring_buffer \<Rightarrow> csize \<times> u8 list \<times> logic_analyzer \<Rightarrow> bool" where
  "capture_post m got out rb r =
     (case r of (n, out', la') \<Rightarrow> unat got \<le> unat n \<and> unat n \<le> unat m \<and> length out' = length out \<and>
        take (16 * unat got) out' = take (16 * unat got) out \<and> ring_whole (la_ring la') \<and>
        (\<exists>ys. drop (16 * unat got) (take (16 * unat n) out') @ rb_contents (la_ring la') =
              rb_contents rb @ ys))"

lemma capture_post_refl:
  "unat got \<le> unat m \<Longrightarrow> ring_whole (la_ring la) \<Longrightarrow> rb = la_ring la \<Longrightarrow>
   capture_post m got out rb (got, out, la)"
  by (simp add: capture_post_def)

text \<open>One poll followed by a result for the rest is a result for the whole.\<close>

lemma capture_post_step:
  assumes env: "sampler_env env" and whole: "ring_whole (la_ring la)"
    and lt: "unat got < unat m" and room: "16 * unat m \<le> length out" "length out < 2 ^ 64"
  obtains n out' la' where
    "edt_logic_analyzer_read_samples (Some (la\<lparr>la_ring := env k (la_ring la)\<rparr>))
       (Some (drop (16 * unat got) out)) (m - got) =
       (n, Some (drop (16 * unat got) out'), Some la')"
    "take (16 * unat got) out' = take (16 * unat got) out" "length out' = length out"
    "unat (got + n) = unat got + unat n" "unat (got + n) \<le> unat m" "ring_whole (la_ring la')"
    "\<And>r. capture_post m (got + n) out' (la_ring la') r \<Longrightarrow> capture_post m got out (la_ring la) r"
proof -
  let ?rb = "env k (la_ring la)" and ?off = "16 * unat got"
  let ?la1 = "la\<lparr>la_ring := ?rb\<rparr>"
  obtain xs where xs: "rb_contents ?rb = rb_contents (la_ring la) @ xs"
    using env whole by (auto simp: sampler_env_def)
  have w1: "ring_whole (la_ring ?la1)" using env whole by (simp add: sampler_env_def)
  have um: "unat (m - got) = unat m - unat got" using lt by (simp add: unat_sub word_le_nat_alt)
  have "m - got \<noteq> 0" using um lt by (metis unat_0 zero_less_diff less_irrefl)
  moreover have "16 * unat (m - got) < 2 ^ 64" using um room by simp
  moreover have "16 * unat (m - got) \<le> length (drop ?off out)" using um room by (simp add: diff_mult_distrib2)
  ultimately obtain n rb' where r: "edt_logic_analyzer_read_samples (Some ?la1) (Some (drop ?off out)) (m - got) =
       (n, Some (take (16 * unat n) (rb_contents (la_ring ?la1)) @ drop (16 * unat n) (drop ?off out)),
        Some (?la1\<lparr>la_ring := rb'\<rparr>))"
      and n: "unat n = min (unat (m - got)) (length (rb_contents (la_ring ?la1)) div 16)"
        "16 * unat n \<le> length (rb_contents (la_ring ?la1))"
      and rb': "ring_whole rb'" "rb_contents rb' = drop (16 * unat n) (rb_contents (la_ring ?la1))"
    using read_samples_bytes [OF w1] by metis
  have le: "unat got + unat n \<le> unat m" using n(1) um lt by simp
  then have add: "unat (got + n) = unat got + unat n"
    using unsigned_less [of m] by (intro unat_add_lem [THEN iffD1]) (rule le_less_trans, simp_all)
  define o1 where "o1 = take ?off out @ take (16 * unat n) (rb_contents ?rb) @ drop (16 * unat n) (drop ?off out)"
  have off: "?off + 16 * unat n \<le> length out" using le room(1) by simp
  have n2: "16 * unat n \<le> length (rb_contents ?rb)" using n(2) by simp
  have len: "length o1 = length out" unfolding o1_def using off n2 by simp
  have tk: "take ?off o1 = take ?off out" "drop ?off o1 = take (16 * unat n) (rb_contents ?rb) @
      drop (16 * unat n) (drop ?off out)"
    unfolding o1_def using off by simp_all
  have tk2: "take (16 * unat n) (drop ?off o1) = take (16 * unat n) (rb_contents ?rb)"
    unfolding tk(2) using n2 by simp
  have post: "capture_post m got out (la_ring la) res" if "capture_post m (got + n) o1 rb' res" for res
  proof -
    obtain t out2 la2 where res: "res = (t, out2, la2)" by (metis prod_cases3)
    have p: "unat (got + n) \<le> unat t" "unat t \<le> unat m" "length out2 = length o1"
        "take (16 * unat (got + n)) out2 = take (16 * unat (got + n)) o1" "ring_whole (la_ring la2)"
      using that unfolding capture_post_def res prod.case by blast+
    note post' = that
    obtain ys where
      ys: "drop (16 * unat (got + n)) (take (16 * unat t) out2) @ rb_contents (la_ring la2) = rb_contents rb' @ ys"
      using post' unfolding capture_post_def res prod.case by blast
    let ?b = "16 * unat n"
    have s: "16 * unat (got + n) = ?b + ?off" unfolding add by simp
    have t1: "take ?off out2 = take ?off out"
      using arg_cong [OF p(4), of "take ?off"] tk(1) unfolding s by simp
    have t2: "take ?b (drop ?off (take (16 * unat t) out2)) = take ?b (rb_contents ?rb)"
    proof -
      have "take ?b (drop ?off (take (16 * unat t) out2)) = drop ?off (take (?b + ?off) (take (16 * unat t) out2))"
        by (simp only: take_drop)
      also have "\<dots> = drop ?off (take (?b + ?off) out2)" using p(1) add by (simp add: min_def)
      also have "\<dots> = drop ?off (take (?b + ?off) o1)" using p(4) s by simp
      also have "\<dots> = take ?b (drop ?off o1)" by (simp only: take_drop)
      finally show ?thesis using tk2 by simp
    qed
    have "drop ?off (take (16 * unat t) out2) @ rb_contents (la_ring la2) =
        take ?b (drop ?off (take (16 * unat t) out2)) @ drop ?b (drop ?off (take (16 * unat t) out2)) @
        rb_contents (la_ring la2)" by (simp only: append_assoc [symmetric] append_take_drop_id)
    also have "\<dots> = take ?b (rb_contents ?rb) @ rb_contents rb' @ ys"
      using ys t2 unfolding s by (simp add: add.commute)
    also have "\<dots> = rb_contents ?rb @ ys" using rb'(2) by (simp add: append_assoc [symmetric])
    finally show ?thesis
      using p(1-3,5) t1 len xs add unfolding res capture_post_def by auto
  qed
  show ?thesis
    by (rule that [of n o1 "?la1\<lparr>la_ring := rb'\<rparr>"]) (use r tk len add le rb' post in simp_all)
qed

lemma capture_loop_post:
  assumes env: "sampler_env env" and t: "0 < timeout" "clk j - start \<ge> ucast timeout * 1000000"
  shows "k \<le> j \<Longrightarrow> ring_whole (la_ring la) \<Longrightarrow> unat got \<le> unat m \<Longrightarrow> 16 * unat m \<le> length out \<Longrightarrow>
    length out < 2 ^ 64 \<Longrightarrow>
    \<exists>r. capture_loop env clk start timeout m k la out got = Some r \<and> capture_post m got out (la_ring la) r"
proof (induction "j - k" arbitrary: k la out got rule: less_induct)
  case less
  show ?case
  proof (cases "got < m")
    case False
    then show ?thesis
      using less.prems capture_post_refl [of got m la] by (subst capture_loop.simps) simp
  next
    case True
    then have lt: "unat got < unat m" by (simp add: word_less_nat_alt)
    obtain n out' la' where st: "edt_logic_analyzer_read_samples (Some (la\<lparr>la_ring := env k (la_ring la)\<rparr>))
         (Some (drop (16 * unat got) out)) (m - got) = (n, Some (drop (16 * unat got) out'), Some la')"
      and o': "take (16 * unat got) out' = take (16 * unat got) out" "length out' = length out"
      and n: "unat (got + n) \<le> unat m" and w: "ring_whole (la_ring la')"
      and post: "\<And>r. capture_post m (got + n) out' (la_ring la') r \<Longrightarrow> capture_post m got out (la_ring la) r"
      using capture_post_step [OF env less.prems(2) lt less.prems(4,5)] by metis
    have cat: "take (16 * unat got) out @ drop (16 * unat got) out' = out'"
      using o' by (metis append_take_drop_id)
    have here: "\<exists>r. Some (got + n, out', la') = Some r \<and> capture_post m got out (la_ring la) r"
      using post [OF capture_post_refl [OF n w refl]] by blast
    have step: "capture_loop env clk start timeout m k la out got =
        (if got + n \<ge> m \<or> clk k - start \<ge> ucast timeout * 1000000 then Some (got + n, out', la')
         else capture_loop env clk start timeout m (Suc k) la' out' (got + n))"
      using True t(1) by (subst capture_loop.simps) (simp add: Let_def st cat)
    have more: "\<exists>r. capture_loop env clk start timeout m (Suc k) la' out' (got + n) = Some r \<and>
        capture_post m got out (la_ring la) r" if "\<not> clk k - start \<ge> ucast timeout * 1000000"
    proof -
      have "Suc k \<le> j" using that t(2) less.prems(1) by (cases "k = j") auto
      then obtain r where
        "capture_loop env clk start timeout m (Suc k) la' out' (got + n) = Some r"
        "capture_post m (got + n) out' (la_ring la') r"
        using less.hyps [OF _ _ w n, of "Suc k" out'] less.prems o'(2) by fastforce
      then show ?thesis using post by blast
    qed
    show ?thesis
      unfolding step using here more by (cases "clk k - start \<ge> ucast timeout * 1000000") auto
  qed
qed

text \<open>A capture with a time limit returns once the clock has passed the limit, whatever the sampler
  adds to the ring in the meantime, with at most the samples asked for; the bytes delivered,
  followed by what is left in the ring, are what the ring held at the start followed by what the
  sampler added: nothing is lost, repeated or reordered.\<close>

lemma capture_blocking_stream:
  assumes "sampler_env env" and "0 < timeout" and "clk j - start \<ge> ucast timeout * 1000000"
    and "ring_whole (la_ring la)" and "16 * unat m \<le> length out" and "length out < 2 ^ 64"
  shows "\<exists>n out' la'. edt_logic_analyzer_capture_blocking env clk start (Some la) (Some out) m timeout =
      Some (n, Some out', Some la') \<and> unat n \<le> unat m \<and> length out' = length out \<and> ring_whole (la_ring la') \<and>
      (\<exists>ys. take (16 * unat n) out' @ rb_contents (la_ring la') = rb_contents (la_ring la) @ ys)"
proof (cases "m = 0")
  case True
  then show ?thesis using assms(4) by (simp add: edt_logic_analyzer_capture_blocking_def)
next
  case False
  obtain n out' la' where "capture_loop env clk start timeout m 0 la out 0 = Some (n, out', la')"
    "capture_post m 0 out (la_ring la) (n, out', la')"
    using capture_loop_post [where k = 0 and la = la and got = 0 and m = m and out = out and env = env and clk = clk and
      start = start and timeout = timeout and j = j] assms
    by auto
  then show ?thesis
    using False by (simp add: edt_logic_analyzer_capture_blocking_def capture_post_def)
qed

section \<open>Instances\<close>

definition ring_demo :: ring_buffer where
  "ring_demo = \<lparr>rb_data = Some (replicate 32 0), rb_capacity = 32, rb_mask = 31,
                rb_write_pos = 0, rb_read_pos = 0\<rparr>"

lemma ring_demo_contents [simp]: "rb_contents ring_demo = []" "rb_capacity ring_demo = 32"
  by (simp_all add: ring_demo_def rb_contents_def rb_used_def)

lemma ring_demo_whole: "ring_whole ring_demo"
proof -
  have "rb_wf ring_demo" by (auto simp: rb_wf_def ring_demo_def intro: bexI [of _ 5])
  then show ?thesis unfolding ring_whole_def ring_demo_contents by simp
qed

definition la_demo :: "(u64 \<Rightarrow> u8) \<Rightarrow> int \<Rightarrow> logic_analyzer" where
  "la_demo f armed =
     \<lparr>la_config = \<lparr>sample_rate_hz = 1000, max_sample_rate_hz = 1000000, ring_capacity_samples = 2,
                   simulate_signal = 0\<rparr>,
      la_ring = ring_demo, la_trigger = \<lparr>mode = EDGE_RISING, channel = 0\<rparr>, la_reader = Some f,
      la_running = 1, la_armed = armed, la_total_samples = 0, la_dropped_samples = 0,
      la_last_raw_value = 0, la_period_ns = 1000000, la_synthetic_counter = 0\<rparr>"

lemma la_demo_raw: "raw_at (la_demo f armed) k = f (of_nat k)"
  by (simp add: raw_at_def read_raw_def la_demo_def)

lemma la_demo_fires:
  "fires_at (la_demo f armed) k = (\<not> bit (if k = 0 then 0 else f (of_nat (k - 1))) 0 \<and> bit (f (of_nat k)) 0)"
  by (simp add: fires_at_def la_demo_raw trigger_matched_bits) (simp add: la_demo_def Let_def)

definition one_pulse :: "u64 \<Rightarrow> u8" where
  "one_pulse k = (if k = 2 then 1 else 0)"

theorem trigger_gate_witness:
  "fill_batch 3 50 (la_demo one_pulse 1) [] =
   Some ((skip_samples (2 + 3) (la_demo one_pulse 1))\<lparr>la_armed := 0\<rparr>,
     [\<lparr>timestamp_ns = 50, channels = 1\<rparr>, \<lparr>timestamp_ns = 1000050, channels = 0\<rparr>,
      \<lparr>timestamp_ns = 2000050, channels = 0\<rparr>])"
proof -
  have a: "la_armed (la_demo one_pulse 1) \<noteq> 0" by (simp add: la_demo_def)
  have p: "la_period_ns (la_demo one_pulse 1) = 1000000" by (simp add: la_demo_def)
  have f: "\<not> fires_at (la_demo one_pulse 1) j" if "j < 2" for j
    using that by (cases j) (simp_all add: la_demo_fires one_pulse_def)
  have "fires_at (la_demo one_pulse 1) 2" by (simp add: la_demo_fires one_pulse_def)
  with trigger_gate [OF a, of 3 2 50] f show ?thesis
    by (simp add: batch_of_def la_demo_raw one_pulse_def upt_rec p)
qed

theorem unfired_trigger_hangs_witness:
  "edt_logic_sample_thread [5] (la_demo (\<lambda>_. 0) 1) = None"
  by (rule unfired_trigger_hangs) (simp_all add: la_demo_fires, simp_all add: la_demo_def)

theorem sampling_turn_appends_witness:
  "\<exists>la' sleep. edt_logic_sample_turn 7 (la_demo one_pulse 0) = Some (la', sleep) \<and>
     ring_samples (la_ring la') =
       [\<lparr>timestamp_ns = 7, channels = 0\<rparr>, \<lparr>timestamp_ns = 1000007, channels = 0\<rparr>] \<and>
     la_dropped_samples la' = 30 \<and> la_total_samples la' = 32"
proof -
  let ?la = "la_demo one_pulse 0"
  have f: "la_armed ?la = 0" "la_ring ?la = ring_demo" "la_period_ns ?la = 1000000"
    "la_dropped_samples ?la = 0" "la_total_samples ?la = 0" "batch_target ?la = 32"
    by (simp_all add: la_demo_def batch_target_def)
  have r: "ring_samples ring_demo = []" "sample_room ring_demo = 2"
    by (simp_all add: ring_samples_def sample_room_def ring_demo_contents)
  have b: "take 2 (batch_of 7 ?la 0 0 32) =
      [\<lparr>timestamp_ns = 7, channels = 0\<rparr>, \<lparr>timestamp_ns = 1000007, channels = 0\<rparr>]"
    by (simp add: batch_of_def la_demo_raw one_pulse_def f(3) take_map [symmetric] numeral_eq_Suc upt_rec)
  show ?thesis
    using sampling_turn_appends [of ?la 7] ring_demo_whole b by (auto simp: f r Let_def)
qed

theorem read_samples_refines_witness:
  "\<exists>la'. edt_logic_analyzer_read_samples (Some (la_demo one_pulse 0)) (Some (replicate 16 9)) 1 =
     (0, Some (replicate 16 9), Some la')"
  using read_samples_refines [of "la_demo one_pulse 0" 1 "replicate 16 9"] ring_demo_whole
  by (auto simp: la_demo_def ring_samples_def unat_eq_0)

theorem analyzer_invariant_witness:
  "\<exists>la la'. edt_logic_analyzer_init True (Some (la_demo one_pulse 0)) NULL = Some (0, Some la) \<and>
     la_run [CallSetRate 0xFFFFFFFF, CallSetTrigger (Some \<lparr>mode = LEVEL_LOW, channel = 7\<rparr>), CallArm] la =
       Some la' \<and> la_ok la' \<and> sample_rate_hz (la_config la') = 100000000"
proof -
  have cap: "ring_capacity_samples (normalise_config NULL) = 65536"
    and mx: "max_sample_rate_hz (normalise_config NULL) = 100000000"
    by (simp_all add: normalise_config_def Let_def la_defaults_def EDT_MAX_SAMPLE_RATE_HZ_def)
  have n: "(2::csize) \<le> 65536 * of_nat sample_size" "65536 * of_nat sample_size \<le> (2 ^ 63 :: csize)"
    by (simp_all add: sample_size_def)
  obtain rb' where rb': "edt_ring_buffer_init True (Some ring_zero) (65536 * of_nat sample_size) = Some (0, Some rb')"
    using ring_init_wf [OF n] by blast
  obtain la where la: "edt_logic_analyzer_init True (Some (la_demo one_pulse 0)) NULL = Some (0, Some la)"
    "la_config la = normalise_config NULL"
    using rb' by (simp add: edt_logic_analyzer_init_def Let_def cap)
  obtain la' where la': "la_run [CallSetRate 0xFFFFFFFF, CallSetTrigger (Some \<lparr>mode = LEVEL_LOW, channel = 7\<rparr>),
      CallArm] la = Some la'" "sample_rate_hz (la_config la') = 100000000"
    by (simp add: edt_logic_analyzer_set_sample_rate_def edt_logic_analyzer_set_trigger_def
        edt_logic_analyzer_arm_def Let_def la(2) mx EDT_MAX_CHANNELS_def)
  show ?thesis
    using analyzer_invariant [OF la(1) _ la'(1)] la(1) la' cap by auto
qed

end
