(* ===== verification/CText.thy ===== *)
theory CText
  imports Prelude
begin

text \<open>
  The C library's text functions that both programs use: \<open>isspace\<close>, \<open>strstr\<close>,
  \<open>strchr\<close>, \<open>strtol\<close>, \<open>snprintf\<close> and the conversions of its formats. A C string is the list
  of its characters before the terminating NUL; a character array is a list with the NULs in it.
\<close>

section \<open>Characters and searches\<close>

definition NUL :: char where
  "NUL = CHR 0x00"

definition c_isspace :: "char \<Rightarrow> bool" where
  "c_isspace c \<longleftrightarrow> c \<in> {CHR '' '', CHR 0x09, CHR 0x0A, CHR 0x0B, CHR 0x0C, CHR 0x0D}"

definition c_isdigit :: "char \<Rightarrow> bool" where
  "c_isdigit c \<longleftrightarrow> (48 :: nat) \<le> of_char c \<and> of_char c \<le> (57 :: nat)"

fun has_prefix :: "string \<Rightarrow> string \<Rightarrow> bool" where
  "has_prefix [] s = True"
| "has_prefix (p # ps) [] = False"
| "has_prefix (p # ps) (c # cs) = (p = c \<and> has_prefix ps cs)"

text \<open>The results of the searches are the rest of the string from the match on.\<close>

fun c_strstr :: "string \<Rightarrow> string \<Rightarrow> string ptr" where
  "c_strstr [] pat = (if pat = [] then Some [] else NULL)"
| "c_strstr (c # cs) pat = (if has_prefix pat (c # cs) then Some (c # cs) else c_strstr cs pat)"

definition c_strchr :: "string \<Rightarrow> char \<Rightarrow> string ptr" where
  "c_strchr s c = (case dropWhile (\<lambda>x. x \<noteq> c) s of [] \<Rightarrow> NULL | r \<Rightarrow> Some r)"

text \<open>The C string at the start of a character array: \<open>None\<close> when the array has no NUL.\<close>

definition c_string :: "char list \<Rightarrow> string option" where
  "c_string buf = (if NUL \<in> set buf then Some (takeWhile (\<lambda>c. c \<noteq> NUL) buf) else None)"

lemma has_prefix_append [simp]: "has_prefix p (p @ s)"
  by (induction p) simp_all

lemma has_prefix_iff: "has_prefix p s \<longleftrightarrow> (\<exists>r. s = p @ r)"
  by (induction p s rule: has_prefix.induct) auto

lemma c_strstr_Some: "c_strstr s pat = Some r \<Longrightarrow> has_prefix pat r \<and> (\<exists>q. s = q @ r)"
proof (induction s pat rule: c_strstr.induct)
  case (2 c cs pat)
  then show ?case by (auto split: if_splits intro: exI [of _ "[]"] exI [of _ "c # _"])
qed (auto split: if_splits)

lemma c_strstr_here: "c_strstr (pat @ s) pat = Some (pat @ s)"
  by (cases "pat @ s") (auto, metis has_prefix_append)

lemma c_strchr_found: "c \<notin> set p \<Longrightarrow> c_strchr (p @ c # s) c = Some (c # s)"
  by (induction p) (auto simp: c_strchr_def)

section \<open>Numbers in text\<close>

definition digit_char :: "nat \<Rightarrow> char" where
  "digit_char d = char_of (if d < 10 then 48 + d else 55 + d)"

lemma digit_char_simps:
  "digit_char 0 = CHR ''0''" "digit_char (Suc 0) = CHR ''1''" "digit_char 2 = CHR ''2''" "digit_char 3 = CHR ''3''"
  "digit_char 4 = CHR ''4''" "digit_char 5 = CHR ''5''" "digit_char 6 = CHR ''6''" "digit_char 7 = CHR ''7''"
  "digit_char 8 = CHR ''8''" "digit_char 9 = CHR ''9''" "digit_char 10 = CHR ''A''" "digit_char 11 = CHR ''B''"
  "digit_char 12 = CHR ''C''" "digit_char 13 = CHR ''D''" "digit_char 14 = CHR ''E''" "digit_char 15 = CHR ''F''"
  by (code_simp, code_simp, code_simp, code_simp, code_simp, code_simp, code_simp, code_simp,
      code_simp, code_simp, code_simp, code_simp, code_simp, code_simp, code_simp, code_simp)

fun dec_string :: "nat \<Rightarrow> string" where
  "dec_string n = (if n < 10 then [digit_char n] else dec_string (n div 10) @ [digit_char (n mod 10)])"

declare dec_string.simps [simp del]

fun hex_string :: "nat \<Rightarrow> string" where
  "hex_string n = (if n < 16 then [digit_char n] else hex_string (n div 16) @ [digit_char (n mod 16)])"

declare hex_string.simps [simp del]

text \<open>\<open>%d\<close> and \<open>%02X\<close>.\<close>

definition int_string :: "int \<Rightarrow> string" where
  "int_string v = (if v < 0 then CHR ''-'' # dec_string (nat (- v)) else dec_string (nat v))"

definition hex2_string :: "nat \<Rightarrow> string" where
  "hex2_string n = (if n < 16 then CHR ''0'' # hex_string n else hex_string n)"

definition digit_value :: "char \<Rightarrow> int" where
  "digit_value c = of_char c - 48"

definition digits_value :: "int \<Rightarrow> string \<Rightarrow> int" where
  "digits_value acc s = foldl (\<lambda>a c. 10 * a + digit_value c) acc s"

definition LONG_MAX :: int where
  "LONG_MAX = 2 ^ 63 - 1"

text \<open>\<open>strtol (s, &endp, 10)\<close>: the value, clamped to \<open>long\<close>, and \<open>endp\<close>; no digits leave
  \<open>endp\<close> at the start.\<close>

definition c_strtol :: "string \<Rightarrow> int \<times> string" where
  "c_strtol s =
     (let t = dropWhile c_isspace s;
          (neg, u) = (case t of
             CHR ''-'' # r \<Rightarrow> (True, r) | CHR ''+'' # r \<Rightarrow> (False, r) | _ \<Rightarrow> (False, t));
          ds = takeWhile c_isdigit u;
          v = digits_value 0 ds
      in if ds = [] then (0, s)
         else (if neg then max (- LONG_MAX - 1) (- v) else min LONG_MAX v, dropWhile c_isdigit u))"

text \<open>\<open>atoi\<close>, as the conversion of \<open>strtol\<close> to \<open>int\<close>.\<close>

definition c_atoi :: "string \<Rightarrow> int" where
  "c_atoi s = c_int (fst (c_strtol s))"

section \<open>snprintf\<close>

text \<open>The C string that \<open>snprintf\<close> leaves in an array of \<open>n > 0\<close> characters, and the array.\<close>

definition snprintf_str :: "nat \<Rightarrow> string \<Rightarrow> string" where
  "snprintf_str n s = take (n - 1) s"

definition snprintf_buf :: "char list \<Rightarrow> string \<Rightarrow> char list" where
  "snprintf_buf buf s =
     (let t = snprintf_str (length buf) s in t @ [NUL] @ drop (length t + 1) buf)"

lemma length_snprintf_str: "0 < n \<Longrightarrow> length (snprintf_str n s) < n"
  by (simp add: snprintf_str_def)

lemma snprintf_str_id: "length s < n \<Longrightarrow> snprintf_str n s = s"
  by (simp add: snprintf_str_def)

lemma length_snprintf_buf: "buf \<noteq> [] \<Longrightarrow> length (snprintf_buf buf s) = length buf"
  by (cases buf) (simp_all add: snprintf_buf_def snprintf_str_def Let_def min_def)

lemma c_string_append: "NUL \<notin> set s \<Longrightarrow> c_string (s @ NUL # r) = Some s"
  by (auto simp: c_string_def takeWhile_tail)

lemma c_string_snprintf_buf:
  "NUL \<notin> set s \<Longrightarrow> c_string (snprintf_buf buf s) = Some (snprintf_str (length buf) s)"
  unfolding snprintf_buf_def Let_def append_Cons append_Nil
  by (rule c_string_append) (auto simp: snprintf_str_def dest: in_set_takeD)

section \<open>Printing and reading numbers back\<close>

lemma of_char_digit: "d < 10 \<Longrightarrow> of_char (digit_char d) = (48 + d :: nat)"
  by (simp add: digit_char_def)

lemma of_char_digit_int: "d < 10 \<Longrightarrow> of_char (digit_char d) = (48 + int d :: int)"
  using of_char_digit [of d] by (metis of_nat_add of_nat_numeral of_nat_of_char)

lemma digit_value_char [simp]: "d < 10 \<Longrightarrow> digit_value (digit_char d) = int d"
  by (simp add: digit_value_def of_char_digit_int)

lemma isdigit_char [simp]: "d < 10 \<Longrightarrow> c_isdigit (digit_char d)"
  by (simp add: c_isdigit_def of_char_digit)

lemma dec_string_digits: "list_all c_isdigit (dec_string n)"
  by (induction n rule: dec_string.induct) (subst dec_string.simps, simp)

lemma dec_string_not_Nil [simp]: "dec_string n \<noteq> []"
  by (subst dec_string.simps) simp

lemma digits_value_append: "digits_value a (s @ t) = digits_value (digits_value a s) t"
  by (simp add: digits_value_def)

lemma digits_value_dec: "digits_value 0 (dec_string n) = int n"
proof (induction n rule: dec_string.induct)
  case (1 n)
  then show ?case
    by (subst dec_string.simps) (simp add: digits_value_append, simp add: digits_value_def zdiv_int zmod_int)
qed

lemma digit_not_special:
  "c_isdigit c \<Longrightarrow> \<not> c_isspace c \<and> c \<noteq> CHR ''-'' \<and> c \<noteq> CHR ''+'' \<and> c \<noteq> NUL \<and> c \<noteq> CHR 0x22"
  by (auto simp: c_isdigit_def c_isspace_def NUL_def)

lemma takeWhile_dec:
  "(case r of [] \<Rightarrow> True | c # _ \<Rightarrow> \<not> c_isdigit c) \<Longrightarrow>
   takeWhile c_isdigit (dec_string n @ r) = dec_string n \<and> dropWhile c_isdigit (dec_string n @ r) = r"
  using dec_string_digits [of n] by (cases r) (auto simp: list_all_iff takeWhile_append dropWhile_append)

lemma strtol_int_string:
  assumes "- LONG_MAX - 1 \<le> v" "v \<le> LONG_MAX" and r: "case r of [] \<Rightarrow> True | c # _ \<Rightarrow> \<not> c_isdigit c"
  shows "c_strtol (int_string v @ r) = (v, r)"
proof (cases "v < 0")
  case True
  then show ?thesis
    using assms(1) takeWhile_dec [OF r, of "nat (- v)"]
    by (simp add: c_strtol_def int_string_def Let_def c_isspace_def digits_value_dec)
next
  case False
  obtain c cs where c: "dec_string (nat v) = c # cs" by (cases "dec_string (nat v)") auto
  then have "c_isdigit c" using dec_string_digits [of "nat v"] by simp
  note sp = digit_not_special [OF this]
  have "(case c # cs @ r of CHR ''-'' # r \<Rightarrow> (True, r) | CHR ''+'' # r \<Rightarrow> (False, r) | _ \<Rightarrow> (False, c # cs @ r)) =
      (False, c # cs @ r)" using sp by (auto split: char.splits bool.splits)
  then show ?thesis
    using False assms(2) takeWhile_dec [OF r, of "nat v"] sp
    by (simp add: c_strtol_def int_string_def Let_def c digits_value_dec [of "nat v", unfolded c])
qed

lemma dec_string_length: "n < 10 ^ Suc k \<Longrightarrow> length (dec_string n) \<le> Suc k"
proof (induction k arbitrary: n)
  case 0
  then show ?case by (subst dec_string.simps) simp
next
  case (Suc k)
  then have "n div 10 < 10 ^ Suc k" by (simp add: less_mult_imp_div_less)
  then have "length (dec_string (n div 10)) \<le> Suc k" using Suc.IH by blast
  then show ?case by (subst dec_string.simps) simp
qed

lemma int_string_length:
  assumes "- (2 ^ 31) \<le> i" "i < 2 ^ 31"
  shows "length (int_string i) \<le> 11"
proof -
  have "nat i < 10 ^ Suc 9" "nat (- i) < 10 ^ Suc 9" using assms by auto
  from this [THEN dec_string_length] show ?thesis by (simp add: int_string_def)
qed

lemma int_string_no_special:
  "c \<in> set (int_string v) \<Longrightarrow> c \<noteq> NUL \<and> c \<noteq> CHR 0x22"
  using dec_string_digits [of "nat v"] dec_string_digits [of "nat (- v)"] digit_not_special
  by (auto simp: int_string_def list_all_iff NUL_def split: if_splits)

end
