(* ===== verification/ProtocolDecoder.thy ===== *)
theory ProtocolDecoder
  imports LogicAnalyzer CText
begin

text \<open>
  The UART, I2C and SPI decoders of \<open>src/protocol/protocol_decoder.c\<close>. Each takes the array of
  samples with its count and returns the events it stores, in order; the count the C function
  returns is their number. Sample indices are natural numbers: no index exceeds the sample count by
  more than one UART frame, so \<open>size_t\<close> does not wrap. Reference encoders draw the line levels of
  the three protocols and the decoders are proved to invert them.
\<close>

section \<open>Events and configurations\<close>

datatype proto_type = PROTO_UART | PROTO_I2C | PROTO_SPI

record proto_event =
  ev_type :: proto_type
  ev_timestamp_ns :: u64
  value0 :: u32
  value1 :: u32
  summary :: string

record uart_config =
  rx_channel :: u8
  baudrate :: u32
  uart_rate_hz :: u32

record i2c_config =
  scl_channel :: u8
  sda_channel :: u8

record spi_config =
  clk_channel :: u8
  cs_channel :: u8
  mosi_channel :: u8
  miso_channel :: u8
  cpol :: u8
  cpha :: u8

definition edt_bit :: "u8 \<Rightarrow> u8 \<Rightarrow> u8" where
  "edt_bit v ch = drop_bit (unat ch) v AND 1"

abbreviation summary_size :: nat where
  "summary_size \<equiv> 96"

section \<open>UART\<close>

text \<open>The inner loop over the eight data bits: the final \<open>bit_index\<close>, \<open>sample_pos\<close> and value.\<close>

function uart_bits ::
  "logic_sample list \<Rightarrow> nat \<Rightarrow> u8 \<Rightarrow> nat \<Rightarrow> nat \<Rightarrow> nat \<Rightarrow> u8 \<Rightarrow> nat \<times> nat \<times> u8" where
  "uart_bits samples n ch spb bit_index sample_pos v =
     (if bit_index < 8 \<and> sample_pos < n
      then uart_bits samples n ch spb (Suc bit_index) (sample_pos + spb)
             (v OR push_bit bit_index (edt_bit (channels (samples ! sample_pos)) ch))
      else (bit_index, sample_pos, v))"
  by pat_completeness auto
termination by (relation "measure (\<lambda>(_, _, _, _, k, _, _). 8 - k)") auto

declare uart_bits.simps [simp del]

definition uart_event :: "u64 \<Rightarrow> u8 \<Rightarrow> proto_event" where
  "uart_event ts v =
     \<lparr>ev_type = PROTO_UART, ev_timestamp_ns = ts, value0 = ucast v, value1 = 0,
      summary = snprintf_str summary_size
        (''UART RX: 0x'' @ hex2_string (unat v) @ '' ('' @ dec_string (unat v) @ '')'')\<rparr>"

lemma uart_bits_pos: "sample_pos \<le> fst (snd (uart_bits samples n ch spb k sample_pos v))"
proof (induction samples n ch spb k sample_pos v rule: uart_bits.induct)
  case (1 samples n ch spb k pos v)
  then show ?case by (subst uart_bits.simps) (auto dest: add_leD1)
qed

lemma uart_bits_le: "(k', pos', v') = uart_bits samples n ch spb k pos v \<Longrightarrow> pos \<le> pos'"
  using uart_bits_pos [of pos samples n ch spb k v] by (metis fst_conv snd_conv)

function uart_loop ::
  "logic_sample list \<Rightarrow> nat \<Rightarrow> u8 \<Rightarrow> nat \<Rightarrow> nat \<Rightarrow> nat \<Rightarrow> proto_event list \<Rightarrow> proto_event list" where
  "uart_loop samples n ch spb max_events i events =
     (if i < n \<and> length events < max_events
      then
        (if edt_bit (channels (samples ! (i - 1))) ch = 1 \<and> edt_bit (channels (samples ! i)) ch = 0
         then
           (if i + spb div 2 \<ge> n then events
            else if edt_bit (channels (samples ! (i + spb div 2))) ch \<noteq> 0
            then uart_loop samples n ch spb max_events (i + 1) events
            else case uart_bits samples n ch spb 0 (i + spb + spb div 2) 0 of
              (bit_index, sample_pos, v) \<Rightarrow>
                if bit_index < 8 \<or> sample_pos \<ge> n then events
                else uart_loop samples n ch spb max_events (sample_pos + 1)
                  (if edt_bit (channels (samples ! sample_pos)) ch = 1
                   then events @ [uart_event (timestamp_ns (samples ! i)) v] else events))
         else uart_loop samples n ch spb max_events (i + 1) events)
      else events)"
  by pat_completeness auto
termination
  by (relation "measure (\<lambda>(_, n, _, _, _, i, _). n - i)") (auto dest!: uart_bits_le)

declare uart_loop.simps [simp del]

definition edt_decode_uart ::
  "logic_sample list ptr \<Rightarrow> nat \<Rightarrow> uart_config ptr \<Rightarrow> nat \<Rightarrow> proto_event list" where
  "edt_decode_uart samplesp sample_count cfgp max_events =
     (case (samplesp, cfgp) of
        (Some samples, Some cfg) \<Rightarrow>
          if max_events = 0 \<or> baudrate cfg = 0 \<or> uart_rate_hz cfg = 0 then []
          else if rx_channel cfg \<ge> 8 then []
          else let samples_per_bit = uart_rate_hz cfg div baudrate cfg
               in if samples_per_bit < 3 then []
                  else uart_loop samples sample_count (rx_channel cfg) (unat samples_per_bit) max_events 1 []
      | _ \<Rightarrow> [])"

section \<open>I2C\<close>

text \<open>
  The loop that the I2C and the SPI decoder share, over each sample with the one before it, while
  the event array has room.
\<close>

fun pair_loop :: "(logic_sample \<Rightarrow> logic_sample \<Rightarrow> 's \<Rightarrow> 's) \<Rightarrow> ('s \<Rightarrow> proto_event list) \<Rightarrow> nat \<Rightarrow> 's \<Rightarrow>
  logic_sample list \<Rightarrow> 's" where
  "pair_loop step events max_events st (prev # x # rest) =
     (if length (events st) < max_events
      then pair_loop step events max_events (step prev x st) (x # rest) else st)"
| "pair_loop step events max_events st _ = st"

record i2c_state =
  i2c_active :: bool
  bit_count :: u8
  current :: u8
  expect_ack :: bool
  i2c_events :: "proto_event list"

definition i2c_event :: "u64 \<Rightarrow> u8 \<Rightarrow> u8 \<Rightarrow> proto_event" where
  "i2c_event ts cur sda =
     \<lparr>ev_type = PROTO_I2C, ev_timestamp_ns = ts, value0 = ucast cur,
      value1 = (if sda = 0 then 1 else 0),
      summary = snprintf_str summary_size
        (''I2C BYTE: 0x'' @ hex2_string (unat cur) @ '' ACK:'' @ (if sda = 0 then ''Y'' else ''N''))\<rparr>"

text \<open>The body of the loop for the samples \<open>prev\<close> and \<open>x\<close>.\<close>

definition i2c_step :: "i2c_config \<Rightarrow> logic_sample \<Rightarrow> logic_sample \<Rightarrow> i2c_state \<Rightarrow> i2c_state" where
  "i2c_step cfg prev x st =
     (let prev_scl = edt_bit (channels prev) (scl_channel cfg);
          prev_sda = edt_bit (channels prev) (sda_channel cfg);
          scl = edt_bit (channels x) (scl_channel cfg);
          sda = edt_bit (channels x) (sda_channel cfg)
      in if prev_sda = 1 \<and> sda = 0 \<and> scl = 1
         then st\<lparr>i2c_active := True, bit_count := 0, current := 0, expect_ack := False\<rparr>
         else if prev_sda = 0 \<and> sda = 1 \<and> scl = 1 then st\<lparr>i2c_active := False\<rparr>
         else if \<not> i2c_active st then st
         else if prev_scl = 0 \<and> scl = 1
         then (if \<not> expect_ack st
               then let st1 = st\<lparr>current := push_bit 1 (current st) OR sda, bit_count := bit_count st + 1\<rparr>
                    in if bit_count st1 = 8 then st1\<lparr>expect_ack := True, bit_count := 0\<rparr> else st1
               else st\<lparr>i2c_events := i2c_events st @ [i2c_event (timestamp_ns x) (current st) sda],
                       current := 0, expect_ack := False\<rparr>)
         else st)"

definition i2c_idle :: i2c_state where
  "i2c_idle = \<lparr>i2c_active = False, bit_count = 0, current = 0, expect_ack = False, i2c_events = []\<rparr>"

definition edt_decode_i2c ::
  "logic_sample list ptr \<Rightarrow> nat \<Rightarrow> i2c_config ptr \<Rightarrow> nat \<Rightarrow> proto_event list" where
  "edt_decode_i2c samplesp sample_count cfgp max_events =
     (case (samplesp, cfgp) of
        (Some samples, Some cfg) \<Rightarrow>
          if max_events = 0 then []
          else if scl_channel cfg \<ge> 8 \<or> sda_channel cfg \<ge> 8 then []
          else i2c_events (pair_loop (i2c_step cfg) i2c_events max_events i2c_idle (take sample_count samples))
      | _ \<Rightarrow> [])"

section \<open>SPI\<close>

record spi_state =
  spi_active :: bool
  mosi_byte :: u8
  miso_byte :: u8
  spi_bits :: u8
  spi_events :: "proto_event list"

definition spi_event :: "u64 \<Rightarrow> u8 \<Rightarrow> u8 \<Rightarrow> proto_event" where
  "spi_event ts mosi miso =
     \<lparr>ev_type = PROTO_SPI, ev_timestamp_ns = ts, value0 = ucast mosi, value1 = ucast miso,
      summary = snprintf_str summary_size
        (''SPI MOSI:0x'' @ hex2_string (unat mosi) @ '' MISO:0x'' @ hex2_string (unat miso))\<rparr>"

definition spi_idle_level :: "spi_config \<Rightarrow> u8" where
  "spi_idle_level cfg = (if cpol cfg \<noteq> 0 then 1 else 0)"

definition sample_on_rising :: "spi_config \<Rightarrow> bool" where
  "sample_on_rising cfg \<longleftrightarrow> (cpha cfg = 0 \<and> cpol cfg = 0) \<or> (cpha cfg = 1 \<and> cpol cfg = 1)"

definition spi_step :: "spi_config \<Rightarrow> logic_sample \<Rightarrow> logic_sample \<Rightarrow> spi_state \<Rightarrow> spi_state" where
  "spi_step cfg prev x st =
     (let prev_clk = edt_bit (channels prev) (clk_channel cfg);
          clk = edt_bit (channels x) (clk_channel cfg);
          cs = edt_bit (channels x) (cs_channel cfg)
      in if cs = 1 then st\<lparr>spi_active := False, spi_bits := 0\<rparr>
         else
           let st0 = (if \<not> spi_active st
                      then st\<lparr>spi_active := True, spi_bits := 0, mosi_byte := 0, miso_byte := 0\<rparr> else st);
               sample_edge = (if sample_on_rising cfg then prev_clk = 0 \<and> clk = 1
                              else prev_clk = 1 \<and> clk = 0)
           in if \<not> sample_edge then st0
              else if prev_clk = spi_idle_level cfg \<and> spi_bits st0 = 0 \<and> cpha cfg = 1 then st0
              else
                let mosi = push_bit 1 (mosi_byte st0) OR edt_bit (channels x) (mosi_channel cfg);
                    miso = push_bit 1 (miso_byte st0) OR edt_bit (channels x) (miso_channel cfg);
                    bits = spi_bits st0 + 1
                in if bits = 8
                   then st0\<lparr>spi_events := spi_events st0 @ [spi_event (timestamp_ns x) mosi miso],
                            spi_bits := 0, mosi_byte := 0, miso_byte := 0\<rparr>
                   else st0\<lparr>mosi_byte := mosi, miso_byte := miso, spi_bits := bits\<rparr>)"

definition spi_idle :: spi_state where
  "spi_idle = \<lparr>spi_active = False, mosi_byte = 0, miso_byte = 0, spi_bits = 0, spi_events = []\<rparr>"

definition edt_decode_spi ::
  "logic_sample list ptr \<Rightarrow> nat \<Rightarrow> spi_config ptr \<Rightarrow> nat \<Rightarrow> proto_event list" where
  "edt_decode_spi samplesp sample_count cfgp max_events =
     (case (samplesp, cfgp) of
        (Some samples, Some cfg) \<Rightarrow>
          if max_events = 0 then []
          else if clk_channel cfg \<ge> 8 \<or> cs_channel cfg \<ge> 8 \<or> mosi_channel cfg \<ge> 8 \<or> miso_channel cfg \<ge> 8
          then []
          else spi_events (pair_loop (spi_step cfg) spi_events max_events spi_idle (take sample_count samples))
      | _ \<Rightarrow> [])"

section \<open>UART: the decoder inverts the line\<close>

lemma edt_bit_of_bool: "edt_bit v ch = of_bool (bit v (unat ch))"
  by (rule bit_word_eqI) (auto simp: edt_bit_def bit_simps)

lemma edt_bit_simps [simp]:
  "edt_bit v ch = 1 \<longleftrightarrow> bit v (unat ch)"
  "edt_bit v ch = 0 \<longleftrightarrow> \<not> bit v (unat ch)"
  by (simp_all add: edt_bit_of_bool)

text \<open>The levels of one channel.\<close>

definition line :: "u8 \<Rightarrow> logic_sample list \<Rightarrow> bool list" where
  "line ch samples = map (\<lambda>x. bit (channels x) (unat ch)) samples"

text \<open>Start bit low, eight data bits from the lowest, stop bit high, each \<open>spb\<close> samples long.\<close>

definition frame_level :: "u8 \<Rightarrow> nat \<Rightarrow> bool" where
  "frame_level b k = (if k = 0 then False else if k = 9 then True else bit b (k - 1))"

definition uart_frame :: "nat \<Rightarrow> u8 \<Rightarrow> bool list" where
  "uart_frame spb b = map (\<lambda>j. frame_level b (j div spb)) [0..<10 * spb]"

text \<open>An idle line, then each byte's frame followed by its idle gap.\<close>

definition uart_line :: "nat \<Rightarrow> nat \<Rightarrow> (u8 \<times> nat) list \<Rightarrow> bool list" where
  "uart_line spb idle frames =
     replicate idle True @ concat (map (\<lambda>(b, gap). uart_frame spb b @ replicate gap True) frames)"

fun uart_starts :: "nat \<Rightarrow> nat \<Rightarrow> (u8 \<times> nat) list \<Rightarrow> (nat \<times> u8) list" where
  "uart_starts spb p [] = []"
| "uart_starts spb p ((b, gap) # frames) = (p, b) # uart_starts spb (p + 10 * spb + gap) frames"

lemma length_uart_frame [simp]: "length (uart_frame spb b) = 10 * spb"
  by (simp add: uart_frame_def)

lemma nth_uart_frame: "j < 10 * spb \<Longrightarrow> uart_frame spb b ! j = frame_level b (j div spb)"
  by (simp add: uart_frame_def)

lemma uart_bits_read:
  assumes "\<And>k. k0 \<le> k \<Longrightarrow> k < 8 \<Longrightarrow>
      pos + (k - k0) * spb < n \<and> bit (channels (samples ! (pos + (k - k0) * spb))) (unat ch) = bit b k"
    and "k0 \<le> 8"
  shows "uart_bits samples n ch spb k0 pos v = (8, pos + (8 - k0) * spb, v OR (b AND NOT (mask k0)))"
  using assms
proof (induction "8 - k0" arbitrary: k0 pos v)
  case 0
  then have "k0 = 8" by simp
  moreover have "NOT (mask 8) = (0 :: u8)" by (simp add: mask_eq_exp_minus_1)
  ultimately show ?case by (subst uart_bits.simps) simp
next
  case (Suc d)
  then have k0: "k0 < 8" by simp
  let ?v = "v OR push_bit k0 (edt_bit (channels (samples ! pos)) ch)"
  have here: "pos < n" "bit (channels (samples ! pos)) (unat ch) = bit b k0"
    using Suc.prems(1) [of k0] k0 by simp_all
  have "uart_bits samples n ch spb k0 pos v = uart_bits samples n ch spb (Suc k0) (pos + spb) ?v"
    using k0 here by (subst uart_bits.simps) simp
  also have "\<dots> = (8, pos + spb + (8 - Suc k0) * spb, ?v OR (b AND NOT (mask (Suc k0))))"
  proof (rule Suc.hyps(1))
    show "d = 8 - Suc k0" "Suc k0 \<le> 8" using Suc.hyps(2) k0 by simp_all
  next
    fix k assume k: "Suc k0 \<le> k" "k < 8"
    then have "pos + spb + (k - Suc k0) * spb = pos + (k - k0) * spb"
      by (metis Suc_diff_Suc add.assoc less_eq_Suc_le mult_Suc)
    then show "pos + spb + (k - Suc k0) * spb < n \<and>
        bit (channels (samples ! (pos + spb + (k - Suc k0) * spb))) (unat ch) = bit b k"
      unfolding \<open>pos + spb + (k - Suc k0) * spb = pos + (k - k0) * spb\<close>
      using Suc.prems(1) [of k] k by simp
  qed
  also have "pos + spb + (8 - Suc k0) * spb = pos + (8 - k0) * spb"
    using k0 by (metis Suc_diff_Suc add.assoc mult_Suc)
  also have "?v OR (b AND NOT (mask (Suc k0))) = v OR (b AND NOT (mask k0))"
    by (rule bit_word_eqI) (use here(2) in \<open>auto simp: edt_bit_of_bool bit_simps less_Suc_eq not_less\<close>)
  finally show ?case .
qed

lemma uart_skip_high:
  assumes "\<And>j. i \<le> j \<Longrightarrow> j < p \<Longrightarrow> bit (channels (samples ! j)) (unat ch)" and "i \<le> p" "p \<le> n"
  shows "uart_loop samples n ch spb m i events = uart_loop samples n ch spb m p events"
  using assms
proof (induction "p - i" arbitrary: i)
  case (Suc d)
  show ?case
  proof (cases "length events < m")
    case True
    have "uart_loop samples n ch spb m i events = uart_loop samples n ch spb m (i + 1) events"
      using Suc.prems(1) [of i] Suc.hyps(2) Suc.prems(3) True by (subst uart_loop.simps) auto
    then show ?thesis using Suc.hyps(1) [of "Suc i"] Suc.hyps(2) Suc.prems by simp
  next
    case False
    then show ?thesis by (subst (1 2) uart_loop.simps) simp
  qed
qed simp

lemma uart_frame_step:
  assumes spb: "3 \<le> spb" and p: "1 \<le> p" "p + 10 * spb + gap \<le> n"
    and before: "bit (channels (samples ! (p - 1))) (unat ch)"
    and frame: "\<And>j. j < 10 * spb \<Longrightarrow> bit (channels (samples ! (p + j))) (unat ch) = frame_level b (j div spb)"
    and after: "\<And>j. p + 10 * spb \<le> j \<Longrightarrow> j < p + 10 * spb + gap \<Longrightarrow> bit (channels (samples ! j)) (unat ch)"
    and room: "length events < m"
  shows "uart_loop samples n ch spb m p events =
    uart_loop samples n ch spb m (p + 10 * spb + gap)
      (events @ [uart_event (timestamp_ns (samples ! p)) b])"
proof -
  let ?h = "spb div 2"
  have h: "1 \<le> ?h" "?h < spb" using spb by simp_all
  have at: "bit (channels (samples ! (p + k * spb + ?h))) (unat ch) = frame_level b k" if "k < 10" for k
  proof -
    have "k * spb + ?h < Suc k * spb" using h by simp
    also have "\<dots> \<le> 10 * spb" using that by (intro mult_le_mono1) simp
    finally show ?thesis using frame [of "k * spb + ?h"] h by (simp add: add.assoc)
  qed
  have low: "\<not> bit (channels (samples ! p)) (unat ch)"
    using frame [of 0] spb by (simp add: frame_level_def)
  have mid: "\<not> bit (channels (samples ! (p + ?h))) (unat ch)"
    using at [of 0] by (simp add: frame_level_def)
  have bits: "uart_bits samples n ch spb 0 (p + spb + ?h) 0 = (8, p + 9 * spb + ?h, b)"
  proof -
    have "uart_bits samples n ch spb 0 (p + spb + ?h) 0 =
        (8, p + spb + ?h + (8 - 0) * spb, 0 OR (b AND NOT (mask 0)))"
    proof (rule uart_bits_read)
      fix k :: nat assume k: "k < 8"
      have e: "p + spb + ?h + (k - 0) * spb = p + Suc k * spb + ?h" by simp
      have "Suc k * spb \<le> 8 * spb" using k by (intro mult_le_mono1) simp
      then have "p + Suc k * spb + ?h < n" using p(2) h by linarith
      then show "p + spb + ?h + (k - 0) * spb < n \<and>
          bit (channels (samples ! (p + spb + ?h + (k - 0) * spb))) (unat ch) = bit b k"
        unfolding e using at [of "Suc k"] k by (simp add: frame_level_def)
    qed simp
    then show ?thesis by simp
  qed
  have stop: "bit (channels (samples ! (p + 9 * spb + ?h))) (unat ch)"
    using at [of 9] by (simp add: frame_level_def)
  have "p + 9 * spb + ?h < n" using p h by linarith
  have "uart_loop samples n ch spb m p events = uart_loop samples n ch spb m (p + 9 * spb + ?h + 1)
      (events @ [uart_event (timestamp_ns (samples ! p)) b])"
    using p h room before low mid stop \<open>p + 9 * spb + ?h < n\<close> by (subst uart_loop.simps) (simp add: bits)
  also have "\<dots> = uart_loop samples n ch spb m (p + 10 * spb + gap)
      (events @ [uart_event (timestamp_ns (samples ! p)) b])"
  proof (rule uart_skip_high)
    fix j assume j: "p + 9 * spb + ?h + 1 \<le> j" "j < p + 10 * spb + gap"
    show "bit (channels (samples ! j)) (unat ch)"
    proof (cases "j < p + 10 * spb")
      case True
      then have "(j - p) div spb = 9" using j h by (intro div_nat_eqI) simp_all
      then show ?thesis using frame [of "j - p"] True j by (simp add: frame_level_def)
    next
      case False
      then show ?thesis using after j by simp
    qed
  qed (use p h in simp_all)
  finally show ?thesis .
qed

lemma uart_frames_decoded:
  assumes "3 \<le> spb" and "1 \<le> p" and "p \<le> length samples"
    and "bit (channels (samples ! (p - 1))) (unat ch)"
    and "line ch (drop p samples) = uart_line spb 0 frames"
  shows "uart_loop samples (length samples) ch spb m p events =
    events @ map (\<lambda>(q, b). uart_event (timestamp_ns (samples ! q)) b)
      (take (m - length events) (uart_starts spb p frames))"
  using assms
proof (induction frames arbitrary: p events)
  case Nil
  then have "length samples \<le> p" by (simp add: line_def uart_line_def)
  then show ?case by (subst uart_loop.simps) simp
next
  case (Cons f frames)
  obtain b gap where f: "f = (b, gap)" by fastforce
  let ?q = "p + 10 * spb + gap"
  have ln: "line ch (drop p samples) = uart_frame spb b @ replicate gap True @ uart_line spb 0 frames"
    using Cons.prems(5) f by (simp add: uart_line_def)
  have len: "length samples - p = 10 * spb + gap + length (uart_line spb 0 frames)"
    using arg_cong [OF ln, of length] by (simp add: line_def)
  then have q: "?q \<le> length samples" using Cons.prems(3) by simp
  have nth: "bit (channels (samples ! (p + j))) (unat ch) =
      (uart_frame spb b @ replicate gap True @ uart_line spb 0 frames) ! j" if "p + j < length samples" for j
    using that Cons.prems(3) by (simp add: ln [symmetric] line_def)
  have frame: "bit (channels (samples ! (p + j))) (unat ch) = frame_level b (j div spb)" if "j < 10 * spb" for j
    using nth [of j] that q by (simp add: nth_append nth_uart_frame)
  have after: "bit (channels (samples ! j)) (unat ch)" if "p + 10 * spb \<le> j" "j < ?q" for j
  proof -
    have "\<not> j - p < 10 * spb" "j - p - 10 * spb < gap" "p + (j - p) < length samples" "p + (j - p) = j"
      using that q by linarith+
    then show ?thesis using nth [of "j - p"] by (simp add: nth_append)
  qed
  show ?case
  proof (cases "length events < m")
    case True
    have last: "bit (channels (samples ! (?q - 1))) (unat ch)"
    proof (cases "gap = 0")
      case gap: True
      have "(10 * spb - 1) div spb = 9" using Cons.prems(1) by (intro div_nat_eqI) simp_all
      then show ?thesis using frame [of "10 * spb - 1"] Cons.prems(1) gap by (simp add: frame_level_def)
    next
      case False
      then show ?thesis using after [of "?q - 1"] by simp
    qed
    have rest: "line ch (drop ?q samples) = uart_line spb 0 frames"
    proof -
      have "line ch (drop ?q samples) = drop (10 * spb + gap) (line ch (drop p samples))"
        by (simp add: line_def drop_map add_ac)
      then show ?thesis by (simp add: ln)
    qed
    have "uart_loop samples (length samples) ch spb m p events =
        uart_loop samples (length samples) ch spb m ?q
          (events @ [uart_event (timestamp_ns (samples ! p)) b])"
      using Cons.prems(1,2,4) q True by (intro uart_frame_step) (simp_all only: frame after)
    also have "\<dots> = events @ [uart_event (timestamp_ns (samples ! p)) b] @
        map (\<lambda>(q, b). uart_event (timestamp_ns (samples ! q)) b)
          (take (m - Suc (length events)) (uart_starts spb ?q frames))"
      using Cons.IH [of ?q] Cons.prems(1) q last rest by simp
    finally show ?thesis
      using True f by (simp add: Suc_diff_Suc [symmetric])
  next
    case False
    then show ?thesis by (subst uart_loop.simps) simp
  qed
qed

text \<open>The decoder reads the samples it is told of and no others.\<close>

lemma uart_bits_take: "uart_bits (take n samples) n ch spb k pos v = uart_bits samples n ch spb k pos v"
proof (induction samples n ch spb k pos v rule: uart_bits.induct)
  case (1 samples n ch spb k pos v)
  then show ?case by (subst (1 2) uart_bits.simps) simp
qed

lemma uart_loop_take: "uart_loop (take n samples) n ch spb m i events = uart_loop samples n ch spb m i events"
proof (induction samples n ch spb m i events rule: uart_loop.induct)
  case (1 samples n ch spb m i events)
  then show ?case by (subst (1 2) uart_loop.simps) (auto simp: uart_bits_take split: prod.split)
qed

lemma decode_uart_take: "edt_decode_uart (Some (take n samples)) n cfg m = edt_decode_uart (Some samples) n cfg m"
  by (simp add: edt_decode_uart_def uart_loop_take Let_def split: option.split)

lemma uart_line_decoded:
  assumes "rx_channel cfg < 8" and "baudrate cfg \<noteq> 0" and "3 \<le> uart_rate_hz cfg div baudrate cfg"
    and "spb = unat (uart_rate_hz cfg div baudrate cfg)" and "1 \<le> idle"
    and "line (rx_channel cfg) samples = uart_line spb idle frames"
  shows "edt_decode_uart (Some samples) (length samples) (Some cfg) max_events =
    map (\<lambda>(p, b). uart_event (timestamp_ns (samples ! p)) b) (take max_events (uart_starts spb idle frames))"
proof -
  let ?ch = "rx_channel cfg"
  have spb: "3 \<le> spb" using assms(3,4) by (simp add: word_le_nat_alt)
  have guards: "(rx_channel cfg \<ge> 8) = False" "(uart_rate_hz cfg div baudrate cfg < 3) = False"
    using assms(1,3) by simp_all
  have rate: "uart_rate_hz cfg \<noteq> 0" using assms(3) by (auto simp: word_le_nat_alt)
  have len: "idle \<le> length samples"
    using arg_cong [OF assms(6), of length] by (simp add: line_def uart_line_def)
  have high: "bit (channels (samples ! j)) (unat ?ch)" if "j < idle" for j
  proof -
    have "line ?ch samples ! j = uart_line spb idle frames ! j" using assms(6) by simp
    then show ?thesis using that len by (simp add: line_def uart_line_def nth_append)
  qed
  have "line ?ch (drop idle samples) = drop idle (line ?ch samples)" by (simp add: line_def drop_map)
  then have rest: "line ?ch (drop idle samples) = uart_line spb 0 frames"
    by (simp add: assms(6)) (simp add: uart_line_def)
  have "uart_loop samples (length samples) ?ch spb max_events 1 [] =
      uart_loop samples (length samples) ?ch spb max_events idle []"
    using high assms(5) len by (intro uart_skip_high) auto
  also have "\<dots> = map (\<lambda>(p, b). uart_event (timestamp_ns (samples ! p)) b)
      (take max_events (uart_starts spb idle frames))"
    using uart_frames_decoded [OF spb assms(5) len _ rest, of max_events "[]"] high assms(5) by simp
  finally show ?thesis
    using assms(2,4) rate guards by (cases "max_events = 0") (simp_all only: edt_decode_uart_def Let_def
        option.case prod.case if_False if_True simp_thms take_0 list.map)
qed

text \<open>C8. Whatever bytes a sender puts on the line, with any idle times between the frames and at any
  baud rate of at least three samples per bit, the decoder finds exactly these bytes, each once, in
  order, stamped with the start of its start bit, up to the capacity of the event array; the other
  channels are free.\<close>

theorem uart_decode_inverts_line:
  assumes "rx_channel cfg < 8" and "baudrate cfg \<noteq> 0" and "3 \<le> uart_rate_hz cfg div baudrate cfg"
    and "spb = unat (uart_rate_hz cfg div baudrate cfg)" and "1 \<le> idle"
    and "line (rx_channel cfg) samples = uart_line spb idle frames"
  shows "edt_decode_uart (Some samples) (length samples) (Some cfg) max_events =
    map (\<lambda>(p, b). uart_event (timestamp_ns (samples ! p)) b) (take max_events (uart_starts spb idle frames))"
  using assms by (rule uart_line_decoded)

section \<open>What the pair decoders share\<close>

text \<open>The levels as sampled, each level held for any positive number of samples.\<close>

inductive stretched :: "'a list \<Rightarrow> 'a list \<Rightarrow> bool" where
  Nil: "stretched [] []"
| First: "stretched xs ys \<Longrightarrow> stretched (x # xs) (x # ys)"
| Again: "stretched (x # xs) ys \<Longrightarrow> stretched (x # xs) (x # ys)"

inductive_cases stretched_ConsE: "stretched (x # xs) ys"

inductive_cases stretched_NilE: "stretched [] ys"

text \<open>
  The contract of one decoding step: it stores at most one event, and once the levels have been
  seen, seeing them again changes nothing.
\<close>

locale pair_decoder =
  fixes step :: "logic_sample \<Rightarrow> logic_sample \<Rightarrow> 's \<Rightarrow> 's"
    and events :: "'s \<Rightarrow> proto_event list"
  assumes step_events: "\<exists>es. length es \<le> 1 \<and> events (step p x st) = events st @ es"
    and step_again: "step x x (step p x st) = step p x st"
begin

lemma loop_full: "\<not> length (events st) < m \<Longrightarrow> pair_loop step events m st xs = st"
  by (cases "(step, events, m, st, xs)" rule: pair_loop.cases) auto

lemma loop_prefix: "\<exists>es. events (pair_loop step events m st xs) = events st @ es"
proof (induction xs arbitrary: st)
  case (Cons p rest)
  show ?case
  proof (cases rest)
    case [simp]: (Cons x rest')
    obtain es where "events (pair_loop step events m (step p x st) rest) = events (step p x st) @ es"
      using Cons.IH by blast
    moreover obtain fs where "events (step p x st) = events st @ fs" using step_events by blast
    ultimately show ?thesis by simp
  qed simp
qed simp

lemma loop_capacity:
  "length (events st) \<le> m \<Longrightarrow> length (events (pair_loop step events m st xs)) \<le> m"
proof (induction xs arbitrary: st)
  case (Cons p rest)
  show ?case
  proof (cases rest)
    case [simp]: (Cons x rest')
    obtain fs where "length fs \<le> 1" "events (step p x st) = events st @ fs" using step_events by blast
    then show ?thesis using Cons.IH [of "step p x st"] Cons.prems by simp
  qed (use Cons.prems in simp)
qed simp

text \<open>A smaller event array cuts the events off and changes nothing else.\<close>

lemma loop_take:
  "length (events st) \<le> m \<Longrightarrow> m \<le> M \<Longrightarrow>
   events (pair_loop step events m st xs) = take m (events (pair_loop step events M st xs))"
proof (induction xs arbitrary: st)
  case (Cons p rest)
  show ?case
  proof (cases rest)
    case [simp]: (Cons x rest')
    obtain fs where fs: "length fs \<le> 1" "events (step p x st) = events st @ fs" using step_events by blast
    show ?thesis
    proof (cases "length (events st) < m")
      case True
      then show ?thesis using Cons.IH [of "step p x st"] Cons.prems(2) fs by simp
    next
      case False
      then have m: "length (events st) = m" using Cons.prems(1) by simp
      obtain es where "events (pair_loop step events M st (p # rest)) = events st @ es"
        using loop_prefix by blast
      then show ?thesis using m by simp
    qed
  qed (use Cons.prems in simp)
qed simp

lemma loop_stretched:
  assumes "stretched xs ys"
  shows "xs = x # xs' \<Longrightarrow> step x x st = st \<Longrightarrow>
    pair_loop step events m st ys = pair_loop step events m st xs"
  using assms
proof (induction arbitrary: x xs' st rule: stretched.induct)
  case (First xs ys y)
  have y: "y = x" using First.prems by simp
  show ?case
  proof (cases xs)
    case Nil
    then have "ys = []" using First.hyps by (auto elim: stretched_NilE)
    then show ?thesis using Nil by simp
  next
    case (Cons z zs)
    then obtain ys' where ys: "ys = z # ys'" using First.hyps by (auto elim: stretched_ConsE)
    have "pair_loop step events m (step x z st) ys = pair_loop step events m (step x z st) xs"
      using First.IH [OF Cons] step_again by blast
    then show ?thesis using Cons ys y by simp
  qed
next
  case (Again y xs ys)
  have y: "y = x" using Again.prems by simp
  then obtain ys' where ys: "ys = x # ys'" using Again.hyps by (auto elim: stretched_ConsE)
  show ?case using Again.IH [of x xs st] Again.prems y ys loop_full [of st m "x # xs'"] by auto
qed simp

end

interpretation i2c: pair_decoder "i2c_step cfg" i2c_events
proof unfold_locales
  show "\<exists>es. length es \<le> 1 \<and> i2c_events (i2c_step cfg p x st) = i2c_events st @ es" for p x st
    by (auto simp: i2c_step_def Let_def)
  show "i2c_step cfg x x (i2c_step cfg p x st) = i2c_step cfg p x st" for p x st
    by (auto simp: i2c_step_def [of cfg x x] Let_def)
qed

interpretation spi: pair_decoder "spi_step cfg" spi_events
proof unfold_locales
  show "\<exists>es. length es \<le> 1 \<and> spi_events (spi_step cfg p x st) = spi_events st @ es" for p x st
    by (auto simp: spi_step_def Let_def)
  show "spi_step cfg x x (spi_step cfg p x st) = spi_step cfg p x st" for p x st
    by (auto simp: spi_step_def Let_def)
qed

section \<open>I2C: the decoder inverts the bus\<close>

text \<open>
  Bus levels as pairs of SCL and SDA. A bit is set up with the clock low, sampled at the rising
  clock and held over the falling clock; a transfer is a start condition, the bytes, each with
  its acknowledge bit, and a stop condition.
\<close>

definition i2c_bit :: "bool \<Rightarrow> (bool \<times> bool) list" where
  "i2c_bit b = [(False, b), (True, b), (False, b)]"

definition i2c_byte :: "u8 \<times> bool \<Rightarrow> (bool \<times> bool) list" where
  "i2c_byte x = concat (map (\<lambda>k. i2c_bit (bit (fst x) (7 - k))) [0..<8]) @ i2c_bit (\<not> snd x)"

definition i2c_transfer :: "(u8 \<times> bool) list \<Rightarrow> (bool \<times> bool) list" where
  "i2c_transfer bytes =
     [(True, True), (True, False), (False, False)] @ concat (map i2c_byte bytes) @
     [(False, False), (True, False), (True, True)]"

definition i2c_levels :: "i2c_config \<Rightarrow> logic_sample \<Rightarrow> bool \<times> bool" where
  "i2c_levels cfg x = (bit (channels x) (unat (scl_channel cfg)), bit (channels x) (unat (sda_channel cfg)))"

text \<open>A sample with given levels, and the decoder's state without the time stamps.\<close>

definition i2c_sample :: "bool \<times> bool \<Rightarrow> logic_sample" where
  "i2c_sample l = \<lparr>timestamp_ns = 0, channels = of_bool (fst l) OR push_bit 1 (of_bool (snd l))\<rparr>"

definition i2c_cfg :: i2c_config where
  "i2c_cfg = \<lparr>scl_channel = 0, sda_channel = 1\<rparr>"

definition unstamp :: "proto_event \<Rightarrow> proto_event" where
  "unstamp e = e\<lparr>ev_timestamp_ns := 0\<rparr>"

definition i2c_unstamp :: "i2c_state \<Rightarrow> i2c_state" where
  "i2c_unstamp st = st\<lparr>i2c_events := map unstamp (i2c_events st)\<rparr>"

lemma i2c_sample_levels [simp]:
  "edt_bit (channels (i2c_sample l)) 0 = of_bool (fst l)"
  "edt_bit (channels (i2c_sample l)) 1 = of_bool (snd l)"
  "timestamp_ns (i2c_sample l) = 0"
  by (simp_all add: edt_bit_of_bool i2c_sample_def bit_simps)

lemma i2c_cfg_simps [simp]: "scl_channel i2c_cfg = 0" "sda_channel i2c_cfg = 1"
  by (simp_all add: i2c_cfg_def)

lemma i2c_unstamp_simps:
  "i2c_active (i2c_unstamp st) = i2c_active st" "bit_count (i2c_unstamp st) = bit_count st"
  "current (i2c_unstamp st) = current st" "expect_ack (i2c_unstamp st) = expect_ack st"
  "i2c_events (i2c_unstamp st) = map unstamp (i2c_events st)"
  "i2c_unstamp (st\<lparr>i2c_active := True, bit_count := 0, current := 0, expect_ack := False\<rparr>) =
   (i2c_unstamp st)\<lparr>i2c_active := True, bit_count := 0, current := 0, expect_ack := False\<rparr>"
  "i2c_unstamp (st\<lparr>i2c_active := False\<rparr>) = (i2c_unstamp st)\<lparr>i2c_active := False\<rparr>"
  "i2c_unstamp (st\<lparr>current := c, bit_count := k\<rparr>) = (i2c_unstamp st)\<lparr>current := c, bit_count := k\<rparr>"
  "i2c_unstamp (st\<lparr>expect_ack := e, bit_count := k\<rparr>) = (i2c_unstamp st)\<lparr>expect_ack := e, bit_count := k\<rparr>"
  "i2c_unstamp (st\<lparr>i2c_events := es @ [i2c_event t cu sd], current := c, expect_ack := e\<rparr>) =
   (i2c_unstamp st)\<lparr>i2c_events := map unstamp es @ [i2c_event 0 cu sd], current := c, expect_ack := e\<rparr>"
  by (simp_all add: i2c_unstamp_def) (simp_all add: unstamp_def i2c_event_def)

lemma i2c_step_unstamp:
  "i2c_unstamp (i2c_step cfg p x st) =
   i2c_step i2c_cfg (i2c_sample (i2c_levels cfg p)) (i2c_sample (i2c_levels cfg x)) (i2c_unstamp st)"
proof -
  have lv: "edt_bit (channels (i2c_sample (i2c_levels cfg y))) 0 = edt_bit (channels y) (scl_channel cfg)"
    "edt_bit (channels (i2c_sample (i2c_levels cfg y))) 1 = edt_bit (channels y) (sda_channel cfg)" for y
    by (simp_all only: i2c_sample_levels) (simp_all add: i2c_levels_def edt_bit_of_bool)
  show ?thesis
    by (simp only: i2c_step_def Let_def lv i2c_cfg_simps i2c_sample_levels(3) if_distrib [of i2c_unstamp]
        i2c_unstamp_simps i2c_state.simps) simp
qed

lemma i2c_loop_unstamp:
  "i2c_unstamp (pair_loop (i2c_step cfg) i2c_events m st xs) =
   pair_loop (i2c_step i2c_cfg) i2c_events m (i2c_unstamp st) (map (i2c_sample \<circ> i2c_levels cfg) xs)"
proof (induction xs arbitrary: st)
  case (Cons p rest)
  then show ?case
    by (cases rest) (simp_all add: i2c_step_unstamp [symmetric], simp add: i2c_unstamp_def)
qed simp

text \<open>Eight bits shifted in from the highest give the byte back.\<close>

definition shift_in :: "u8 \<Rightarrow> bool \<Rightarrow> u8" where
  "shift_in c b = push_bit 1 c OR of_bool b"

lemma bit_shift_in: "n < 8 \<Longrightarrow> bit (shift_in c b) n = (if n = 0 then b else bit c (n - 1))"
  unfolding shift_in_def bit_or_iff bit_push_bit_iff by (cases n) (auto simp: bit_simps)

lemma shift_in_byte: "foldl shift_in c (map (\<lambda>k. bit v (7 - k)) [0..<8]) = v"
proof (rule bit_word_eqI)
  fix n assume n: "n < LENGTH(8)"
  have bits: "map (\<lambda>k. bit v (7 - k)) [0..<8] =
      [bit v 7, bit v 6, bit v 5, bit v 4, bit v 3, bit v 2, bit v 1, bit v 0]"
    by (simp add: upt_rec)
  have "n \<in> {0, 1, 2, 3, 4, 5, 6, 7}" using n by auto
  then show "bit (foldl shift_in c (map (\<lambda>k. bit v (7 - k)) [0..<8])) n = bit v n"
    unfolding bits foldl.simps by (elim insertE emptyE) (simp_all add: bit_shift_in)
qed

abbreviation i2c_canon :: "nat \<Rightarrow> i2c_state \<Rightarrow> (bool \<times> bool) list \<Rightarrow> i2c_state" where
  "i2c_canon m st ls \<equiv> pair_loop (i2c_step i2c_cfg) i2c_events m st (map i2c_sample ls)"

lemma i2c_canon_step:
  "length (i2c_events st) < m \<Longrightarrow>
   i2c_canon m st (l # l' # ls) = i2c_canon m (i2c_step i2c_cfg (i2c_sample l) (i2c_sample l') st) (l' # ls)"
  by simp

lemma i2c_canon_bit:
  assumes "length (i2c_events st) < m" "i2c_active st" "\<not> expect_ack st"
  shows "i2c_canon m st ((False, s) # i2c_bit b @ ls) =
    i2c_canon m (if bit_count st + 1 = 8
                 then st\<lparr>current := shift_in (current st) b, bit_count := 0, expect_ack := True\<rparr>
                 else st\<lparr>current := shift_in (current st) b, bit_count := bit_count st + 1\<rparr>)
      ((False, b) # ls)"
  using assms unfolding i2c_bit_def append_Cons append_Nil
  by (cases st) (simp add: i2c_canon_step i2c_step_def [of i2c_cfg] Let_def shift_in_def)

lemma i2c_canon_ack:
  assumes "length (i2c_events st) < m" "i2c_active st" "expect_ack st"
  shows "i2c_canon m st ((False, s) # i2c_bit b @ ls) =
    i2c_canon m (st\<lparr>i2c_events := i2c_events st @ [i2c_event 0 (current st) (of_bool b)],
                     current := 0, expect_ack := False\<rparr>) ((False, b) # ls)"
proof -
  let ?st = "st\<lparr>i2c_events := i2c_events st @ [i2c_event 0 (current st) (of_bool b)],
                 current := 0, expect_ack := False\<rparr>"
  have "i2c_canon m st ((False, s) # i2c_bit b @ ls) = i2c_canon m ?st ((True, b) # (False, b) # ls)"
    using assms unfolding i2c_bit_def append_Cons append_Nil
    by (simp add: i2c_canon_step i2c_step_def [of i2c_cfg] Let_def)
  also have "\<dots> = i2c_canon m ?st ((False, b) # ls)"
  proof (cases "length (i2c_events ?st) < m")
    case True
    then show ?thesis by (simp only: i2c_canon_step) (simp add: i2c_step_def [of i2c_cfg] Let_def)
  next
    case False
    show ?thesis unfolding i2c.loop_full [OF False] ..
  qed
  finally show ?thesis .
qed

lemma i2c_canon_bits:
  "length (i2c_events st) < m \<Longrightarrow> i2c_active st \<Longrightarrow> \<not> expect_ack st \<Longrightarrow> bs \<noteq> [] \<Longrightarrow>
   unat (bit_count st) + length bs = 8 \<Longrightarrow>
   i2c_canon m st ((False, s) # concat (map i2c_bit bs) @ ls) =
   i2c_canon m (st\<lparr>current := foldl shift_in (current st) bs, bit_count := 0, expect_ack := True\<rparr>)
     ((False, last bs) # ls)"
proof (induction bs arbitrary: st s)
  case (Cons b bs)
  note step = i2c_canon_bit [OF Cons.prems(1-3), of s b "concat (map i2c_bit bs) @ ls"]
  show ?case
  proof (cases "bs = []")
    case True
    then have "unat (bit_count st) = 7" using Cons.prems(5) by simp
    then have "bit_count st + 1 = 8" by (simp add: word_unat_eq_iff unat_word_ariths)
    then show ?thesis using step True by simp
  next
    case False
    have lt: "unat (bit_count st) < 7" using Cons.prems(5) False by (cases bs) auto
    then have u: "unat (bit_count st + 1) = unat (bit_count st) + 1" by (simp add: unat_word_ariths)
    then have "bit_count st + 1 \<noteq> 8" using lt by auto
    then show ?thesis
      using step False Cons.IH [of "st\<lparr>current := shift_in (current st) b, bit_count := bit_count st + 1\<rparr>" b]
        Cons.prems u by simp
  qed
qed simp

lemma i2c_canon_byte:
  assumes "length (i2c_events st) < m" "i2c_active st" "\<not> expect_ack st" "bit_count st = 0"
  shows "i2c_canon m st ((False, s) # i2c_byte (v, a) @ ls) =
    i2c_canon m (st\<lparr>i2c_events := i2c_events st @ [i2c_event 0 v (of_bool (\<not> a))], current := 0\<rparr>)
      ((False, \<not> a) # ls)"
proof -
  let ?bs = "map (\<lambda>k. bit v (7 - k)) [0..<8]"
  have "i2c_byte (v, a) @ ls = concat (map i2c_bit ?bs) @ i2c_bit (\<not> a) @ ls"
    by (simp add: i2c_byte_def comp_def)
  then have "i2c_canon m st ((False, s) # i2c_byte (v, a) @ ls) =
      i2c_canon m (st\<lparr>current := v, bit_count := 0, expect_ack := True\<rparr>)
        ((False, last ?bs) # i2c_bit (\<not> a) @ ls)"
    using i2c_canon_bits [OF assms(1-3), of ?bs s "i2c_bit (\<not> a) @ ls"] assms(4)
    by (simp only: shift_in_byte) simp
  also have "\<dots> = i2c_canon m (st\<lparr>i2c_events := i2c_events st @ [i2c_event 0 v (of_bool (\<not> a))], current := 0\<rparr>)
      ((False, \<not> a) # ls)"
    using i2c_canon_ack [of "st\<lparr>current := v, bit_count := 0, expect_ack := True\<rparr>" m "last ?bs" "\<not> a" ls] assms
    by (cases st) simp
  finally show ?thesis .
qed

definition i2c_byte_event :: "u8 \<times> bool \<Rightarrow> proto_event" where
  "i2c_byte_event x = i2c_event 0 (fst x) (of_bool (\<not> snd x))"

lemma i2c_byte_event_values:
  "ev_type (i2c_byte_event x) = PROTO_I2C" "value0 (i2c_byte_event x) = ucast (fst x)"
  "value1 (i2c_byte_event x) = of_bool (snd x)"
  by (cases "snd x"; simp add: i2c_byte_event_def i2c_event_def)+

lemma i2c_canon_bytes:
  "length (i2c_events st) + length bytes < m \<Longrightarrow> i2c_active st \<Longrightarrow> \<not> expect_ack st \<Longrightarrow>
   bit_count st = 0 \<Longrightarrow> current st = 0 \<Longrightarrow>
   \<exists>s'. i2c_canon m st ((False, s) # concat (map i2c_byte bytes) @ ls) =
     i2c_canon m (st\<lparr>i2c_events := i2c_events st @ map i2c_byte_event bytes\<rparr>) ((False, s') # ls)"
proof (induction bytes arbitrary: st s)
  case Nil
  then show ?case by (intro exI [of _ s]) simp
next
  case (Cons x bytes)
  obtain v a where x: "x = (v, a)" by fastforce
  let ?st = "st\<lparr>i2c_events := i2c_events st @ [i2c_byte_event x]\<rparr>"
  have "i2c_canon m st ((False, s) # concat (map i2c_byte (x # bytes)) @ ls) =
      i2c_canon m ?st ((False, \<not> a) # concat (map i2c_byte bytes) @ ls)"
    using i2c_canon_byte [of st m s v a "concat (map i2c_byte bytes) @ ls"] Cons.prems x
    by (cases st) (simp add: i2c_byte_event_def)
  then show ?case using Cons.IH [of ?st "\<not> a"] Cons.prems by simp
qed

lemma i2c_canon_transfer:
  assumes "length (i2c_events st) + length bytes < m"
  shows "\<exists>st'. i2c_canon m st ((True, True) # i2c_transfer bytes @ ls) = i2c_canon m st' ((True, True) # ls) \<and>
    i2c_events st' = i2c_events st @ map i2c_byte_event bytes"
proof -
  let ?st1 = "st\<lparr>i2c_active := True, bit_count := 0, current := 0, expect_ack := False\<rparr>"
  let ?st2 = "?st1\<lparr>i2c_events := i2c_events st @ map i2c_byte_event bytes\<rparr>"
  let ?st3 = "?st2\<lparr>current := push_bit 1 (current ?st2) OR of_bool False, bit_count := 1\<rparr>"
  let ?tl = "[(False, False), (True, False), (True, True)] @ ls"
  have "i2c_canon m st ((True, True) # i2c_transfer bytes @ ls) =
      i2c_canon m ?st1 ((False, False) # concat (map i2c_byte bytes) @ ?tl)"
    using assms unfolding i2c_transfer_def append_assoc append_Cons append_Nil
    by (simp add: i2c_canon_step i2c_step_def [of i2c_cfg] Let_def)
  also obtain s where "\<dots> = i2c_canon m ?st2 ((False, s) # ?tl)"
    using i2c_canon_bytes [of ?st1 bytes m False ?tl] assms by auto
  also have "\<dots> = i2c_canon m (?st3\<lparr>i2c_active := False\<rparr>) ((True, True) # ls)"
    using assms unfolding append_Cons append_Nil
    by (simp add: i2c_canon_step i2c_step_def [of i2c_cfg] Let_def)
  finally show ?thesis by (intro exI [of _ "?st3\<lparr>i2c_active := False\<rparr>"]) simp
qed

lemma i2c_canon_transfers:
  "length (i2c_events st) + length (concat transfers) < m \<Longrightarrow>
   i2c_events (i2c_canon m st ((True, True) # concat (map i2c_transfer transfers))) =
     i2c_events st @ map i2c_byte_event (concat transfers)"
proof (induction transfers arbitrary: st)
  case (Cons bytes transfers)
  obtain st' where "i2c_canon m st ((True, True) # i2c_transfer bytes @ concat (map i2c_transfer transfers)) =
      i2c_canon m st' ((True, True) # concat (map i2c_transfer transfers))"
    "i2c_events st' = i2c_events st @ map i2c_byte_event bytes"
    using i2c_canon_transfer [of st bytes m] Cons.prems by fastforce
  then show ?case using Cons.IH [of st'] Cons.prems by simp
qed simp

lemma stretched_map_sample:
  "stretched xs ys \<Longrightarrow> stretched (map f xs) (map f ys)"
  by (induction rule: stretched.induct) (auto intro: stretched.intros)

text \<open>C20. Whatever transfers are on the bus, each level held for any number of samples, the decoder
  reports exactly the bytes between the start and stop conditions, in order, with the acknowledge
  of each, up to the capacity of the event array.\<close>

theorem i2c_decode_inverts_bus:
  assumes "scl_channel cfg < 8" and "sda_channel cfg < 8"
    and "stretched ((True, True) # concat (map i2c_transfer transfers)) (map (i2c_levels cfg) samples)"
  shows "map (\<lambda>e. (ev_type e, value0 e, value1 e))
      (edt_decode_i2c (Some samples) (length samples) (Some cfg) max_events) =
    map (\<lambda>(b, ack). (PROTO_I2C, ucast b, of_bool ack)) (take max_events (concat transfers))"
proof (cases "max_events = 0")
  case False
  let ?M = "max max_events (Suc (length (concat transfers)))"
  let ?v = "\<lambda>e. (ev_type e, value0 e, value1 e)"
  let ?ls = "(True, True) # concat (map i2c_transfer transfers)"
  have guards: "(scl_channel cfg \<ge> 8) = False" "(sda_channel cfg \<ge> 8) = False"
    using assms(1,2) by simp_all
  let ?run = "pair_loop (i2c_step cfg) i2c_events max_events i2c_idle samples"
  have idle: "i2c_unstamp i2c_idle = i2c_idle" by (simp add: i2c_unstamp_def i2c_idle_def)
  have v: "map ?v (map unstamp es) = map ?v es" for es by (simp add: unstamp_def)
  have st: "stretched (map i2c_sample ?ls) (map (i2c_sample \<circ> i2c_levels cfg) samples)"
    using stretched_map_sample [OF assms(3), of i2c_sample] by simp
  have "map ?v (i2c_events ?run) = map ?v (i2c_events (i2c_unstamp ?run))"
    unfolding i2c_unstamp_simps v ..
  also have "i2c_unstamp ?run = i2c_canon max_events i2c_idle ?ls"
    unfolding i2c_loop_unstamp idle
    by (rule i2c.loop_stretched [OF st])
      (simp, simp add: i2c_step_def Let_def i2c_idle_def)
  also have "i2c_events \<dots> = take max_events (i2c_events (i2c_canon ?M i2c_idle ?ls))"
    by (rule i2c.loop_take) (simp_all add: i2c_idle_def)
  also have "i2c_events (i2c_canon ?M i2c_idle ?ls) = map i2c_byte_event (concat transfers)"
    by (subst i2c_canon_transfers) (simp_all add: i2c_idle_def)
  finally have "map ?v (i2c_events ?run) = map ?v (take max_events (map i2c_byte_event (concat transfers)))" .
  moreover have "edt_decode_i2c (Some samples) (length samples) (Some cfg) max_events = i2c_events ?run"
    using False by (simp only: edt_decode_i2c_def option.case prod.case guards if_False simp_thms
        take_all_iff [THEN iffD2, OF order.refl])
  ultimately show ?thesis
    by (simp add: take_map [symmetric] comp_def i2c_byte_event_values case_prod_unfold)
qed (simp add: edt_decode_i2c_def)

section \<open>SPI: the decoder inverts the bus in all four modes\<close>

text \<open>
  Bus levels as chip select, clock, MOSI and MISO. In a frame the chip select is low; each bit is
  set up at the idle clock level. With \<open>cpha = 0\<close> it is sampled at the leading clock edge, with
  \<open>cpha = 1\<close> the leading edge sets it up and the trailing edge samples it.
\<close>

record spi_level =
  sl_cs :: bool
  sl_clk :: bool
  sl_mosi :: bool
  sl_miso :: bool

definition spi_bit :: "bool \<Rightarrow> bool \<Rightarrow> bool \<times> bool \<Rightarrow> spi_level list" where
  "spi_bit pol pha b =
     (let out = (\<lambda>clk. \<lparr>sl_cs = False, sl_clk = clk, sl_mosi = fst b, sl_miso = snd b\<rparr>)
      in if pha then [out (\<not> pol), out pol] else [out pol, out (\<not> pol), out pol])"

definition spi_byte :: "bool \<Rightarrow> bool \<Rightarrow> u8 \<times> u8 \<Rightarrow> spi_level list" where
  "spi_byte pol pha x = concat (map (\<lambda>k. spi_bit pol pha (bit (fst x) (7 - k), bit (snd x) (7 - k))) [0..<8])"

definition spi_quiet :: "bool \<Rightarrow> bool \<Rightarrow> spi_level" where
  "spi_quiet pol cs = \<lparr>sl_cs = cs, sl_clk = pol, sl_mosi = False, sl_miso = False\<rparr>"

definition spi_frame :: "bool \<Rightarrow> bool \<Rightarrow> (u8 \<times> u8) list \<Rightarrow> spi_level list" where
  "spi_frame pol pha bytes =
     [spi_quiet pol True, spi_quiet pol False] @ concat (map (spi_byte pol pha) bytes) @
     [spi_quiet pol False, spi_quiet pol True]"

definition spi_levels :: "spi_config \<Rightarrow> logic_sample \<Rightarrow> spi_level" where
  "spi_levels cfg x =
     \<lparr>sl_cs = bit (channels x) (unat (cs_channel cfg)), sl_clk = bit (channels x) (unat (clk_channel cfg)),
      sl_mosi = bit (channels x) (unat (mosi_channel cfg)), sl_miso = bit (channels x) (unat (miso_channel cfg))\<rparr>"

definition spi_sample :: "spi_level \<Rightarrow> logic_sample" where
  "spi_sample l =
     \<lparr>timestamp_ns = 0,
      channels = of_bool (sl_cs l) OR push_bit 1 (of_bool (sl_clk l)) OR push_bit 2 (of_bool (sl_mosi l)) OR
                 push_bit 3 (of_bool (sl_miso l))\<rparr>"

definition spi_cfg :: "bool \<Rightarrow> bool \<Rightarrow> spi_config" where
  "spi_cfg pol pha = \<lparr>clk_channel = 1, cs_channel = 0, mosi_channel = 2, miso_channel = 3,
                       cpol = of_bool pol, cpha = of_bool pha\<rparr>"

definition spi_unstamp :: "spi_state \<Rightarrow> spi_state" where
  "spi_unstamp st = st\<lparr>spi_events := map unstamp (spi_events st)\<rparr>"

lemma spi_sample_levels [simp]:
  "edt_bit (channels (spi_sample l)) 0 = of_bool (sl_cs l)"
  "edt_bit (channels (spi_sample l)) 1 = of_bool (sl_clk l)"
  "edt_bit (channels (spi_sample l)) 2 = of_bool (sl_mosi l)"
  "edt_bit (channels (spi_sample l)) 3 = of_bool (sl_miso l)"
  "timestamp_ns (spi_sample l) = 0"
  by (simp_all add: edt_bit_of_bool spi_sample_def bit_simps)

lemma spi_cfg_simps [simp]:
  "clk_channel (spi_cfg pol pha) = 1" "cs_channel (spi_cfg pol pha) = 0"
  "mosi_channel (spi_cfg pol pha) = 2" "miso_channel (spi_cfg pol pha) = 3"
  "cpol (spi_cfg pol pha) = of_bool pol" "cpha (spi_cfg pol pha) = of_bool pha"
  by (simp_all add: spi_cfg_def)

lemma spi_unstamp_simps:
  "spi_active (spi_unstamp st) = spi_active st" "spi_bits (spi_unstamp st) = spi_bits st"
  "mosi_byte (spi_unstamp st) = mosi_byte st" "miso_byte (spi_unstamp st) = miso_byte st"
  "spi_events (spi_unstamp st) = map unstamp (spi_events st)"
  "spi_unstamp (st\<lparr>spi_active := False, spi_bits := 0\<rparr>) = (spi_unstamp st)\<lparr>spi_active := False, spi_bits := 0\<rparr>"
  "spi_unstamp (st\<lparr>spi_active := True, spi_bits := 0, mosi_byte := 0, miso_byte := 0\<rparr>) =
   (spi_unstamp st)\<lparr>spi_active := True, spi_bits := 0, mosi_byte := 0, miso_byte := 0\<rparr>"
  "spi_unstamp (st\<lparr>mosi_byte := a, miso_byte := b, spi_bits := k\<rparr>) =
   (spi_unstamp st)\<lparr>mosi_byte := a, miso_byte := b, spi_bits := k\<rparr>"
  "spi_unstamp (st\<lparr>spi_events := es @ [spi_event t a b], spi_bits := 0, mosi_byte := 0, miso_byte := 0\<rparr>) =
   (spi_unstamp st)\<lparr>spi_events := map unstamp es @ [spi_event 0 a b], spi_bits := 0, mosi_byte := 0, miso_byte := 0\<rparr>"
  by (simp_all add: spi_unstamp_def) (simp_all add: unstamp_def spi_event_def)

lemma spi_step_unstamp:
  assumes "cpol cfg = of_bool pol" "cpha cfg = of_bool pha"
  shows "spi_unstamp (spi_step cfg p x st) =
    spi_step (spi_cfg pol pha) (spi_sample (spi_levels cfg p)) (spi_sample (spi_levels cfg x)) (spi_unstamp st)"
proof -
  have lv: "edt_bit (channels (spi_sample (spi_levels cfg y))) 0 = edt_bit (channels y) (cs_channel cfg)"
    "edt_bit (channels (spi_sample (spi_levels cfg y))) 1 = edt_bit (channels y) (clk_channel cfg)"
    "edt_bit (channels (spi_sample (spi_levels cfg y))) 2 = edt_bit (channels y) (mosi_channel cfg)"
    "edt_bit (channels (spi_sample (spi_levels cfg y))) 3 = edt_bit (channels y) (miso_channel cfg)" for y
    by (simp_all only: spi_sample_levels) (simp_all add: spi_levels_def edt_bit_of_bool)
  have cf: "sample_on_rising (spi_cfg pol pha) = sample_on_rising cfg"
    "spi_idle_level (spi_cfg pol pha) = spi_idle_level cfg"
    using assms by (simp_all add: sample_on_rising_def spi_idle_level_def)
  show ?thesis
    by (cases "spi_active st")
      (simp_all only: spi_step_def Let_def lv cf spi_cfg_simps assms spi_sample_levels(5)
        if_distrib [of spi_unstamp] spi_unstamp_simps spi_state.simps simp_thms if_True if_False, simp)
qed

lemma spi_loop_unstamp:
  assumes "cpol cfg = of_bool pol" "cpha cfg = of_bool pha"
  shows "spi_unstamp (pair_loop (spi_step cfg) spi_events m st xs) =
    pair_loop (spi_step (spi_cfg pol pha)) spi_events m (spi_unstamp st) (map (spi_sample \<circ> spi_levels cfg) xs)"
proof (induction xs arbitrary: st)
  case (Cons p rest)
  then show ?case
    by (cases rest) (simp_all add: spi_step_unstamp [OF assms, symmetric], simp add: spi_unstamp_def)
qed simp

abbreviation spi_canon :: "bool \<Rightarrow> bool \<Rightarrow> nat \<Rightarrow> spi_state \<Rightarrow> spi_level list \<Rightarrow> spi_state" where
  "spi_canon pol pha m st ls \<equiv> pair_loop (spi_step (spi_cfg pol pha)) spi_events m st (map spi_sample ls)"

lemma spi_canon_step:
  "length (spi_events st) < m \<Longrightarrow> spi_canon pol pha m st (l # l' # ls) =
   spi_canon pol pha m (spi_step (spi_cfg pol pha) (spi_sample l) (spi_sample l') st) (l' # ls)"
  by simp

text \<open>The levels at the end of a bit, and the effect of sampling one.\<close>

definition spi_rest :: "bool \<Rightarrow> bool \<times> bool \<Rightarrow> spi_level" where
  "spi_rest pol b = \<lparr>sl_cs = False, sl_clk = pol, sl_mosi = fst b, sl_miso = snd b\<rparr>"

definition spi_shift :: "bool \<times> bool \<Rightarrow> spi_state \<Rightarrow> spi_state" where
  "spi_shift b st =
     (let mo = shift_in (mosi_byte st) (fst b); mi = shift_in (miso_byte st) (snd b)
      in if spi_bits st + 1 = 8
         then st\<lparr>spi_events := spi_events st @ [spi_event 0 mo mi], spi_bits := 0, mosi_byte := 0, miso_byte := 0\<rparr>
         else st\<lparr>mosi_byte := mo, miso_byte := mi, spi_bits := spi_bits st + 1\<rparr>)"

lemma spi_step_quiet_clock:
  "spi_active st \<Longrightarrow> sl_clk l = sl_clk l' \<Longrightarrow> \<not> sl_cs l' \<Longrightarrow>
   spi_step (spi_cfg pol pha) (spi_sample l) (spi_sample l') st = st"
  by (auto simp: spi_step_def Let_def)

lemma spi_step_wrong_edge:
  "spi_active st \<Longrightarrow> sl_clk l' = (pol \<noteq> pha) \<Longrightarrow> \<not> sl_cs l' \<Longrightarrow>
   spi_step (spi_cfg pol pha) (spi_sample l) (spi_sample l') st = st"
  by (cases pol; cases pha) (auto simp: spi_step_def Let_def sample_on_rising_def)

lemma spi_step_sample_edge:
  assumes "spi_active st" "sl_clk l = (pol \<noteq> pha)" "sl_clk l' = (pol = pha)" "\<not> sl_cs l'"
  shows "spi_step (spi_cfg pol pha) (spi_sample l) (spi_sample l') st =
    spi_shift (sl_mosi l', sl_miso l') st"
proof -
  have e: "(if sample_on_rising (spi_cfg pol pha)
       then edt_bit (channels (spi_sample l)) 1 = 0 \<and> edt_bit (channels (spi_sample l')) 1 = 1
       else edt_bit (channels (spi_sample l)) 1 = 1 \<and> edt_bit (channels (spi_sample l')) 1 = 0) = True"
    "(edt_bit (channels (spi_sample l)) 1 = spi_idle_level (spi_cfg pol pha) \<and> k = 0 \<and> of_bool pha = (1 :: u8)) = False"
    "(edt_bit (channels (spi_sample l')) 0 = 1) = False" for k :: u8
    using assms(2-4) by (cases pol; cases pha; simp add: sample_on_rising_def spi_idle_level_def)+
  show ?thesis
    using assms(1) unfolding spi_step_def Let_def spi_cfg_simps e if_False if_True simp_thms
    by (simp add: spi_shift_def Let_def shift_in_def spi_sample_levels)
qed

lemma spi_canon_bit:
  assumes "Suc (length (spi_events st)) < m" "spi_active st"
  shows "spi_canon pol pha m st (spi_rest pol a # spi_bit pol pha b @ ls) =
    spi_canon pol pha m (spi_shift b st) (spi_rest pol b # ls)"
proof -
  have sh: "spi_active (spi_shift b st)" "length (spi_events (spi_shift b st)) < m"
    using assms by (simp_all add: spi_shift_def Let_def)
  show ?thesis
  proof (cases pha)
    case True
    then show ?thesis
      using assms sh unfolding spi_bit_def Let_def append_Cons append_Nil
      by (simp add: spi_canon_step spi_step_wrong_edge spi_step_sample_edge spi_rest_def del: pair_loop.simps list.map)
  next
    case False
    then show ?thesis
      using assms sh unfolding spi_bit_def Let_def append_Cons append_Nil
      by (simp add: spi_canon_step spi_step_quiet_clock spi_step_wrong_edge spi_step_sample_edge spi_rest_def
          del: pair_loop.simps list.map)
  qed
qed

lemma spi_canon_bits:
  "Suc (length (spi_events st)) < m \<Longrightarrow> spi_active st \<Longrightarrow> bs \<noteq> [] \<Longrightarrow> unat (spi_bits st) + length bs = 8 \<Longrightarrow>
   spi_canon pol pha m st (spi_rest pol a # concat (map (spi_bit pol pha) bs) @ ls) =
   spi_canon pol pha m (st\<lparr>spi_events := spi_events st @
        [spi_event 0 (foldl shift_in (mosi_byte st) (map fst bs)) (foldl shift_in (miso_byte st) (map snd bs))],
        spi_bits := 0, mosi_byte := 0, miso_byte := 0\<rparr>) (spi_rest pol (last bs) # ls)"
proof (induction bs arbitrary: st a)
  case (Cons b bs)
  note step = spi_canon_bit [OF Cons.prems(1,2), of pol pha a b "concat (map (spi_bit pol pha) bs) @ ls"]
  show ?case
  proof (cases "bs = []")
    case True
    then have "unat (spi_bits st) = 7" using Cons.prems(4) by simp
    then have "spi_bits st + 1 = 8" by (simp add: word_unat_eq_iff unat_word_ariths)
    then show ?thesis using step True by (simp add: spi_shift_def Let_def)
  next
    case False
    have lt: "unat (spi_bits st) < 7" using Cons.prems(4) False by (cases bs) auto
    then have u: "unat (spi_bits st + 1) = unat (spi_bits st) + 1" by (simp add: unat_word_ariths)
    then have "spi_bits st + 1 \<noteq> 8" using lt by auto
    then have sh: "spi_shift b st = st\<lparr>mosi_byte := shift_in (mosi_byte st) (fst b),
        miso_byte := shift_in (miso_byte st) (snd b), spi_bits := spi_bits st + 1\<rparr>"
      by (simp add: spi_shift_def Let_def)
    show ?thesis
      using step False Cons.IH [of "spi_shift b st" b] Cons.prems u unfolding sh by (cases st) simp
  qed
qed simp

definition spi_byte_event :: "u8 \<times> u8 \<Rightarrow> proto_event" where
  "spi_byte_event x = spi_event 0 (fst x) (snd x)"

lemma spi_canon_byte:
  assumes "Suc (length (spi_events st)) < m" "spi_active st" "spi_bits st = 0"
  shows "\<exists>a'. spi_canon pol pha m st (spi_rest pol a # spi_byte pol pha x @ ls) =
    spi_canon pol pha m (st\<lparr>spi_events := spi_events st @ [spi_byte_event x], mosi_byte := 0, miso_byte := 0\<rparr>)
      (spi_rest pol a' # ls)"
proof -
  let ?bs = "map (\<lambda>k. (bit (fst x) (7 - k), bit (snd x) (7 - k))) [0..<8]"
  have "spi_byte pol pha x @ ls = concat (map (spi_bit pol pha) ?bs) @ ls"
    by (simp add: spi_byte_def comp_def)
  moreover have "map fst ?bs = map (\<lambda>k. bit (fst x) (7 - k)) [0..<8]"
    "map snd ?bs = map (\<lambda>k. bit (snd x) (7 - k)) [0..<8]" by (simp_all add: comp_def)
  moreover have "?bs \<noteq> []" "length ?bs = 8" by simp_all
  ultimately show ?thesis
    using spi_canon_bits [OF assms(1,2), of ?bs pol pha a ls] assms(3)
    by (intro exI [of _ "last ?bs"]) (cases st, simp only: shift_in_byte spi_byte_event_def, simp)
qed

lemma spi_canon_bytes:
  "Suc (length (spi_events st) + length bytes) < m \<Longrightarrow> spi_active st \<Longrightarrow> spi_bits st = 0 \<Longrightarrow>
   mosi_byte st = 0 \<Longrightarrow> miso_byte st = 0 \<Longrightarrow>
   \<exists>a'. spi_canon pol pha m st (spi_rest pol a # concat (map (spi_byte pol pha) bytes) @ ls) =
     spi_canon pol pha m (st\<lparr>spi_events := spi_events st @ map spi_byte_event bytes\<rparr>) (spi_rest pol a' # ls)"
proof (induction bytes arbitrary: st a)
  case Nil
  then show ?case by (intro exI [of _ a]) simp
next
  case (Cons x bytes)
  let ?st = "st\<lparr>spi_events := spi_events st @ [spi_byte_event x]\<rparr>"
  obtain a' where "spi_canon pol pha m st (spi_rest pol a # spi_byte pol pha x @ concat (map (spi_byte pol pha) bytes) @ ls) =
      spi_canon pol pha m ?st (spi_rest pol a' # concat (map (spi_byte pol pha) bytes) @ ls)"
    using spi_canon_byte [of st m pol pha a x "concat (map (spi_byte pol pha) bytes) @ ls"] Cons.prems
    by (cases st) auto
  moreover obtain a'' where "spi_canon pol pha m ?st (spi_rest pol a' # concat (map (spi_byte pol pha) bytes) @ ls) =
      spi_canon pol pha m (?st\<lparr>spi_events := spi_events ?st @ map spi_byte_event bytes\<rparr>) (spi_rest pol a'' # ls)"
    using Cons.IH [of ?st a'] Cons.prems by auto
  ultimately show ?case by (intro exI [of _ a'']) simp
qed

lemma spi_canon_frame:
  assumes "Suc (length (spi_events st) + length bytes) < m"
  shows "\<exists>st'. spi_canon pol pha m st (spi_quiet pol True # spi_frame pol pha bytes @ ls) =
      spi_canon pol pha m st' (spi_quiet pol True # ls) \<and>
    spi_events st' = spi_events st @ map spi_byte_event bytes"
proof -
  let ?st1 = "st\<lparr>spi_active := True, spi_bits := 0, mosi_byte := 0, miso_byte := 0\<rparr>"
  let ?st2 = "?st1\<lparr>spi_events := spi_events st @ map spi_byte_event bytes\<rparr>"
  let ?tl = "[spi_quiet pol False, spi_quiet pol True] @ ls"
  have quiet: "spi_quiet pol False = spi_rest pol (False, False)" by (simp add: spi_quiet_def spi_rest_def)
  have sel: "spi_step (spi_cfg pol pha) (spi_sample (spi_quiet pol True)) (spi_sample (spi_quiet pol True)) st =
      st\<lparr>spi_active := False, spi_bits := 0\<rparr>"
    by (simp add: spi_step_def Let_def spi_quiet_def)
  have act: "spi_step (spi_cfg pol pha) (spi_sample (spi_quiet pol True)) (spi_sample (spi_quiet pol False))
      (st\<lparr>spi_active := False, spi_bits := 0\<rparr>) = ?st1"
    by (simp add: spi_step_def Let_def spi_quiet_def)
  have "spi_canon pol pha m st (spi_quiet pol True # spi_frame pol pha bytes @ ls) =
      spi_canon pol pha m ?st1 (spi_rest pol (False, False) # concat (map (spi_byte pol pha) bytes) @ ?tl)"
    using assms unfolding spi_frame_def append_assoc append_Cons append_Nil
    by (simp add: spi_canon_step sel act del: pair_loop.simps list.map) (simp add: quiet)
  also obtain a where "\<dots> = spi_canon pol pha m ?st2 (spi_rest pol a # ?tl)"
    using spi_canon_bytes [of ?st1 bytes m pol pha "(False, False)" ?tl] assms by auto
  also have "\<dots> = spi_canon pol pha m ?st2 (spi_quiet pol False # spi_quiet pol True # ls)"
    using assms unfolding append_Cons append_Nil
    by (simp add: spi_canon_step spi_step_quiet_clock spi_quiet_def spi_rest_def del: pair_loop.simps list.map)
  also have "\<dots> = spi_canon pol pha m (?st2\<lparr>spi_active := False, spi_bits := 0\<rparr>) (spi_quiet pol True # ls)"
    using assms
    by (simp add: spi_canon_step del: pair_loop.simps list.map) (simp add: spi_step_def Let_def spi_quiet_def)
  finally show ?thesis by (intro exI [of _ "?st2\<lparr>spi_active := False, spi_bits := 0\<rparr>"]) simp
qed

lemma spi_canon_frames:
  "Suc (length (spi_events st) + length (concat frames)) < m \<Longrightarrow>
   spi_events (spi_canon pol pha m st (spi_quiet pol True # concat (map (spi_frame pol pha) frames))) =
     spi_events st @ map spi_byte_event (concat frames)"
proof (induction frames arbitrary: st)
  case (Cons bytes frames)
  obtain st' where "spi_canon pol pha m st (spi_quiet pol True # spi_frame pol pha bytes @
        concat (map (spi_frame pol pha) frames)) =
      spi_canon pol pha m st' (spi_quiet pol True # concat (map (spi_frame pol pha) frames))"
    "spi_events st' = spi_events st @ map spi_byte_event bytes"
    using spi_canon_frame [of st bytes m pol pha] Cons.prems by fastforce
  then show ?case using Cons.IH [of st'] Cons.prems by simp
qed simp

text \<open>C21. In each of the four SPI modes and for any frames on the bus, each level held for any number of
  samples, the decoder reports exactly the pairs of bytes exchanged, in order, up to the capacity of
  the event array.\<close>

theorem spi_decode_inverts_bus:
  assumes "clk_channel cfg < 8" and "cs_channel cfg < 8" and "mosi_channel cfg < 8" and "miso_channel cfg < 8"
    and "cpol cfg = of_bool pol" and "cpha cfg = of_bool pha"
    and "stretched (spi_quiet pol True # concat (map (spi_frame pol pha) frames)) (map (spi_levels cfg) samples)"
  shows "map (\<lambda>e. (ev_type e, value0 e, value1 e))
      (edt_decode_spi (Some samples) (length samples) (Some cfg) max_events) =
    map (\<lambda>(mosi, miso). (PROTO_SPI, ucast mosi, ucast miso)) (take max_events (concat frames))"
proof (cases "max_events = 0")
  case False
  let ?M = "max max_events (Suc (Suc (length (concat frames))))"
  let ?v = "\<lambda>e. (ev_type e, value0 e, value1 e)"
  let ?ls = "spi_quiet pol True # concat (map (spi_frame pol pha) frames)"
  let ?run = "pair_loop (spi_step cfg) spi_events max_events spi_idle samples"
  have guards: "(clk_channel cfg \<ge> 8) = False" "(cs_channel cfg \<ge> 8) = False"
    "(mosi_channel cfg \<ge> 8) = False" "(miso_channel cfg \<ge> 8) = False" using assms(1-4) by simp_all
  have idle: "spi_unstamp spi_idle = spi_idle" by (simp add: spi_unstamp_def spi_idle_def)
  have v: "map ?v (map unstamp es) = map ?v es" for es by (simp add: unstamp_def)
  have st: "stretched (map spi_sample ?ls) (map (spi_sample \<circ> spi_levels cfg) samples)"
    using stretched_map_sample [OF assms(7), of spi_sample] by simp
  have "map ?v (spi_events ?run) = map ?v (spi_events (spi_unstamp ?run))"
    unfolding spi_unstamp_simps v ..
  also have "spi_unstamp ?run = spi_canon pol pha max_events spi_idle ?ls"
    unfolding spi_loop_unstamp [OF assms(5,6)] idle
    by (rule spi.loop_stretched [OF st])
      (simp, simp add: spi_step_def Let_def spi_idle_def spi_quiet_def)
  also have "spi_events \<dots> = take max_events (spi_events (spi_canon pol pha ?M spi_idle ?ls))"
    by (rule spi.loop_take) (simp_all add: spi_idle_def)
  also have "spi_events (spi_canon pol pha ?M spi_idle ?ls) = map spi_byte_event (concat frames)"
    by (subst spi_canon_frames) (simp_all add: spi_idle_def)
  finally have "map ?v (spi_events ?run) = map ?v (take max_events (map spi_byte_event (concat frames)))" .
  moreover have "edt_decode_spi (Some samples) (length samples) (Some cfg) max_events = spi_events ?run"
    using False by (simp only: edt_decode_spi_def option.case prod.case guards if_False simp_thms
        take_all_iff [THEN iffD2, OF order.refl])
  ultimately show ?thesis
    by (simp add: take_map [symmetric] comp_def spi_byte_event_def spi_event_def case_prod_unfold)
qed (simp add: edt_decode_spi_def)

section \<open>Bounds\<close>

lemma uart_loop_capacity:
  "length events \<le> m \<Longrightarrow> length (uart_loop samples n ch spb m i events) \<le> m"
proof (induction samples n ch spb m i events rule: uart_loop.induct)
  case (1 samples n ch spb m i events)
  then show ?case by (subst uart_loop.simps) (auto split: prod.splits)
qed

text \<open>Whatever the samples and the configuration, no decoder stores more events than the array has
  room for.\<close>

theorem decoders_fit:
  "length (edt_decode_uart samples n ucfg max_events) \<le> max_events \<and>
   length (edt_decode_i2c samples n icfg max_events) \<le> max_events \<and>
   length (edt_decode_spi samples n scfg max_events) \<le> max_events"
  using uart_loop_capacity [of "[]" max_events] i2c.loop_capacity [of i2c_idle max_events]
    spi.loop_capacity [of spi_idle max_events]
  by (auto simp: edt_decode_uart_def edt_decode_i2c_def edt_decode_spi_def Let_def i2c_idle_def spi_idle_def
      split: option.splits)

text \<open>
  The test that skips a sample edge leaving the idle level never applies when \<open>cpol\<close> and
  \<open>cpha\<close> are 0 or 1; with any other non-zero \<open>cpol\<close> and \<open>cpha = 1\<close> it applies to every
  sample edge of a frame's start, and nothing is ever decoded.
\<close>

lemma spi_step_silent:
  assumes "cpol cfg \<noteq> 0" "cpol cfg \<noteq> 1" "cpha cfg = 1" "spi_bits st = 0"
  shows "spi_bits (spi_step cfg p x st) = 0 \<and> spi_events (spi_step cfg p x st) = spi_events st"
  using assms by (auto simp: spi_step_def Let_def sample_on_rising_def spi_idle_level_def)

lemma spi_odd_polarity_silent:
  assumes "cpol cfg \<noteq> 0" "cpol cfg \<noteq> 1" "cpha cfg = 1"
  shows "edt_decode_spi samples n (Some cfg) max_events = []"
proof -
  have "spi_bits st = 0 \<Longrightarrow> spi_events (pair_loop (spi_step cfg) spi_events m st xs) = spi_events st" for st m xs
  proof (induction xs arbitrary: st)
    case (Cons p rest)
    then show ?case using spi_step_silent [OF assms] by (cases rest) auto
  qed simp
  then show ?thesis by (simp add: edt_decode_spi_def spi_idle_def split: option.splits)
qed

section \<open>Instances\<close>

lemma stretched_refl: "stretched xs xs"
  by (induction xs) (auto intro: stretched.intros)

definition uart_demo :: "logic_sample list" where
  "uart_demo = map (\<lambda>b. \<lparr>timestamp_ns = 7, channels = of_bool b\<rparr>) (uart_line 3 2 [(0xA5, 1), (0x3C, 0)])"

theorem uart_decode_inverts_line_witness:
  "map value0 (edt_decode_uart (Some uart_demo) (length uart_demo)
     (Some \<lparr>rx_channel = 0, baudrate = 9600, uart_rate_hz = 28800\<rparr>) 16) = [0xA5, 0x3C]"
proof -
  have "line 0 uart_demo = uart_line 3 2 [(0xA5, 1), (0x3C, 0)]"
    by (simp add: line_def uart_demo_def comp_def)
  with uart_decode_inverts_line [of "\<lparr>rx_channel = 0, baudrate = 9600, uart_rate_hz = 28800\<rparr>" 3 2
      uart_demo "[(0xA5, 1), (0x3C, 0)]" 16]
  show ?thesis by (simp add: uart_event_def)
qed

definition i2c_demo :: "logic_sample list" where
  "i2c_demo = map i2c_sample ((True, True) # i2c_transfer [(0x42, True), (0x81, False)])"

lemma i2c_levels_sample [simp]: "i2c_levels i2c_cfg (i2c_sample l) = l"
  by (cases l) (simp add: i2c_levels_def i2c_sample_def i2c_cfg_def bit_simps)

theorem i2c_decode_inverts_bus_witness:
  "map (\<lambda>e. (ev_type e, value0 e, value1 e))
     (edt_decode_i2c (Some i2c_demo) (length i2c_demo) (Some i2c_cfg) 16) =
   [(PROTO_I2C, 0x42, 1), (PROTO_I2C, 0x81, 0)]"
proof -
  have "map (i2c_levels i2c_cfg) i2c_demo =
      (True, True) # concat (map i2c_transfer [[(0x42, True), (0x81, False)]])"
    by (simp add: i2c_demo_def comp_def)
  then have "stretched ((True, True) # concat (map i2c_transfer [[(0x42, True), (0x81, False)]]))
      (map (i2c_levels i2c_cfg) i2c_demo)" using stretched_refl by simp
  from i2c_decode_inverts_bus [OF _ _ this, of 16] show ?thesis by simp
qed

definition spi_demo :: "logic_sample list" where
  "spi_demo = map spi_sample (spi_quiet True True # spi_frame True True [(0x9F, 0x00), (0x00, 0xEF)])"

lemma spi_levels_sample [simp]: "spi_levels (spi_cfg pol pha) (spi_sample l) = l"
  by (cases l) (simp add: spi_levels_def spi_sample_def bit_simps)

theorem spi_decode_inverts_bus_witness:
  "map (\<lambda>e. (ev_type e, value0 e, value1 e))
     (edt_decode_spi (Some spi_demo) (length spi_demo) (Some (spi_cfg True True)) 16) =
   [(PROTO_SPI, 0x9F, 0), (PROTO_SPI, 0, 0xEF)]"
proof -
  have "map (spi_levels (spi_cfg True True)) spi_demo =
      spi_quiet True True # concat (map (spi_frame True True) [[(0x9F, 0x00), (0x00, 0xEF)]])"
    by (simp add: spi_demo_def comp_def)
  then have "stretched (spi_quiet True True # concat (map (spi_frame True True) [[(0x9F, 0x00), (0x00, 0xEF)]]))
      (map (spi_levels (spi_cfg True True)) spi_demo)" using stretched_refl by simp
  from spi_decode_inverts_bus [OF _ _ _ _ _ _ this, of 16] show ?thesis by simp
qed

end
