(* ===== verification/Posix.thy ===== *)
theory Posix
  imports Prelude
begin

text \<open>
  The process's descriptor table, shared by the components that open files and sockets: a successful
  \<open>open\<close> or \<open>socket\<close> returns the lowest free number, as POSIX requires, and
  \<open>close\<close> frees it. The outcome of a call (success, or failure with an errno) is a parameter of
  the models.
\<close>

type_synonym fd_table = "int list"

definition fd_new :: "fd_table \<Rightarrow> int" where
  "fd_new fds = hd (filter (\<lambda>n. n \<notin> set fds) (map int [0..<Suc (length fds)]))"

definition fd_close :: "int \<Rightarrow> fd_table \<Rightarrow> fd_table" where
  "fd_close fd fds = removeAll fd fds"

lemma fd_new_exists: "filter (\<lambda>n. n \<notin> set fds) (map int [0..<Suc (length fds)]) \<noteq> []"
proof
  assume "filter (\<lambda>n. n \<notin> set fds) (map int [0..<Suc (length fds)]) = []"
  then have "int ` {0..<Suc (length fds)} \<subseteq> set fds"
    by (auto simp: filter_empty_conv simp del: upt_Suc)
  then have "card (int ` {0..<Suc (length fds)}) \<le> card (set fds)"
    by (intro card_mono) simp_all
  moreover have "card (int ` {0..<Suc (length fds)}) = Suc (length fds)"
    by (simp add: card_image)
  ultimately show False using card_length [of fds] by simp
qed

lemma fd_new_free [simp]: "fd_new fds \<notin> set fds" "0 \<le> fd_new fds"
proof -
  have "fd_new fds \<in> set (filter (\<lambda>n. n \<notin> set fds) (map int [0..<Suc (length fds)]))"
    unfolding fd_new_def by (rule hd_in_set [OF fd_new_exists])
  then show "fd_new fds \<notin> set fds" "0 \<le> fd_new fds" by (auto simp del: upt_Suc)
qed

lemma fd_close_new [simp]: "fd_close (fd_new fds) (fd_new fds # fds) = fds"
  by (simp add: fd_close_def)

lemma fd_close_other [simp]: "fd \<notin> set fds \<Longrightarrow> fd_close fd (fd # fds) = fds"
  by (simp add: fd_close_def)

lemma set_fd_close [simp]: "set (fd_close fd fds) = set fds - {fd}"
  by (simp add: fd_close_def)

end
