(* ===== verification/SumpServer.thy ===== *)
theory SumpServer
  imports LogicAnalyzer CText Posix
begin

text \<open>
  The SUMP server of \<open>src/protocol/sump_server.c\<close>: the socket helpers, the capture request, the
  command loop of a client thread and the start and stop of the listener. A socket is what it
  delivers and accepts: the chunks \<open>recv\<close> finds, in any segmentation, and how much each
  \<open>send\<close> takes. The surroundings of a capture (the sampler's work, the clock, the allocator)
  are a parameter, indexed by the number of captures so far.
\<close>

section \<open>Sockets\<close>

datatype rx_event = Chunk "u8 list" | RxError int

datatype tx_event = SendOk nat | SendError int

record conn =
  rx :: "rx_event list"
  tx :: "tx_event list"
  sent :: "u8 list"
  conn_errno :: int

text \<open>\<open>recv (fd, buf, n, 0)\<close>: its result and the bytes stored. No event left is the end of the
  stream, which leaves \<open>errno\<close> alone.\<close>

definition sock_recv :: "nat \<Rightarrow> conn \<Rightarrow> (int \<times> u8 list) \<times> conn" where
  "sock_recv n c =
     (case rx c of
        [] \<Rightarrow> ((0, []), c)
      | Chunk bs # r \<Rightarrow>
          if length bs \<le> n then ((int (length bs), bs), c\<lparr>rx := r\<rparr>)
          else ((int n, take n bs), c\<lparr>rx := Chunk (drop n bs) # r\<rparr>)
      | RxError e # r \<Rightarrow> ((- 1, []), c\<lparr>rx := r, conn_errno := e\<rparr>))"

lemma sock_recv_length: "length (snd (fst (sock_recv n c))) = nat (fst (fst (sock_recv n c)))"
  by (auto simp: sock_recv_def split: list.splits rx_event.splits)

text \<open>\<open>send (fd, buf, len, 0)\<close>; with no event left it takes everything.\<close>

definition sock_send :: "u8 list \<Rightarrow> conn \<Rightarrow> int \<times> conn" where
  "sock_send buf c =
     (case tx c of
        [] \<Rightarrow> (int (length buf), c\<lparr>sent := sent c @ buf\<rparr>)
      | SendOk k # r \<Rightarrow>
          (int (min k (length buf)), c\<lparr>tx := r, sent := sent c @ take k buf\<rparr>)
      | SendError e # r \<Rightarrow> (- 1, c\<lparr>tx := r, conn_errno := e\<rparr>))"

function edt_send_all :: "u8 list \<Rightarrow> conn \<Rightarrow> int \<times> conn" where
  "edt_send_all buf c =
     (if buf = [] then (0, c)
      else let res = sock_send buf c
           in if fst res \<le> 0 then (- conn_errno (snd res), snd res)
              else edt_send_all (drop (nat (fst res)) buf) (snd res))"
  by pat_completeness auto
termination by (relation "measure (\<lambda>(buf, _). length buf)") auto

declare edt_send_all.simps [simp del]

text \<open>The bytes received so far are \<open>got\<close>; the result has the bytes that arrived.\<close>

function recv_loop :: "nat \<Rightarrow> u8 list \<Rightarrow> conn \<Rightarrow> (int \<times> u8 list) \<times> conn" where
  "recv_loop len got c =
     (if length got < len
      then let res = sock_recv (len - length got) c
           in if fst (fst res) \<le> 0 then ((- conn_errno (snd res), got), snd res)
              else recv_loop len (got @ snd (fst res)) (snd res)
      else ((0, got), c))"
  by pat_completeness auto
termination
  by (relation "measure (\<lambda>(len, got, _). len - length got)") (auto simp: sock_recv_length)

declare recv_loop.simps [simp del]

text \<open>\<open>buf\<close> is the array as it is before the call.\<close>

definition edt_recv_exact :: "u8 list \<Rightarrow> conn \<Rightarrow> (int \<times> u8 list) \<times> conn" where
  "edt_recv_exact buf c =
     (case recv_loop (length buf) [] c of
        ((ret, got), c') \<Rightarrow> ((ret, got @ drop (length got) buf), c'))"

section \<open>Requests\<close>

record sump_config =
  bind_ip :: "string ptr"
  port :: u16
  capture_samples :: csize

record sump_session =
  divider :: u32
  read_count :: u32
  trigger_mask :: u8
  trigger_value :: u8
  trigger_mode_byte :: u8

definition ascii :: "string \<Rightarrow> u8 list" where
  "ascii s = map of_char s"

definition metadata_block :: "logic_analyzer \<Rightarrow> u8 list" where
  "metadata_block la =
     [0x01] @ ascii ''Embedded Debug Toolkit'' @ [0] @
     [0x21] @ le_bytes 4 (ucast (ring_capacity_samples (la_config la)) :: u32) @
     [0x23] @ le_bytes 4 (max_sample_rate_hz (la_config la)) @
     [0x40, 0x02, 0x00]"

definition edt_send_metadata :: "logic_analyzer \<Rightarrow> conn \<Rightarrow> int \<times> conn" where
  "edt_send_metadata la c = edt_send_all (metadata_block la) c"

definition edt_map_trigger_mode :: "u8 \<Rightarrow> trigger_mode" where
  "edt_map_trigger_mode m =
     (if m = 1 then EDGE_RISING else if m = 2 then EDGE_FALLING
      else if m = 3 then LEVEL_HIGH else if m = 4 then LEVEL_LOW else TRIGGER_NONE)"

function first_channel :: "u8 \<Rightarrow> nat \<Rightarrow> nat" where
  "first_channel m ch =
     (if ch < 8 then if drop_bit ch m AND 1 \<noteq> 0 then ch else first_channel m (Suc ch) else ch)"
  by pat_completeness auto
termination by (relation "measure (\<lambda>(_, ch). 8 - ch)") auto

declare first_channel.simps [simp del]

text \<open>The sample rate a session asks for; \<open>None\<close> is the division by zero.\<close>

definition session_rate :: "u32 \<Rightarrow> u32 \<Rightarrow> u32 option" where
  "session_rate max_rate d =
     (if d = 0 then Some (if max_rate = 0 then 1 else max_rate)
      else if d + 1 = 0 then None
      else let r = max_rate div (d + 1) in Some (if r = 0 then 1 else r))"

definition session_trigger :: "sump_session \<Rightarrow> trigger_config" where
  "session_trigger s =
     (let ch0 = (if trigger_mask s \<noteq> 0 then first_channel (trigger_mask s) 0 else 0);
          ch = (if ch0 \<ge> 8 then 0 else ch0);
          m0 = edt_map_trigger_mode (trigger_mode_byte s);
          m = (if m0 = TRIGGER_NONE \<and> trigger_mask s \<noteq> 0
               then (if drop_bit ch (trigger_value s) AND 1 \<noteq> 0 then LEVEL_HIGH else LEVEL_LOW) else m0)
      in \<lparr>mode = m, channel = of_nat ch\<rparr>)"

definition edt_sump_apply_session :: "logic_analyzer \<Rightarrow> sump_session \<Rightarrow> logic_analyzer option" where
  "edt_sump_apply_session la s =
     (case session_rate (max_sample_rate_hz (la_config la)) (divider s) of
        None \<Rightarrow> None
      | Some rate \<Rightarrow>
          let l1 = snd (edt_logic_analyzer_set_sample_rate (Some la) rate);
              l2 = snd (edt_logic_analyzer_set_trigger l1 (Some (session_trigger s)))
          in snd (edt_logic_analyzer_arm l2))"

record capture_env =
  ce_sampler :: "nat \<Rightarrow> ring_buffer \<Rightarrow> ring_buffer"
  ce_clock :: "nat \<Rightarrow> u64"
  ce_start :: u64
  ce_alloc :: bool

definition capture_target :: "sump_config \<Rightarrow> sump_session \<Rightarrow> csize" where
  "capture_target cfg s =
     (let t = (if read_count s \<noteq> 0 then ucast (read_count s + 1) else capture_samples cfg);
          t1 = (if t = 0 then 4096 else t)
      in if t1 > 2 ^ 20 then 2 ^ 20 else t1)"

text \<open>The bytes a capture request answers with and the analyzer after it; \<open>None\<close> when the thread
  traps or never returns. The allocation is tested before the call.\<close>

definition capture_reply ::
  "capture_env \<Rightarrow> sump_config \<Rightarrow> sump_session \<Rightarrow> logic_analyzer \<Rightarrow> (u8 list \<times> logic_analyzer) option" where
  "capture_reply ce cfg s la =
     (let target = capture_target cfg s
      in case edt_sump_apply_session la s of
           None \<Rightarrow> None
         | Some la1 \<Rightarrow>
             (case edt_logic_analyzer_capture_blocking (ce_sampler ce) (ce_clock ce) (ce_start ce)
                     (Some la1) (Some (replicate (16 * unat target) 0)) target 1200 of
                None \<Rightarrow> None
              | Some (got, outp, la2) \<Rightarrow>
                  Some (map channels (bytes_samples (take (16 * unat got) (the outp))), the la2)))"

definition edt_sump_stream_capture ::
  "capture_env \<Rightarrow> sump_config \<Rightarrow> sump_session \<Rightarrow> logic_analyzer \<Rightarrow> conn \<Rightarrow>
   (int \<times> logic_analyzer \<times> conn) option" where
  "edt_sump_stream_capture ce cfg s la c =
     (if \<not> ce_alloc ce then Some (- ENOMEM, la, c)
      else case capture_reply ce cfg s la of
        None \<Rightarrow> None
      | Some (raw_bytes, la') \<Rightarrow>
          (case edt_send_all raw_bytes c of (ret, c') \<Rightarrow> Some (ret, la', c')))"

section \<open>The client thread\<close>

definition default_read_count :: "sump_config \<Rightarrow> u32" where
  "default_read_count cfg =
     ucast (if capture_samples cfg > 0 then capture_samples cfg - 1 else 4095)"

definition fresh_session :: "sump_config \<Rightarrow> sump_session" where
  "fresh_session cfg = \<lparr>divider = 0, read_count = default_read_count cfg, trigger_mask = 0,
                         trigger_value = 0, trigger_mode_byte = 0\<rparr>"

definition set_parameter :: "u8 \<Rightarrow> u32 \<Rightarrow> sump_session \<Rightarrow> sump_session" where
  "set_parameter cmd p s =
     (if cmd = 0x80 then s\<lparr>divider := p\<rparr>
      else if cmd = 0x81 then s\<lparr>read_count := p\<rparr>
      else if cmd = 0xC0 then s\<lparr>trigger_mask := ucast p\<rparr>
      else if cmd = 0xC1 then s\<lparr>trigger_value := ucast p\<rparr>
      else if cmd = 0xC2 then s\<lparr>trigger_mode_byte := ucast (p AND 0xFF)\<rparr>
      else s)"

text \<open>What a command leaves: whether the loop goes on, the captures so far, the session, the
  analyzer, the socket. \<open>junk\<close> is the uninitialised \<open>param_bytes\<close>.\<close>

type_synonym client_state = "bool \<times> nat \<times> sump_session \<times> logic_analyzer \<times> conn"

definition client_command ::
  "(nat \<Rightarrow> capture_env) \<Rightarrow> u8 list \<Rightarrow> sump_config \<Rightarrow> u8 \<Rightarrow> nat \<Rightarrow> sump_session \<Rightarrow> logic_analyzer \<Rightarrow>
   conn \<Rightarrow> client_state option" where
  "client_command W junk cfg cmd k s la c =
     (if cmd = 0x00 then Some (True, k, fresh_session cfg, la, c)
      else if cmd = 0x02 then Some (True, k, s, la, snd (edt_send_all (ascii ''1ALS'') c))
      else if cmd = 0x04 then Some (True, k, s, la, snd (edt_send_metadata la c))
      else if cmd = 0x01 then
        (case edt_sump_stream_capture (W k) cfg s la c of
           None \<Rightarrow> None
         | Some (ret, la', c') \<Rightarrow> Some (ret = 0, Suc k, s, la', c'))
      else if cmd \<ge> 0x80 then
        (case edt_recv_exact junk c of
           ((ret, param_bytes), c') \<Rightarrow>
             if ret \<noteq> 0 then Some (False, k, s, la, c')
             else Some (True, k, set_parameter cmd (of_le_bytes (take 4 param_bytes)) s, la, c'))
      else Some (False, k, s, la, c))"

partial_function (option) client_loop ::
  "(nat \<Rightarrow> capture_env) \<Rightarrow> u8 list \<Rightarrow> sump_config \<Rightarrow> nat \<Rightarrow> sump_session \<Rightarrow> logic_analyzer \<Rightarrow> conn \<Rightarrow>
   (logic_analyzer \<times> conn) option" where
  "client_loop W junk cfg k s la c =
     (case sock_recv 1 c of
        ((r, data), c1) \<Rightarrow>
          if r \<le> 0 then Some (la, c1)
          else case client_command W junk cfg (hd data) k s la c1 of
                 None \<Rightarrow> None
               | Some (running, k', s', la', c') \<Rightarrow>
                   if running then client_loop W junk cfg k' s' la' c' else Some (la', c'))"

definition edt_sump_client_thread ::
  "(nat \<Rightarrow> capture_env) \<Rightarrow> u8 list \<Rightarrow> sump_config \<Rightarrow> logic_analyzer \<Rightarrow> conn \<Rightarrow>
   (logic_analyzer \<times> conn) option" where
  "edt_sump_client_thread W junk cfg la c = client_loop W junk cfg 0 (fresh_session cfg) la c"

section \<open>What the sockets guarantee\<close>

definition rx_bytes :: "rx_event list \<Rightarrow> u8 list" where
  "rx_bytes evs = concat (map (\<lambda>e. case e of Chunk bs \<Rightarrow> bs | RxError _ \<Rightarrow> []) evs)"

text \<open>A peer that sends, in any chunks, and then closes; and one that takes what it is sent.\<close>

definition rx_clean :: "rx_event list \<Rightarrow> bool" where
  "rx_clean evs \<longleftrightarrow> (\<forall>e\<in>set evs. case e of Chunk bs \<Rightarrow> bs \<noteq> [] | RxError _ \<Rightarrow> False)"

definition tx_clean :: "tx_event list \<Rightarrow> bool" where
  "tx_clean evs \<longleftrightarrow> (\<forall>e\<in>set evs. case e of SendOk k \<Rightarrow> k \<noteq> 0 | SendError _ \<Rightarrow> False)"

definition conn_clean :: "conn \<Rightarrow> bool" where
  "conn_clean c \<longleftrightarrow> rx_clean (rx c) \<and> tx_clean (tx c)"

lemma sock_recv_end: "conn_clean c \<Longrightarrow> rx_bytes (rx c) = [] \<Longrightarrow> sock_recv n c = ((0, []), c)"
  by (auto simp: conn_clean_def rx_clean_def rx_bytes_def sock_recv_def split: list.splits rx_event.splits)

lemma sock_recv_some:
  assumes "conn_clean c" "rx_bytes (rx c) \<noteq> []" "0 < n"
  obtains d c' where "d \<noteq> []" "length d \<le> n" "sock_recv n c = ((int (length d), d), c')"
    "rx_bytes (rx c) = d @ rx_bytes (rx c')" "conn_clean c'" "sent c' = sent c"
proof -
  obtain bs r where rx: "rx c = Chunk bs # r" "bs \<noteq> []"
    using assms(1,2) by (cases "rx c")
      (auto simp: conn_clean_def rx_clean_def rx_bytes_def split: rx_event.splits)
  show ?thesis
  proof (cases "length bs \<le> n")
    case True
    then show ?thesis
      using rx assms(1) that [of bs "c\<lparr>rx := r\<rparr>"]
      by (auto simp: sock_recv_def conn_clean_def rx_clean_def rx_bytes_def)
  next
    case False
    then show ?thesis
      using rx assms(1,3) that [of "take n bs" "c\<lparr>rx := Chunk (drop n bs) # r\<rparr>"]
      by (auto simp: sock_recv_def conn_clean_def rx_clean_def rx_bytes_def min_def)
  qed
qed

lemma recv_loop_clean:
  "conn_clean c \<Longrightarrow> length got + length xs = len \<Longrightarrow> rx_bytes (rx c) = xs @ ys \<Longrightarrow>
   \<exists>c'. recv_loop len got c = ((0, got @ xs), c') \<and> conn_clean c' \<and> rx_bytes (rx c') = ys \<and> sent c' = sent c"
proof (induction len got c arbitrary: xs rule: recv_loop.induct)
  case (1 len got c)
  show ?case
  proof (cases "xs = []")
    case False
    then have lt: "length got < len" "0 < len - length got" "rx_bytes (rx c) \<noteq> []" using "1.prems" by auto
    obtain d c' where r: "d \<noteq> []" "length d \<le> len - length got"
      "sock_recv (len - length got) c = ((int (length d), d), c')"
      "rx_bytes (rx c) = d @ rx_bytes (rx c')" "conn_clean c'" "sent c' = sent c"
      using sock_recv_some [OF "1.prems"(1) lt(3,2)] by blast
    obtain xs' where xs: "xs = d @ xs'" "rx_bytes (rx c') = xs' @ ys"
      using r(2,4) "1.prems"(2,3) by (auto simp: append_eq_append_conv2)
    have "recv_loop len got c = recv_loop len (got @ d) c'"
      using lt(1) r(1,3) by (subst recv_loop.simps) (simp add: Let_def)
    then show ?thesis using "1.IH" [OF lt(1) refl, of xs'] r xs "1.prems"(2) by simp
  qed (use "1.prems" in \<open>subst recv_loop.simps, simp\<close>)
qed

text \<open>The stream ends before the parameter is complete: whatever \<open>errno\<close> was, all input is gone.\<close>

lemma recv_loop_short:
  "conn_clean c \<Longrightarrow> length got + length (rx_bytes (rx c)) < len \<Longrightarrow>
   \<exists>e got' c'. recv_loop len got c = ((e, got'), c') \<and> conn_clean c' \<and> rx_bytes (rx c') = [] \<and> sent c' = sent c"
proof (induction len got c rule: recv_loop.induct)
  case (1 len got c)
  have lt: "length got < len" "0 < len - length got" using "1.prems"(2) by simp_all
  show ?case
  proof (cases "rx_bytes (rx c) = []")
    case True
    then show ?thesis
      using lt sock_recv_end [OF "1.prems"(1) True] "1.prems"(1) by (subst recv_loop.simps) (auto simp: Let_def)
  next
    case False
    obtain d c' where r: "d \<noteq> []" "length d \<le> len - length got"
      "sock_recv (len - length got) c = ((int (length d), d), c')"
      "rx_bytes (rx c) = d @ rx_bytes (rx c')" "conn_clean c'" "sent c' = sent c"
      using sock_recv_some [OF "1.prems"(1) False lt(2)] by blast
    have "recv_loop len got c = recv_loop len (got @ d) c'"
      using lt(1) r(1,3) by (subst recv_loop.simps) (simp add: Let_def)
    then show ?thesis using "1.IH" [OF lt(1) refl] r "1.prems"(2) by simp
  qed
qed

lemma send_all_clean:
  "conn_clean c \<Longrightarrow> \<exists>c'. edt_send_all buf c = (0, c') \<and> conn_clean c' \<and> sent c' = sent c @ buf \<and> rx c' = rx c"
proof (induction buf c rule: edt_send_all.induct)
  case (1 buf c)
  show ?case
  proof (cases "buf = []")
    case True
    then show ?thesis using "1.prems" by (subst edt_send_all.simps) simp
  next
    case False
    obtain m c' where s: "sock_send buf c = (int m, c')" "0 < m" "sent c' = sent c @ take m buf" "rx c' = rx c"
      "conn_clean c'"
    proof (cases "tx c")
      case Nil
      then show ?thesis
        using that [of "length buf" "c\<lparr>sent := sent c @ buf\<rparr>"] False "1.prems"
        by (auto simp: sock_send_def conn_clean_def)
    next
      case (Cons e r)
      then obtain k where "e = SendOk k" "k \<noteq> 0"
        using "1.prems" by (auto simp: conn_clean_def tx_clean_def split: tx_event.splits)
      then show ?thesis
        using that [of "min k (length buf)" "c\<lparr>tx := r, sent := sent c @ take k buf\<rparr>"] False "1.prems" Cons
        by (auto simp: sock_send_def conn_clean_def tx_clean_def min_def)
    qed
    have "\<exists>c''. edt_send_all (drop m buf) c' = (0, c'') \<and> conn_clean c'' \<and>
        sent c'' = sent c' @ drop m buf \<and> rx c'' = rx c'"
      using "1.IH" [OF False] s by simp
    moreover have "edt_send_all buf c = edt_send_all (drop m buf) c'"
      using False s by (subst edt_send_all.simps) (simp add: Let_def)
    ultimately show ?thesis using s by simp
  qed
qed

section \<open>The protocol, without the sockets\<close>

text \<open>What a client that sends \<open>bytes\<close> and closes gets: the analyzer afterwards and the reply.\<close>

abbreviation with_reply :: "u8 list \<Rightarrow> (logic_analyzer \<times> u8 list) option \<Rightarrow> (logic_analyzer \<times> u8 list) option" where
  "with_reply out r \<equiv> map_option (\<lambda>(la, rest). (la, out @ rest)) r"

fun sump_protocol ::
  "(nat \<Rightarrow> capture_env) \<Rightarrow> sump_config \<Rightarrow> nat \<Rightarrow> sump_session \<Rightarrow> logic_analyzer \<Rightarrow> u8 list \<Rightarrow>
   (logic_analyzer \<times> u8 list) option" where
  "sump_protocol W cfg k s la [] = Some (la, [])"
| "sump_protocol W cfg k s la (cmd # r) =
     (if cmd = 0x00 then sump_protocol W cfg k (fresh_session cfg) la r
      else if cmd = 0x02 then with_reply (ascii ''1ALS'') (sump_protocol W cfg k s la r)
      else if cmd = 0x04 then with_reply (metadata_block la) (sump_protocol W cfg k s la r)
      else if cmd = 0x01 then
        (if \<not> ce_alloc (W k) then Some (la, [])
         else case capture_reply (W k) cfg s la of
           None \<Rightarrow> None
         | Some (raw, la') \<Rightarrow> with_reply raw (sump_protocol W cfg (Suc k) s la' r))
      else if cmd \<ge> 0x80 then
        (if length r < 4 then Some (la, [])
         else sump_protocol W cfg k (set_parameter cmd (of_le_bytes (take 4 r)) s) la (drop 4 r))
      else Some (la, []))"

declare sump_protocol.simps(2) [simp del]

text \<open>The outcome of a client loop agrees with an outcome of the protocol.\<close>

definition serves :: "conn \<Rightarrow> (logic_analyzer \<times> conn) option \<Rightarrow> (logic_analyzer \<times> u8 list) option \<Rightarrow> bool" where
  "serves c res spec \<longleftrightarrow>
     (case spec of None \<Rightarrow> res = None
      | Some (la, out) \<Rightarrow> \<exists>c'. res = Some (la, c') \<and> sent c' = sent c @ out)"

lemma serves_same: "sent c' = sent c \<Longrightarrow> serves c' res spec = serves c res spec"
  by (simp only: serves_def)

lemma serves_reply:
  "serves c' res spec \<Longrightarrow> sent c' = sent c @ out \<Longrightarrow> serves c res (with_reply out spec)"
  by (auto simp: serves_def split: option.splits)

lemma client_loop_end:
  "conn_clean c \<Longrightarrow> rx_bytes (rx c) = [] \<Longrightarrow> client_loop W junk cfg k s la c = Some (la, c)"
  by (subst client_loop.simps) (simp add: sock_recv_end)

lemma client_loop_command:
  assumes "conn_clean c" "rx_bytes (rx c) = cmd # r"
  obtains c1 where "conn_clean c1" "rx_bytes (rx c1) = r" "sent c1 = sent c"
    "client_loop W junk cfg k s la c =
       (case client_command W junk cfg cmd k s la c1 of
          None \<Rightarrow> None
        | Some (running, k', s', la', c') \<Rightarrow>
            if running then client_loop W junk cfg k' s' la' c' else Some (la', c'))"
proof -
  have ne: "rx_bytes (rx c) \<noteq> []" using assms(2) by simp
  obtain d c' where r: "d \<noteq> []" "length d \<le> 1" "sock_recv 1 c = ((int (length d), d), c')"
    "rx_bytes (rx c) = d @ rx_bytes (rx c')" "conn_clean c'" "sent c' = sent c"
    using sock_recv_some [OF assms(1) ne, of 1] by auto
  then have d: "d = [cmd]" "rx_bytes (rx c') = r" using assms(2) by (cases d; simp)+
  have "client_loop W junk cfg k s la c =
       (case client_command W junk cfg cmd k s la c' of
          None \<Rightarrow> None
        | Some (running, k', s', la', c') \<Rightarrow>
            if running then client_loop W junk cfg k' s' la' c' else Some (la', c'))"
    using r(3) d by (subst client_loop.simps) simp
  then show ?thesis using that [of c'] r(5,6) d(2) by simp
qed

lemma protocol_commands:
  "sump_protocol W cfg k s la (0x00 # r) = sump_protocol W cfg k (fresh_session cfg) la r"
  "sump_protocol W cfg k s la (0x02 # r) = with_reply (ascii ''1ALS'') (sump_protocol W cfg k s la r)"
  "sump_protocol W cfg k s la (0x04 # r) = with_reply (metadata_block la) (sump_protocol W cfg k s la r)"
  "sump_protocol W cfg k s la (0x01 # r) =
     (if \<not> ce_alloc (W k) then Some (la, [])
      else case capture_reply (W k) cfg s la of
        None \<Rightarrow> None
      | Some (raw, la') \<Rightarrow> with_reply raw (sump_protocol W cfg (Suc k) s la' r))"
  by (simp_all add: sump_protocol.simps(2) del: sump_protocol.simps(1))

lemma protocol_parameter:
  assumes "cmd \<notin> {0x00, 0x02, 0x04, 0x01}"
  shows "sump_protocol W cfg k s la (cmd # r) =
    (if cmd \<ge> 0x80
     then if length r < 4 then Some (la, [])
          else sump_protocol W cfg k (set_parameter cmd (of_le_bytes (take 4 r)) s) la (drop 4 r)
     else Some (la, []))"
  using assms by (subst sump_protocol.simps(2)) auto

lemma client_parameter:
  assumes "cmd \<notin> {0x00, 0x02, 0x04, 0x01}"
  shows "client_command W junk cfg cmd k s la c =
    (if cmd \<ge> 0x80
     then (case edt_recv_exact junk c of
           ((ret, param_bytes), c') \<Rightarrow>
             if ret \<noteq> 0 then Some (False, k, s, la, c')
             else Some (True, k, set_parameter cmd (of_le_bytes (take 4 param_bytes)) s, la, c'))
     else Some (False, k, s, la, c))"
  using assms by (simp add: client_command_def)

lemma client_loop_serves:
  "conn_clean c \<Longrightarrow> length junk = 4 \<Longrightarrow> rx_bytes (rx c) = bytes \<Longrightarrow>
   serves c (client_loop W junk cfg k s la c) (sump_protocol W cfg k s la bytes)"
proof (induction "length bytes" arbitrary: bytes c k s la rule: less_induct)
  case less
  note IH = less.hyps [OF _ _ less.prems(2)]
  show ?case
  proof (cases bytes)
    case Nil
    then show ?thesis using less.prems by (simp add: client_loop_end serves_def)
  next
    case (Cons cmd r)
    have shorter: "length r < length bytes" "length (drop 4 r) < length bytes" using Cons by simp_all
    obtain c1 where c1: "conn_clean c1" "rx_bytes (rx c1) = r" "sent c1 = sent c"
      and loop: "client_loop W junk cfg k s la c =
         (case client_command W junk cfg cmd k s la c1 of
            None \<Rightarrow> None
          | Some (running, k', s', la', c') \<Rightarrow>
              if running then client_loop W junk cfg k' s' la' c' else Some (la', c'))"
      using client_loop_command [OF less.prems(1) less.prems(3) [unfolded Cons], of W junk cfg k s la] by blast
    have same: "serves c1 res spec \<Longrightarrow> serves c res spec" for res spec
      using serves_same [OF c1(3)] by simp
    have reply: "serves c (client_loop W junk cfg k' s la' c2) (with_reply out (sump_protocol W cfg k' s la' r))"
      if "edt_send_all out c1 = (0, c2)" "conn_clean c2" "sent c2 = sent c1 @ out" "rx c2 = rx c1" for out c2 k' la'
      using same serves_reply [OF IH [OF shorter(1) that(2)] that(3)] that(4) c1(2) by simp
    consider "cmd = 0x00" | "cmd = 0x02" | "cmd = 0x04" | "cmd = 0x01" | "cmd \<notin> {0x00, 0x02, 0x04, 0x01}"
      by auto
    then show ?thesis
    proof cases
      case 1
      have "client_loop W junk cfg k s la c = client_loop W junk cfg k (fresh_session cfg) la c1"
        using loop by (simp add: client_command_def 1)
      then show ?thesis
        unfolding Cons 1 protocol_commands using same IH [OF shorter(1) c1(1,2)] by simp
    next
      case 2
      obtain c2 where c2: "edt_send_all (ascii ''1ALS'') c1 = (0, c2)" "conn_clean c2"
        "sent c2 = sent c1 @ ascii ''1ALS''" "rx c2 = rx c1" using send_all_clean [OF c1(1)] by blast
      have "client_loop W junk cfg k s la c = client_loop W junk cfg k s la c2"
        using loop by (simp add: client_command_def 2 c2(1))
      then show ?thesis unfolding Cons 2 protocol_commands using reply [OF c2] by simp
    next
      case 3
      obtain c2 where c2: "edt_send_all (metadata_block la) c1 = (0, c2)" "conn_clean c2"
        "sent c2 = sent c1 @ metadata_block la" "rx c2 = rx c1" using send_all_clean [OF c1(1)] by blast
      have "client_loop W junk cfg k s la c = client_loop W junk cfg k s la c2"
        using loop by (simp add: client_command_def edt_send_metadata_def 3 c2(1))
      then show ?thesis unfolding Cons 3 protocol_commands using reply [OF c2] by simp
    next
      case 4
      show ?thesis
      proof (cases "ce_alloc (W k)")
        case False
        then have "client_loop W junk cfg k s la c = Some (la, c1)"
          using loop by (simp add: client_command_def edt_sump_stream_capture_def 4 ENOMEM_def)
        then show ?thesis unfolding Cons 4 protocol_commands using False c1(3) by (simp add: serves_def)
      next
        case alloc: True
        show ?thesis
        proof (cases "capture_reply (W k) cfg s la")
          case None
          then have "client_loop W junk cfg k s la c = None"
            using loop alloc by (simp add: client_command_def edt_sump_stream_capture_def 4)
          then show ?thesis unfolding Cons 4 protocol_commands using alloc None by (simp add: serves_def)
        next
          case (Some res)
          obtain raw la' where res: "res = (raw, la')" by fastforce
          obtain c2 where c2: "edt_send_all raw c1 = (0, c2)" "conn_clean c2"
            "sent c2 = sent c1 @ raw" "rx c2 = rx c1" using send_all_clean [OF c1(1)] by blast
          have "client_loop W junk cfg k s la c = client_loop W junk cfg (Suc k) s la' c2"
            using loop alloc Some res c2(1) by (simp add: client_command_def edt_sump_stream_capture_def 4)
          then show ?thesis unfolding Cons 4 protocol_commands using alloc Some res reply [OF c2] by simp
        qed
      qed
    next
      case 5
      note cmd = loop [unfolded client_parameter [OF 5] edt_recv_exact_def less.prems(2)]
      consider "\<not> cmd \<ge> 0x80" | "cmd \<ge> 0x80" "length r < 4" | "cmd \<ge> 0x80" "\<not> length r < 4" by blast
      then show ?thesis
      proof cases
        case 1
        then show ?thesis
          unfolding Cons protocol_parameter [OF 5] using cmd c1(3) by (simp only: if_False) (simp add: serves_def)
      next
        case 2
        obtain e got c2 where rl: "recv_loop 4 [] c1 = ((e, got), c2)" "conn_clean c2" "rx_bytes (rx c2) = []"
          "sent c2 = sent c1" using recv_loop_short [OF c1(1), of "[]" 4] 2(2) c1(2) by auto
        then have "client_loop W junk cfg k s la c = Some (la, c2)"
          using cmd 2(1) by (cases "e = 0") (simp_all add: client_loop_end)
        then show ?thesis
          unfolding Cons protocol_parameter [OF 5] using 2 rl(4) c1(3) by (simp add: serves_def)
      next
        case 3
        obtain c2 where rl: "recv_loop 4 [] c1 = ((0, [] @ take 4 r), c2)" "conn_clean c2"
          "rx_bytes (rx c2) = drop 4 r" "sent c2 = sent c1"
          using recv_loop_clean [OF c1(1), of "[]" "take 4 r" 4 "drop 4 r"] 3(2) c1(2) by auto
        let ?s = "set_parameter cmd (of_le_bytes (take 4 r)) s"
        have "client_loop W junk cfg k s la c = client_loop W junk cfg k ?s la c2"
          using cmd 3 rl(1) by (simp add: min_def)
        moreover have "serves c2 (client_loop W junk cfg k ?s la c2) (sump_protocol W cfg k ?s la (drop 4 r))"
          by (rule IH [OF shorter(2) rl(2,3)])
        ultimately show ?thesis
          unfolding Cons protocol_parameter [OF 5] using 3 serves_same [of c2 c] rl(4) c1(3) by simp
      qed
    qed
  qed
qed

text \<open>C22. The client thread serves the byte stream, not its packets: however TCP cuts the commands
  into chunks and however little each send takes, a client that sends \<open>bytes\<close> and closes gets the
  replies of the commands in order, and a parameter cut off by the close has no effect.\<close>

theorem sump_client_serves_protocol:
  assumes "conn_clean c" and "length junk = 4" and "rx_bytes (rx c) = bytes"
    and "sump_protocol W cfg 0 (fresh_session cfg) la bytes = Some (la', out)"
  shows "\<exists>c'. edt_sump_client_thread W junk cfg la c = Some (la', c') \<and> sent c' = sent c @ out"
  using client_loop_serves [OF assms(1-3), of W cfg 0 "fresh_session cfg" la] assms(4)
  by (simp add: edt_sump_client_thread_def serves_def)

section \<open>What a session sets up\<close>

lemma bit_test: "(drop_bit n v AND 1 = (0 :: u8)) = (\<not> bit v n)"
  by (simp add: and_one_eq bit_iff_odd_drop_bit even_iff_mod_2_eq_zero)

lemma first_channel_spec:
  assumes "m \<noteq> 0"
  shows "\<forall>j<ch. \<not> bit m j \<Longrightarrow> ch \<le> 8 \<Longrightarrow>
    first_channel m ch < 8 \<and> bit m (first_channel m ch) \<and> (\<forall>j<first_channel m ch. \<not> bit m j)"
proof (induction "8 - ch" arbitrary: ch)
  case 0
  then have "m = 0" by (intro bit_word_eqI) simp
  then show ?case using assms by simp
next
  case (Suc d)
  show ?case
  proof (cases "bit m ch")
    case True
    then show ?thesis using Suc by (subst (1 2 3) first_channel.simps) (simp add: bit_test)
  next
    case False
    then have "\<forall>j<Suc ch. \<not> bit m j" using Suc.prems(1) less_Suc_eq by auto
    moreover have "first_channel m ch = first_channel m (Suc ch)"
      using False Suc.hyps(2) by (subst first_channel.simps) (auto simp: bit_test)
    ultimately show ?thesis using Suc.hyps(1) [of "Suc ch"] Suc.hyps(2) by simp
  qed
qed

lemma session_trigger_channel:
  "channel (session_trigger s) =
     of_nat (if trigger_mask s = 0 then 0 else first_channel (trigger_mask s) 0)"
  "unat (channel (session_trigger s)) = (if trigger_mask s = 0 then 0 else first_channel (trigger_mask s) 0)"
  "channel (session_trigger s) < 8"
proof -
  have lt: "(if trigger_mask s = 0 then 0 else first_channel (trigger_mask s) 0) < 8"
    using first_channel_spec [of "trigger_mask s" 0] by simp
  then show 1: "channel (session_trigger s) =
      of_nat (if trigger_mask s = 0 then 0 else first_channel (trigger_mask s) 0)"
    by (auto simp: session_trigger_def Let_def)
  show 2: "unat (channel (session_trigger s)) = (if trigger_mask s = 0 then 0 else first_channel (trigger_mask s) 0)"
    unfolding 1 using lt by (simp add: unat_of_nat)
  show "channel (session_trigger s) < 8"
    using lt by (simp add: word_less_nat_alt 2)
qed

lemma all_ones: "(0xFFFFFFFF :: u32) = - 1"
  by simp

lemma session_rate_spec:
  "session_rate mx d = (if d = 0xFFFFFFFF then None else Some (if mx div (d + 1) = 0 then 1 else mx div (d + 1)))"
proof -
  have "d + 1 = 0 \<longleftrightarrow> d = 0xFFFFFFFF" using eq_neg_iff_add_eq_0 [of d 1] all_ones by metis
  then show ?thesis by (auto simp: session_rate_def Let_def)
qed

text \<open>C23. Applying a session: a divider of 0xFFFFFFFF, which any client may send, makes the divisor
  wrap to zero and the server divide by it; with any other divider the analyzer runs at the maximum
  rate divided by one more than the divider, at least 1 Hz, the trigger watches the lowest channel
  of the mask, and the analyzer is armed exactly when there is a trigger.\<close>

theorem sump_apply_session_spec:
  assumes "la_ok la"
  shows "if divider s = 0xFFFFFFFF then edt_sump_apply_session la s = None
    else \<exists>la'. edt_sump_apply_session la s = Some la' \<and> la_ok la' \<and>
      unat (sample_rate_hz (la_config la')) =
        max 1 (unat (max_sample_rate_hz (la_config la)) div (unat (divider s) + 1)) \<and>
      la_trigger la' = session_trigger s \<and>
      (la_armed la' \<noteq> 0 \<longleftrightarrow> mode (session_trigger s) \<noteq> TRIGGER_NONE) \<and>
      (trigger_mask s \<noteq> 0 \<longrightarrow> bit (trigger_mask s) (unat (channel (session_trigger s))) \<and>
        (\<forall>j<unat (channel (session_trigger s)). \<not> bit (trigger_mask s) j))"
proof (cases "divider s = 0xFFFFFFFF")
  case True
  then show ?thesis by (simp add: edt_sump_apply_session_def session_rate_spec)
next
  case False
  let ?mx = "max_sample_rate_hz (la_config la)" and ?t = "session_trigger s"
  define r where "r = (if ?mx div (divider s + 1) = 0 then 1 else ?mx div (divider s + 1))"
  have "divider s \<noteq> - 1" using False unfolding all_ones .
  then have u: "unat (divider s + 1) = unat (divider s) + 1"
    by (metis Suc_eq_plus1 add.commute unatSuc eq_neg_iff_add_eq_0)
  have mx: "1 \<le> unat ?mx" using assms by (auto simp: la_ok_def word_less_nat_alt word_le_nat_alt)
  have ur: "unat r = max 1 (unat ?mx div (unat (divider s) + 1))"
    unfolding r_def by (simp add: unat_div u unat_eq_0 [symmetric] max_def)
  have "unat r \<le> unat ?mx" unfolding ur using mx by (intro max.boundedI div_le_dividend)
  moreover have "1 \<le> unat r" unfolding ur by simp
  ultimately have rr: "\<not> r > ?mx" "r \<noteq> 0" by (auto simp: word_less_nat_alt)
  let ?l1 = "la\<lparr>la_config := (la_config la)\<lparr>sample_rate_hz := r\<rparr>, la_period_ns := period_of r\<rparr>"
  let ?l2 = "?l1\<lparr>la_trigger := ?t, la_armed := (if mode ?t = TRIGGER_NONE then 0 else 1)\<rparr>"
  have ch: "\<not> channel ?t \<ge> EDT_MAX_CHANNELS"
    using session_trigger_channel(3) [of s] by (simp add: EDT_MAX_CHANNELS_def)
  have s1: "edt_logic_analyzer_set_sample_rate (Some la) r = (0, Some ?l1)"
    using rr by (simp add: edt_logic_analyzer_set_sample_rate_def)
  have s2: "edt_logic_analyzer_set_trigger (Some ?l1) (Some ?t) = (0, Some ?l2)"
    using ch by (simp only: edt_logic_analyzer_set_trigger_def prod.case option.case if_False)
  have s3: "snd (edt_logic_analyzer_arm (Some ?l2)) = Some ?l2"
    by (simp add: edt_logic_analyzer_arm_def)
  have ok: "la_ok ?l2"
    using la_apply_ok [OF la_apply_ok [OF assms, of "CallSetRate r" ?l1], of "CallSetTrigger (Some ?t)" ?l2] s1 s2
    by simp
  have "edt_sump_apply_session la s = Some ?l2"
    using False s1 s2 s3 by (simp add: edt_sump_apply_session_def session_rate_spec r_def [symmetric])
  then show ?thesis
    using False ok ur session_trigger_channel(2) [of s] first_channel_spec [of "trigger_mask s" 0] by simp
qed

section \<open>The listener\<close>

record sump_server =
  ss_config :: sump_config
  ss_running :: int
  ss_listen_fd :: int

definition edt_sump_server_init ::
  "sump_server ptr \<Rightarrow> logic_analyzer ptr \<Rightarrow> sump_config ptr \<Rightarrow> int \<times> sump_server ptr" where
  "edt_sump_server_init sp lap configp =
     (case (sp, lap) of
        (Some _, Some _) \<Rightarrow>
          (0, Some \<lparr>ss_config =
             \<lparr>bind_ip = (case configp of
                Some c \<Rightarrow> (case bind_ip c of Some ip \<Rightarrow> Some ip | None \<Rightarrow> Some ''0.0.0.0'')
              | None \<Rightarrow> Some ''0.0.0.0''),
              port = (case configp of Some c \<Rightarrow> if port c \<noteq> 0 then port c else 9527 | None \<Rightarrow> 9527),
              capture_samples = (case configp of
                Some c \<Rightarrow> if capture_samples c \<noteq> 0 then capture_samples c else 4096 | None \<Rightarrow> 4096)\<rparr>,
             ss_running = 0, ss_listen_fd = - 1\<rparr>)
      | _ \<Rightarrow> (- EINVAL, sp))"

text \<open>How the system calls of a start end: NULL is success, otherwise the errno value.\<close>

record start_env =
  se_socket :: "int ptr"
  se_pton :: bool
  se_bind :: "int ptr"
  se_listen :: "int ptr"
  se_thread :: "int ptr"

definition edt_sump_server_start ::
  "start_env \<Rightarrow> fd_table \<Rightarrow> sump_server ptr \<Rightarrow> int \<times> fd_table \<times> sump_server ptr" where
  "edt_sump_server_start se fds sp =
     (case sp of
        None \<Rightarrow> (- EINVAL, fds, NULL)
      | Some s \<Rightarrow>
          if ss_running s \<noteq> 0 then (0, fds, Some s)
          else case se_socket se of
            Some e \<Rightarrow> (- e, fds, Some (s\<lparr>ss_listen_fd := - 1\<rparr>))
          | None \<Rightarrow>
              let fd = fd_new fds; fds' = fd # fds;
                  closed = (\<lambda>ret. (ret, fd_close fd fds', Some (s\<lparr>ss_running := 0, ss_listen_fd := - 1\<rparr>)))
              in if \<not> se_pton se then closed (- EINVAL)
                 else case se_bind se of
                   Some e \<Rightarrow> closed (- e)
                 | None \<Rightarrow>
                     (case se_listen se of
                        Some e \<Rightarrow> closed (- e)
                      | None \<Rightarrow>
                          (case se_thread se of
                             Some e \<Rightarrow> closed (- e)
                           | None \<Rightarrow> (0, fds', Some (s\<lparr>ss_running := 1, ss_listen_fd := fd\<rparr>)))))"

definition edt_sump_server_stop ::
  "fd_table \<Rightarrow> sump_server ptr \<Rightarrow> int \<times> fd_table \<times> sump_server ptr" where
  "edt_sump_server_stop fds sp =
     (case sp of
        None \<Rightarrow> (- EINVAL, fds, NULL)
      | Some s \<Rightarrow>
          if ss_running s = 0 then (0, fds, Some s)
          else if ss_listen_fd s \<ge> 0
          then (0, fd_close (ss_listen_fd s) fds, Some (s\<lparr>ss_running := 0, ss_listen_fd := - 1\<rparr>))
          else (0, fds, Some (s\<lparr>ss_running := 0\<rparr>)))"

definition edt_sump_server_destroy :: "fd_table \<Rightarrow> sump_server ptr \<Rightarrow> fd_table \<times> sump_server ptr" where
  "edt_sump_server_destroy fds sp =
     (case sp of None \<Rightarrow> (fds, NULL) | Some _ \<Rightarrow> snd (edt_sump_server_stop fds sp))"

datatype sump_call = SumpStart start_env | SumpStop

fun sump_run :: "sump_call list \<Rightarrow> fd_table \<Rightarrow> sump_server \<Rightarrow> fd_table \<times> sump_server" where
  "sump_run [] fds s = (fds, s)"
| "sump_run (SumpStart se # cs) fds s =
     (case edt_sump_server_start se fds (Some s) of (_, fds', sp) \<Rightarrow> sump_run cs fds' (the sp))"
| "sump_run (SumpStop # cs) fds s =
     (case edt_sump_server_stop fds (Some s) of (_, fds', sp) \<Rightarrow> sump_run cs fds' (the sp))"

definition sump_owns :: "fd_table \<Rightarrow> fd_table \<Rightarrow> sump_server \<Rightarrow> bool" where
  "sump_owns base fds s \<longleftrightarrow>
     (if ss_running s = 0 then ss_listen_fd s = - 1 \<and> fds = base
      else 0 \<le> ss_listen_fd s \<and> ss_listen_fd s \<notin> set base \<and> fds = ss_listen_fd s # base)"

lemma sump_start_owns:
  "sump_owns base fds s \<Longrightarrow> edt_sump_server_start se fds (Some s) = (r, fds', sp) \<Longrightarrow>
   sump_owns base fds' (the sp)"
  by (auto simp: edt_sump_server_start_def sump_owns_def Let_def split: if_splits option.splits)

lemma sump_stop_owns:
  "sump_owns base fds s \<Longrightarrow> edt_sump_server_stop fds (Some s) = (r, fds', sp) \<Longrightarrow>
   sump_owns base fds' (the sp) \<and> fds' = base"
  by (auto simp: edt_sump_server_stop_def sump_owns_def split: if_splits)

lemma sump_run_owns: "sump_owns base fds s \<Longrightarrow> sump_run cs fds s = (fds', s') \<Longrightarrow> sump_owns base fds' s'"
  by (induction cs fds s rule: sump_run.induct)
    (auto split: prod.splits dest: sump_start_owns sump_stop_owns)

text \<open>From initialisation on, through any starts, failed starts at any system call, and stops,
  the server holds its listening socket exactly while it runs and no other descriptor; after a
  stop the process's descriptors are those it had before.\<close>

theorem sump_server_no_leak:
  assumes "edt_sump_server_init (Some s0) (Some la) config = (r, Some s)"
    and "sump_run cs fds s = (fds', s')"
  shows "sump_owns fds fds' s' \<and> fst (edt_sump_server_destroy fds' (Some s')) = fds"
proof -
  have "sump_owns fds fds s"
    using assms(1) by (auto simp: edt_sump_server_init_def sump_owns_def)
  then have own: "sump_owns fds fds' s'" using assms(2) by (rule sump_run_owns)
  then show ?thesis
    using sump_stop_owns [OF own] by (cases "edt_sump_server_stop fds' (Some s')")
      (auto simp: edt_sump_server_destroy_def)
qed

section \<open>Instances\<close>

definition sump_demo_env :: capture_env where
  "sump_demo_env = \<lparr>ce_sampler = (\<lambda>_ rb. rb), ce_clock = (\<lambda>k. of_nat k * 600000000), ce_start = 0,
                    ce_alloc = False\<rparr>"

definition sump_demo_cfg :: sump_config where
  "sump_demo_cfg = \<lparr>bind_ip = NULL, port = 9527, capture_samples = 4096\<rparr>"

theorem sump_client_serves_protocol_witness:
  "\<exists>c'. edt_sump_client_thread (\<lambda>_. sump_demo_env) [9, 9, 9, 9] sump_demo_cfg (la_demo one_pulse 0)
      \<lparr>rx = [Chunk [0x80, 1], Chunk [0, 0], Chunk [0, 0x02, 0xC0, 7]], tx = [SendOk 3], sent = [],
       conn_errno = 0\<rparr> = Some (la_demo one_pulse 0, c') \<and> sent c' = ascii ''1ALS''"
proof -
  let ?c = "\<lparr>rx = [Chunk [0x80, 1], Chunk [0, 0], Chunk [0, 0x02, 0xC0, 7]], tx = [SendOk 3], sent = [],
       conn_errno = 0\<rparr> :: conn"
  have "conn_clean ?c" by (simp add: conn_clean_def rx_clean_def tx_clean_def)
  moreover have "rx_bytes (rx ?c) = [0x80, 1, 0, 0, 0, 0x02, 0xC0, 7]" by (simp add: rx_bytes_def)
  moreover have "sump_protocol (\<lambda>_. sump_demo_env) sump_demo_cfg 0 (fresh_session sump_demo_cfg)
      (la_demo one_pulse 0) [0x80, 1, 0, 0, 0, 0x02, 0xC0, 7] =
      Some (la_demo one_pulse 0, ascii ''1ALS'')"
    by (simp add: protocol_parameter protocol_commands)
  ultimately show ?thesis
    using sump_client_serves_protocol [of ?c "[9, 9, 9, 9]" "[0x80, 1, 0, 0, 0, 0x02, 0xC0, 7]"
        "\<lambda>_. sump_demo_env" sump_demo_cfg "la_demo one_pulse 0"] by auto
qed

lemma la_demo_ok: "la_ok (la_demo one_pulse 0)"
  using ring_demo_whole
  by (simp add: la_ok_def la_demo_def period_of_def EDT_MAX_SAMPLE_RATE_HZ_def EDT_MAX_CHANNELS_def)

theorem sump_apply_session_spec_witness:
  "edt_sump_apply_session (la_demo one_pulse 0) ((fresh_session sump_demo_cfg)\<lparr>divider := 0xFFFFFFFF\<rparr>) = None \<and>
   (\<exists>la'. edt_sump_apply_session (la_demo one_pulse 0) ((fresh_session sump_demo_cfg)\<lparr>divider := 9\<rparr>) = Some la' \<and>
     unat (sample_rate_hz (la_config la')) = 100000)"
  using sump_apply_session_spec [OF la_demo_ok, of "(fresh_session sump_demo_cfg)\<lparr>divider := 0xFFFFFFFF\<rparr>"]
    sump_apply_session_spec [OF la_demo_ok, of "(fresh_session sump_demo_cfg)\<lparr>divider := 9\<rparr>"]
  by (auto simp: la_demo_def)

theorem sump_server_no_leak_witness:
  "\<exists>s. edt_sump_server_init (Some \<lparr>ss_config = sump_demo_cfg, ss_running = 7, ss_listen_fd = 3\<rparr>)
       (Some (la_demo one_pulse 0)) NULL = (0, Some s) \<and>
     fst (sump_run [SumpStart \<lparr>se_socket = NULL, se_pton = True, se_bind = Some 98, se_listen = NULL,
       se_thread = NULL\<rparr>] [0, 1, 2] s) = [0, 1, 2]"
proof -
  let ?cs = "[SumpStart \<lparr>se_socket = NULL, se_pton = True, se_bind = Some 98, se_listen = NULL,
       se_thread = NULL\<rparr>]"
  obtain s where s: "edt_sump_server_init (Some \<lparr>ss_config = sump_demo_cfg, ss_running = 7, ss_listen_fd = 3\<rparr>)
       (Some (la_demo one_pulse 0)) NULL = (0, Some s)" "ss_running s = 0"
    by (simp add: edt_sump_server_init_def)
  obtain fds' s' where r: "sump_run ?cs [0, 1, 2] s = (fds', s')" by fastforce
  have "ss_running s' = 0"
    using r s(2) by (auto simp: edt_sump_server_start_def Let_def split: prod.splits)
  then have "fds' = [0, 1, 2]"
    using sump_server_no_leak [OF s(1) r] by (simp add: sump_owns_def)
  then show ?thesis using s(1) r by auto
qed

end
