(* ===== verification/EdtTime.thy ===== *)
theory EdtTime
  imports CText
begin

text \<open>
  The clock and sleep helpers of \<open>src/core/edt_time.c\<close>. The clock and the outcomes of
  \<open>nanosleep\<close> are parameters.
\<close>

text \<open>\<open>ts\<close>: what \<open>clock_gettime\<close> stores, seconds and nanoseconds; NULL when it fails.\<close>

definition edt_now_ns :: "(u64 \<times> u64) ptr \<Rightarrow> u64" where
  "edt_now_ns ts = (case ts of None \<Rightarrow> 0 | Some (sec, nsec) \<Rightarrow> sec * 1000000000 + nsec)"

definition edt_now_ms :: "(u64 \<times> u64) ptr \<Rightarrow> u64" where
  "edt_now_ms ts = edt_now_ns ts div 1000000"

text \<open>\<open>%06\<close>: at least six digits.\<close>

definition pad_zeros :: "nat \<Rightarrow> string \<Rightarrow> string" where
  "pad_zeros w s = replicate (w - length s) (CHR ''0'') @ s"

definition edt_format_local_time :: "u64 \<Rightarrow> nat \<Rightarrow> string" where
  "edt_format_local_time ts out_size =
     (if out_size = 0 then []
      else snprintf_str out_size
        (dec_string (unat (ts div 1000000000)) @ ''.'' @
         pad_zeros 6 (dec_string (unat ((ts mod 1000000000) div 1000)))))"

text \<open>
  \<open>nanosleep (&req, &req)\<close> interrupted leaves the time that remains; \<open>interrupts\<close> lists
  what remains after each interruption, and the call after the last one completes. The result is
  the number of calls. The requested time is that of the first call.
\<close>

fun sleep_loop :: "(u64 \<times> u64) list \<Rightarrow> nat" where
  "sleep_loop [] = 1"
| "sleep_loop ((sec, nsec) # rest) = (if sec = 0 \<and> nsec = 0 then 1 else Suc (sleep_loop rest))"

definition sleep_request :: "u64 \<Rightarrow> u64 \<times> u64" where
  "sleep_request d = (d div 1000000000, d mod 1000000000)"

definition edt_sleep_ns :: "(u64 \<times> u64) list \<Rightarrow> u64 \<Rightarrow> int \<times> nat" where
  "edt_sleep_ns interrupts d = (0, sleep_loop interrupts)"

text \<open>The fraction of a formatted time always has six digits.\<close>

lemma format_time_fraction:
  "length (pad_zeros 6 (dec_string (unat ((ts mod 1000000000) div 1000 :: u64)))) = 6"
proof -
  have "unat (ts mod 1000000000) < 1000000000" by (simp add: unat_mod)
  then have "unat (ts mod 1000000000 div 1000) < 10 ^ Suc 5" by (simp add: unat_div)
  from dec_string_length [OF this] show ?thesis by (simp add: pad_zeros_def)
qed

lemma sleep_request_valid: "unat (snd (sleep_request d)) < 1000000000"
  by (simp add: sleep_request_def unat_mod)

end
