(* ===== verification/V4l2Debugger.thy ===== *)
theory V4l2Debugger
  imports CText Posix EdtTime
begin

text \<open>
  The camera probe of \<open>src/tools/v4l2_debugger.c\<close>. What the driver answers is a parameter: the
  outcome of \<open>open\<close>, the capability record, and the formats \<open>VIDIOC_ENUM_FMT\<close> lists
  before it fails.
\<close>

record v4l2_probe_result =
  available :: int
  v4l2_device :: string
  driver :: string
  card :: string
  capabilities :: u32
  probe_timestamp_ns :: u64

record v4l2_capability =
  cap_driver :: string
  cap_card :: string
  cap_capabilities :: u32

definition probe_clear :: "u64 \<Rightarrow> string \<Rightarrow> v4l2_probe_result" where
  "probe_clear now device = \<lparr>available = 0, v4l2_device = snprintf_str 64 device, driver = [], card = [],
     capabilities = 0, probe_timestamp_ns = now\<rparr>"

text \<open>\<open>opened\<close> is the errno of \<open>open\<close> or NULL; \<open>queried\<close> the errno of the query or the
  capabilities.\<close>

definition edt_v4l2_probe ::
  "u64 \<Rightarrow> int ptr \<Rightarrow> int + v4l2_capability \<Rightarrow> fd_table \<Rightarrow> string ptr \<Rightarrow> v4l2_probe_result ptr \<Rightarrow>
   int \<times> fd_table \<times> v4l2_probe_result ptr" where
  "edt_v4l2_probe now opened queried fds devicep resultp =
     (case (devicep, resultp) of
        (Some device, Some _) \<Rightarrow>
          let r0 = probe_clear now device
          in (case opened of
                Some e \<Rightarrow> (- e, fds, Some r0)
              | None \<Rightarrow>
                  let fd = fd_new fds; fds1 = fd # fds
                  in (case queried of
                        Inl err \<Rightarrow> (- err, fd_close fd fds1, Some r0)
                      | Inr cap \<Rightarrow>
                          (0, fd_close fd fds1,
                           Some (r0\<lparr>available := 1, capabilities := cap_capabilities cap,
                                    driver := snprintf_str 64 (cap_driver cap),
                                    card := snprintf_str 64 (cap_card cap)\<rparr>))))
      | _ \<Rightarrow> (- EINVAL, fds, resultp))"

record v4l2_fmtdesc =
  pixelformat :: u32
  description :: string

definition hex8_string :: "u32 \<Rightarrow> string" where
  "hex8_string v = pad_zeros 8 (hex_string (unat v))"

definition format_line :: "nat \<Rightarrow> v4l2_fmtdesc \<Rightarrow> string" where
  "format_line index f =
     ''#'' @ dec_string index @ '' fourcc=0x'' @ hex8_string (pixelformat f) @ '' desc='' @ description f @
     [CHR 0x0A]"

text \<open>
  The enumeration loop: the text written so far is \<open>out\<close>, so \<open>pos\<close> is its length.
  \<open>snprintf\<close> into the rest of the buffer keeps what fits.
\<close>

fun dump_loop :: "nat \<Rightarrow> string \<Rightarrow> nat \<Rightarrow> v4l2_fmtdesc list \<Rightarrow> string" where
  "dump_loop buffer_size out index [] = out"
| "dump_loop buffer_size out index (f # fs) =
     (let s = format_line index f; room = buffer_size - length out; out' = out @ snprintf_str room s
      in if length s \<ge> room then out' else dump_loop buffer_size out' (Suc index) fs)"

definition edt_v4l2_dump_formats ::
  "int ptr \<Rightarrow> (int \<Rightarrow> string) \<Rightarrow> v4l2_fmtdesc list \<Rightarrow> fd_table \<Rightarrow> string ptr \<Rightarrow> string ptr \<Rightarrow> nat \<Rightarrow>
   int \<times> fd_table \<times> string ptr" where
  "edt_v4l2_dump_formats opened strerror formats fds devicep bufferp buffer_size =
     (case (devicep, bufferp) of
        (Some device, Some _) \<Rightarrow>
          if buffer_size = 0 then (- EINVAL, fds, bufferp)
          else (case opened of
              Some e \<Rightarrow> (- e, fds, Some (snprintf_str buffer_size (''open('' @ device @ '') failed: '' @ strerror e)))
            | None \<Rightarrow>
                let fd = fd_new fds; fds1 = fd # fds;
                    text = dump_loop buffer_size [] 0 formats;
                    out = (if text = [] then snprintf_str buffer_size (''No capture formats found on '' @ device)
                           else text)
                in (0, fd_close fd fds1, Some out))
      | _ \<Rightarrow> (- EINVAL, fds, bufferp))"

section \<open>The listing is the full text, cut to the buffer\<close>

fun format_lines :: "nat \<Rightarrow> v4l2_fmtdesc list \<Rightarrow> string" where
  "format_lines index [] = []"
| "format_lines index (f # fs) = format_line index f @ format_lines (Suc index) fs"

lemma dump_loop_eq:
  "length out < sz \<Longrightarrow> dump_loop sz out index fs = take (sz - 1) (out @ format_lines index fs)"
proof (induction sz out index fs rule: dump_loop.induct)
  case (2 sz out index f fs)
  let ?s = "format_line index f"
  show ?case
  proof (cases "length ?s \<ge> sz - length out")
    case True
    then show ?thesis using "2.prems" by (simp add: snprintf_str_def Let_def)
  next
    case False
    then have "dump_loop sz out index (f # fs) = dump_loop sz (out @ ?s) (Suc index) fs"
      by (simp add: snprintf_str_def)
    also have "\<dots> = take (sz - 1) ((out @ ?s) @ format_lines (Suc index) fs)"
      using False "2.IH" [OF refl refl refl] "2.prems" by (simp add: snprintf_str_def)
    finally show ?thesis by simp
  qed
qed simp

text \<open>Whatever formats the driver lists and however small the buffer, the listing is the full
  text of all formats cut to the buffer with its NUL: no line is lost before the cut, nothing is
  written past the end, and the device is closed again.\<close>

theorem dump_formats_cut:
  assumes "formats \<noteq> []" and "2 \<le> buffer_size"
  shows "edt_v4l2_dump_formats NULL strerror formats fds (Some device) (Some buf) buffer_size =
    (0, fds, Some (take (buffer_size - 1) (format_lines 0 formats)))"
proof -
  have "take (buffer_size - 1) (format_lines 0 formats) \<noteq> []"
    using assms by (cases formats) (auto simp: format_line_def)
  then show ?thesis
    using assms by (simp add: edt_v4l2_dump_formats_def dump_loop_eq Let_def)
qed

theorem dump_formats_cut_witness:
  "edt_v4l2_dump_formats NULL (\<lambda>_. []) [\<lparr>pixelformat = 0x56595559, description = ''YUYV 4:2:2''\<rparr>] [0, 1, 2]
     (Some ''/dev/video0'') (Some []) 24 = (0, [0, 1, 2], Some ''#0 fourcc=0x56595559 de'')"
proof -
  let ?f = "[\<lparr>pixelformat = 0x56595559, description = ''YUYV 4:2:2''\<rparr>]"
  have "take (24 - 1) (format_lines 0 ?f) = ''#0 fourcc=0x56595559 de''"
    by (simp add: format_line_def hex8_string_def pad_zeros_def hex_string.simps dec_string.simps
        digit_char_simps)
  then show ?thesis
    using dump_formats_cut [of ?f 24 "\<lambda>_. []" "[0, 1, 2]" "''/dev/video0''" "[]"] by simp
qed

end
