(* ===== verification/NetCapture.thy ===== *)
theory NetCapture
  imports EdtTime Posix
begin

text \<open>
  The packet counter of \<open>src/tools/net_capture.c\<close>: the statistics of one packet, the capture
  thread over what \<open>recv\<close> delivers, and the start and stop of the raw socket.
\<close>

record net_config =
  interface_name :: "string ptr"
  promiscuous :: int

record net_stats =
  ns_timestamp_ns :: u64
  packets_total :: u64
  bytes_total :: u64
  ipv4_packets :: u64
  arp_packets :: u64
  tcp_packets :: u64
  udp_packets :: u64
  icmp_packets :: u64
  other_packets :: u64

record net_capture =
  nc_config :: net_config
  nc_running :: int
  nc_stats :: net_stats
  nc_socket_fd :: int

definition stats_zero :: net_stats where
  "stats_zero = \<lparr>ns_timestamp_ns = 0, packets_total = 0, bytes_total = 0, ipv4_packets = 0, arp_packets = 0,
                 tcp_packets = 0, udp_packets = 0, icmp_packets = 0, other_packets = 0\<rparr>"

text \<open>The Ethernet type, big-endian at offset 12, and the protocol of the IPv4 header behind it.\<close>

definition eth_type :: "u8 list \<Rightarrow> u16" where
  "eth_type p = push_bit 8 (ucast (p ! 12)) OR ucast (p ! 13)"

definition ip_protocol :: "u8 list \<Rightarrow> u8" where
  "ip_protocol p = p ! 23"

definition edt_net_update_stats :: "u64 \<Rightarrow> net_capture \<Rightarrow> u8 list \<Rightarrow> net_capture" where
  "edt_net_update_stats now c p =
     (if length p < 14 then c
      else
        let s = nc_stats c;
            s1 = s\<lparr>ns_timestamp_ns := now, packets_total := packets_total s + 1,
                   bytes_total := bytes_total s + of_nat (length p)\<rparr>;
            s2 = (if eth_type p = 0x0806 then s1\<lparr>arp_packets := arp_packets s1 + 1\<rparr>
                  else if eth_type p = 0x0800 then
                    let s3 = s1\<lparr>ipv4_packets := ipv4_packets s1 + 1\<rparr>
                    in if length p \<ge> 34
                       then (if ip_protocol p = 6 then s3\<lparr>tcp_packets := tcp_packets s3 + 1\<rparr>
                             else if ip_protocol p = 17 then s3\<lparr>udp_packets := udp_packets s3 + 1\<rparr>
                             else if ip_protocol p = 1 then s3\<lparr>icmp_packets := icmp_packets s3 + 1\<rparr>
                             else s3\<lparr>other_packets := other_packets s3 + 1\<rparr>)
                       else s3
                  else s1\<lparr>other_packets := other_packets s1 + 1\<rparr>)
        in c\<lparr>nc_stats := s2\<rparr>)"

text \<open>What one turn of the capture thread's \<open>recv\<close> finds, with the time of its statistics.\<close>

datatype net_event = Packet u64 "u8 list" | RecvFails int

text \<open>The thread until \<open>running\<close> is cleared, which happens after the events listed: a failed
  \<open>recv\<close> or an empty packet is retried.\<close>

fun edt_net_capture_thread :: "net_event list \<Rightarrow> net_capture \<Rightarrow> net_capture" where
  "edt_net_capture_thread [] c = c"
| "edt_net_capture_thread (Packet now p # es) c =
     edt_net_capture_thread es (if p = [] then c else edt_net_update_stats now c (take 2048 p))"
| "edt_net_capture_thread (RecvFails e # es) c = edt_net_capture_thread es c"

definition edt_net_capture_init :: "int ptr \<Rightarrow> net_capture ptr \<Rightarrow> net_config ptr \<Rightarrow> int \<times> net_capture ptr" where
  "edt_net_capture_init mutex_err cp configp =
     (case cp of
        None \<Rightarrow> (- EINVAL, NULL)
      | Some _ \<Rightarrow>
          let cfg = \<lparr>interface_name = (case configp of
                       Some c \<Rightarrow> (case interface_name c of Some i \<Rightarrow> Some i | None \<Rightarrow> Some ''eth0'')
                     | None \<Rightarrow> Some ''eth0''),
                     promiscuous = (case configp of Some c \<Rightarrow> promiscuous c | None \<Rightarrow> 0)\<rparr>;
              c0 = \<lparr>nc_config = cfg, nc_running = 0, nc_stats = stats_zero, nc_socket_fd = - 1\<rparr>
          in (case mutex_err of Some e \<Rightarrow> (- e, Some c0) | None \<Rightarrow> (0, Some c0)))"

text \<open>How the system calls of a start end, as errno values.\<close>

record net_start_env =
  ne_socket :: "int ptr"
  ne_index :: "int ptr"
  ne_bind :: "int ptr"
  ne_thread :: "int ptr"

definition edt_net_capture_start ::
  "net_start_env \<Rightarrow> fd_table \<Rightarrow> net_capture ptr \<Rightarrow> int \<times> fd_table \<times> net_capture ptr" where
  "edt_net_capture_start ne fds cp =
     (case cp of
        None \<Rightarrow> (- EINVAL, fds, NULL)
      | Some c \<Rightarrow>
          if nc_running c \<noteq> 0 then (0, fds, Some c)
          else (case ne_socket ne of
            Some e \<Rightarrow> (- e, fds, Some (c\<lparr>nc_socket_fd := - 1\<rparr>))
          | None \<Rightarrow>
              let fd = fd_new fds; fds' = fd # fds;
                  closed = (\<lambda>e. (- e, fd_close fd fds', Some (c\<lparr>nc_running := 0, nc_socket_fd := - 1\<rparr>)))
              in (case ne_index ne of
                    Some e \<Rightarrow> closed e
                  | None \<Rightarrow>
                     (case ne_bind ne of
                        Some e \<Rightarrow> closed e
                      | None \<Rightarrow>
                         (case ne_thread ne of
                            Some e \<Rightarrow> closed e
                          | None \<Rightarrow> (0, fds', Some (c\<lparr>nc_running := 1, nc_socket_fd := fd\<rparr>)))))))"

definition edt_net_capture_stop :: "fd_table \<Rightarrow> net_capture ptr \<Rightarrow> int \<times> fd_table \<times> net_capture ptr" where
  "edt_net_capture_stop fds cp =
     (case cp of
        None \<Rightarrow> (- EINVAL, fds, NULL)
      | Some c \<Rightarrow>
          if nc_running c = 0 then (0, fds, Some c)
          else if nc_socket_fd c \<ge> 0
          then (0, fd_close (nc_socket_fd c) fds, Some (c\<lparr>nc_running := 0, nc_socket_fd := - 1\<rparr>))
          else (0, fds, Some (c\<lparr>nc_running := 0\<rparr>)))"

definition edt_net_capture_destroy :: "fd_table \<Rightarrow> net_capture ptr \<Rightarrow> fd_table \<times> net_capture ptr" where
  "edt_net_capture_destroy fds cp =
     (case cp of None \<Rightarrow> (fds, NULL) | Some _ \<Rightarrow> snd (edt_net_capture_stop fds cp))"

definition edt_net_capture_get_stats ::
  "net_capture ptr \<Rightarrow> net_stats ptr \<Rightarrow> int \<times> net_stats ptr" where
  "edt_net_capture_get_stats cp outp =
     (case (cp, outp) of (Some c, Some _) \<Rightarrow> (0, Some (nc_stats c)) | _ \<Rightarrow> (- EINVAL, outp))"

section \<open>The counters count\<close>

datatype packet_class = Runt | Arp | Tcp | Udp | Icmp | OtherIp | ShortIp | NotIp

definition classify :: "u8 list \<Rightarrow> packet_class" where
  "classify p =
     (if length p < 14 then Runt else if eth_type p = 0x0806 then Arp
      else if eth_type p = 0x0800 then
        (if length p < 34 then ShortIp else if ip_protocol p = 6 then Tcp else if ip_protocol p = 17 then Udp
         else if ip_protocol p = 1 then Icmp else OtherIp)
      else NotIp)"

text \<open>The packets of the events, as the thread's buffer holds them, that are in a set of classes.\<close>

definition packets_in :: "packet_class set \<Rightarrow> net_event list \<Rightarrow> u8 list list" where
  "packets_in cs es =
     filter (\<lambda>p. classify p \<in> cs) (concat (map (\<lambda>e. case e of Packet _ p \<Rightarrow> [take 2048 p] | _ \<Rightarrow> []) es))"

abbreviation count_in :: "packet_class set \<Rightarrow> net_event list \<Rightarrow> u64" where
  "count_in cs es \<equiv> of_nat (length (packets_in cs es))"

lemma packets_in_Nil [simp]: "packets_in cs [] = []"
  by (simp add: packets_in_def)

lemma packets_in_Packet:
  "packets_in cs (Packet now p # es) =
   (if classify (take 2048 p) \<in> cs then take 2048 p # packets_in cs es else packets_in cs es)"
  by (simp add: packets_in_def)

lemma packets_in_Fails [simp]: "packets_in cs (RecvFails e # es) = packets_in cs es"
  by (simp add: packets_in_def)

definition stats_after :: "net_stats \<Rightarrow> net_stats \<Rightarrow> net_event list \<Rightarrow> bool" where
  "stats_after s s' es \<longleftrightarrow>
     packets_total s' = packets_total s + count_in (- {Runt}) es \<and>
     bytes_total s' = bytes_total s + of_nat (sum_list (map length (packets_in (- {Runt}) es))) \<and>
     arp_packets s' = arp_packets s + count_in {Arp} es \<and>
     ipv4_packets s' = ipv4_packets s + count_in {Tcp, Udp, Icmp, OtherIp, ShortIp} es \<and>
     tcp_packets s' = tcp_packets s + count_in {Tcp} es \<and>
     udp_packets s' = udp_packets s + count_in {Udp} es \<and>
     icmp_packets s' = icmp_packets s + count_in {Icmp} es \<and>
     other_packets s' = other_packets s + count_in {OtherIp, NotIp} es"

lemma classify_Runt: "length p < 14 \<Longrightarrow> classify p = Runt"
  by (simp add: classify_def)

lemma update_stats_classes:
  "14 \<le> length p \<Longrightarrow> nc_stats (edt_net_update_stats now c p) =
   (let s = nc_stats c;
        s1 = s\<lparr>ns_timestamp_ns := now, packets_total := packets_total s + 1,
               bytes_total := bytes_total s + of_nat (length p)\<rparr>
    in case classify p of
         Runt \<Rightarrow> s1
       | Arp \<Rightarrow> s1\<lparr>arp_packets := arp_packets s + 1\<rparr>
       | Tcp \<Rightarrow> s1\<lparr>ipv4_packets := ipv4_packets s + 1, tcp_packets := tcp_packets s + 1\<rparr>
       | Udp \<Rightarrow> s1\<lparr>ipv4_packets := ipv4_packets s + 1, udp_packets := udp_packets s + 1\<rparr>
       | Icmp \<Rightarrow> s1\<lparr>ipv4_packets := ipv4_packets s + 1, icmp_packets := icmp_packets s + 1\<rparr>
       | OtherIp \<Rightarrow> s1\<lparr>ipv4_packets := ipv4_packets s + 1, other_packets := other_packets s + 1\<rparr>
       | ShortIp \<Rightarrow> s1\<lparr>ipv4_packets := ipv4_packets s + 1\<rparr>
       | NotIp \<Rightarrow> s1\<lparr>other_packets := other_packets s + 1\<rparr>)"
  by (auto simp: edt_net_update_stats_def classify_def Let_def)

lemma classify_not_Runt: "14 \<le> length p \<Longrightarrow> classify p \<noteq> Runt"
  by (simp add: classify_def)

lemma capture_thread_counts:
  "stats_after (nc_stats c) (nc_stats (edt_net_capture_thread es c)) es"
proof (induction es c rule: edt_net_capture_thread.induct)
  case (2 now p es c)
  let ?p = "take 2048 p"
  show ?case
  proof (cases "length ?p < 14")
    case True
    then have "edt_net_update_stats now c ?p = c" by (simp add: edt_net_update_stats_def)
    then have "edt_net_capture_thread (Packet now p # es) c = edt_net_capture_thread es c" by simp
    moreover have "classify ?p = Runt" using True by (rule classify_Runt)
    ultimately show ?thesis
      using 2 \<open>edt_net_update_stats now c ?p = c\<close> by (simp add: stats_after_def packets_in_Packet)
  next
    case False
    then have p: "14 \<le> length ?p" "p \<noteq> []" by auto
    note st = update_stats_classes [OF p(1), of now c] and nr = classify_not_Runt [OF p(1)]
    have "stats_after (nc_stats (edt_net_update_stats now c ?p)) (nc_stats (edt_net_capture_thread (Packet now p # es) c)) es"
      using 2 p(2) by simp
    then show ?thesis
      unfolding stats_after_def packets_in_Packet st Let_def
      using nr by (cases "classify ?p") (simp_all add: algebra_simps)
  qed
qed (simp_all add: stats_after_def)

text \<open>C25. After any sequence of packets and failed receives, every counter is the exact number of the
  packets of its classes, modulo 2^64, and the byte counter their total length; only frames without
  an Ethernet header are not counted.\<close>

theorem net_stats_exact:
  "stats_after (nc_stats c) (nc_stats (edt_net_capture_thread es c)) es"
  by (rule capture_thread_counts)

section \<open>The socket\<close>

definition nc_owns :: "fd_table \<Rightarrow> fd_table \<Rightarrow> net_capture \<Rightarrow> bool" where
  "nc_owns base fds c \<longleftrightarrow>
     (if nc_running c = 0 then nc_socket_fd c = - 1 \<and> fds = base
      else 0 \<le> nc_socket_fd c \<and> nc_socket_fd c \<notin> set base \<and> fds = nc_socket_fd c # base)"

lemma net_start_owns:
  "nc_owns base fds c \<Longrightarrow> edt_net_capture_start ne fds (Some c) = (r, fds', cp) \<Longrightarrow>
   nc_owns base fds' (the cp) \<and> (r = 0 \<longrightarrow> nc_running (the cp) \<noteq> 0 \<or> nc_running c = 0)"
  by (auto simp: edt_net_capture_start_def nc_owns_def Let_def split: if_splits option.splits)

lemma net_stop_owns:
  "nc_owns base fds c \<Longrightarrow> edt_net_capture_stop fds (Some c) = (r, fds', cp) \<Longrightarrow>
   nc_owns base fds' (the cp) \<and> fds' = base \<and> r = 0 \<and> nc_running (the cp) = 0"
  by (auto simp: edt_net_capture_stop_def nc_owns_def split: if_splits)

end
