(* ===== verification/SystemMonitor.thy ===== *)
theory SystemMonitor
  imports EdtTime
begin

text \<open>
  The system monitor of \<open>src/tools/system_monitor.c\<close>: the readers of three \<open>/proc\<close> files, one
  collection, the monitor thread and its start and stop. A file is its text, or the errno of
  opening it. The percentage, a double in C, is kept as the two integers it is the quotient of.
\<close>

section \<open>Scanning\<close>

text \<open>\<open>%llu\<close>: skips space, reads an optional sign and digits; the value modulo 2^64.\<close>

definition scan_u64 :: "string \<Rightarrow> (u64 \<times> string) option" where
  "scan_u64 s =
     (let t = dropWhile c_isspace s;
          (neg, u) = (case t of
             CHR ''-'' # r \<Rightarrow> (True, r) | CHR ''+'' # r \<Rightarrow> (False, r) | _ \<Rightarrow> (False, t));
          ds = takeWhile c_isdigit u; v = min (digits_value 0 ds) (2 ^ 64 - 1)
      in if ds = [] then None
         else Some (if neg then - word_of_int v else word_of_int v, dropWhile c_isdigit u))"

text \<open>\<open>%63s\<close>: skips space and reads up to \<open>w\<close> other characters.\<close>

definition scan_word :: "nat \<Rightarrow> string \<Rightarrow> (string \<times> string) option" where
  "scan_word w s =
     (let t = dropWhile c_isspace s; word = take w (takeWhile (\<lambda>c. \<not> c_isspace c) t)
      in if word = [] then None else Some (word, drop (length word) t))"

text \<open>A run of \<open>%llu\<close>: the values read before the first that fails.\<close>

fun scan_u64s :: "nat \<Rightarrow> string \<Rightarrow> u64 list" where
  "scan_u64s 0 s = []"
| "scan_u64s (Suc n) s = (case scan_u64 s of None \<Rightarrow> [] | Some (v, r) \<Rightarrow> v # scan_u64s n r)"

section \<open>The \<open>/proc\<close> files\<close>

text \<open>The first line of \<open>/proc/stat\<close>, in a buffer of 256 bytes; the columns that are missing are 0.\<close>

definition first_line :: "nat \<Rightarrow> string \<Rightarrow> string" where
  "first_line n s = take n (takeWhile (\<lambda>c. c \<noteq> CHR 0x0A) s)"

definition cpu_columns :: "string \<Rightarrow> u64 list" where
  "cpu_columns line =
     (let vs = (if has_prefix ''cpu'' line then scan_u64s 8 (drop 3 line) else [])
      in vs @ replicate (8 - length vs) 0)"

definition edt_read_cpu :: "int + string \<Rightarrow> int + (u64 \<times> u64)" where
  "edt_read_cpu file =
     (case file of
        Inl err \<Rightarrow> Inl (- err)
      | Inr text \<Rightarrow>
          if text = [] then Inl (- EIO)
          else let c = cpu_columns (first_line 255 text)
               in Inr (sum_list c, c ! 3 + c ! 4))"

function mem_loop :: "string \<Rightarrow> u64 \<times> u64 \<Rightarrow> u64 \<times> u64" where
  "mem_loop s (tot, available) =
     (case scan_word 63 s of
        None \<Rightarrow> (tot, available)
      | Some (key, r1) \<Rightarrow>
          (case scan_u64 r1 of
             None \<Rightarrow> (tot, available)
           | Some (v, r2) \<Rightarrow>
               (case scan_word 31 r2 of
                  None \<Rightarrow> (tot, available)
                | Some (u, r3) \<Rightarrow>
                    if length r3 < length s
                    then mem_loop r3
                      (if key = ''MemTotal:'' then (v, available)
                       else if key = ''MemAvailable:'' then (tot, v) else (tot, available))
                    else (tot, available))))"
  by pat_completeness auto
termination by (relation "measure (\<lambda>(s, _). length s)") auto

declare mem_loop.simps [simp del]

text \<open>The total, and the memory available, in kB.\<close>

definition edt_read_mem :: "int + string \<Rightarrow> int + (u64 \<times> u64)" where
  "edt_read_mem file = (case file of Inl err \<Rightarrow> Inl (- err) | Inr text \<Rightarrow> Inr (mem_loop text (0, 0)))"

text \<open>The lines \<open>fgets\<close> delivers from \<open>/proc/net/dev\<close>; the interface is all before the colon
  but leading spaces.\<close>

fun net_loop :: "string \<Rightarrow> string list \<Rightarrow> (u64 \<times> u64) option" where
  "net_loop iface [] = None"
| "net_loop iface (line # rest) =
     (case c_strchr line (CHR '':'') of
        None \<Rightarrow> net_loop iface rest
      | Some colon \<Rightarrow>
          if dropWhile (\<lambda>c. c = CHR '' '') (takeWhile (\<lambda>c. c \<noteq> CHR '':'') line) = iface
          then (let vs = scan_u64s 9 (tl colon)
                in if length vs = 9 then Some (vs ! 0, vs ! 8) else net_loop iface rest)
          else net_loop iface rest)"

definition edt_read_net :: "int + string list \<Rightarrow> string ptr \<Rightarrow> int + (u64 \<times> u64)" where
  "edt_read_net file ifacep =
     (case ifacep of
        None \<Rightarrow> Inl (- EINVAL)
      | Some iface \<Rightarrow>
          (case file of
             Inl err \<Rightarrow> Inl (- err)
           | Inr lines \<Rightarrow> (case net_loop iface lines of None \<Rightarrow> Inl (- ENOENT) | Some v \<Rightarrow> Inr v)))"

section \<open>The monitor\<close>

record monitor_config =
  interval_ms :: u32
  network_iface :: "string ptr"

text \<open>\<open>cpu_quotient\<close>: busy and total ticks, NULL for a usage of 0.\<close>

record system_snapshot =
  snap_timestamp_ns :: u64
  cpu_quotient :: "(u64 \<times> u64) ptr"
  mem_total_kb :: u64
  mem_used_kb :: u64
  mem_free_kb :: u64
  net_rx_bytes :: u64
  net_tx_bytes :: u64

record system_monitor =
  sm_config :: monitor_config
  sm_running :: int
  sm_latest :: system_snapshot
  prev_cpu_total :: u64
  prev_cpu_idle :: u64

definition snapshot_zero :: system_snapshot where
  "snapshot_zero = \<lparr>snap_timestamp_ns = 0, cpu_quotient = NULL, mem_total_kb = 0, mem_used_kb = 0,
                    mem_free_kb = 0, net_rx_bytes = 0, net_tx_bytes = 0\<rparr>"

text \<open>The files as one collection finds them, the clock, and the contents of the two variables that
  stay uninitialised when \<open>/proc/stat\<close> cannot be read.\<close>

record proc_env =
  pe_stat :: "int + string"
  pe_meminfo :: "int + string"
  pe_netdev :: "int + string list"
  pe_now :: u64
  pe_junk :: "u64 \<times> u64"

definition edt_system_collect_once ::
  "proc_env \<Rightarrow> system_monitor \<Rightarrow> system_snapshot \<Rightarrow> system_monitor \<times> system_snapshot" where
  "edt_system_collect_once pe m snap =
     (let cpu = edt_read_cpu (pe_stat pe);
          (total', idle) = (case cpu of Inr ti \<Rightarrow> ti | Inl _ \<Rightarrow> pe_junk pe);
          mem = edt_read_mem (pe_meminfo pe);
          (rx, tx) = (case edt_read_net (pe_netdev pe)
                          (Some (case network_iface (sm_config m) of Some i \<Rightarrow> i | None \<Rightarrow> ''eth0'')) of
                        Inr rt \<Rightarrow> rt | Inl _ \<Rightarrow> (0, 0));
          s1 = snap\<lparr>snap_timestamp_ns := pe_now pe\<rparr>;
          s2 = (if (case cpu of Inr _ \<Rightarrow> True | Inl _ \<Rightarrow> False) \<and> prev_cpu_total m \<noteq> 0 \<and> total' > prev_cpu_total m
                then let delta_total = total' - prev_cpu_total m; delta_idle = idle - prev_cpu_idle m
                     in if delta_total > 0
                        then s1\<lparr>cpu_quotient := Some (delta_total - delta_idle, delta_total)\<rparr> else s1
                else s1);
          s3 = (case mem of
                  Inl _ \<Rightarrow> s2
                | Inr (mt, mf) \<Rightarrow> s2\<lparr>mem_total_kb := mt, mem_free_kb := mf,
                                  mem_used_kb := (if mt \<ge> mf then mt - mf else 0)\<rparr>)
      in (m\<lparr>prev_cpu_total := total', prev_cpu_idle := idle\<rparr>, s3\<lparr>net_rx_bytes := rx, net_tx_bytes := tx\<rparr>))"

text \<open>The thread, over what it finds in each turn until \<open>running\<close> is cleared; each turn sleeps the
  interval.\<close>

fun edt_system_monitor_thread :: "proc_env list \<Rightarrow> system_monitor \<Rightarrow> system_monitor" where
  "edt_system_monitor_thread [] m = m"
| "edt_system_monitor_thread (pe # pes) m =
     (case edt_system_collect_once pe m snapshot_zero of
        (m', snap) \<Rightarrow> edt_system_monitor_thread pes (m'\<lparr>sm_latest := snap\<rparr>))"

definition monitor_interval_ns :: "system_monitor \<Rightarrow> u64" where
  "monitor_interval_ns m =
     ucast (if interval_ms (sm_config m) = 0 then 1000 else interval_ms (sm_config m)) * 1000000"

definition edt_system_monitor_init ::
  "int ptr \<Rightarrow> system_monitor ptr \<Rightarrow> monitor_config ptr \<Rightarrow> int \<times> system_monitor ptr" where
  "edt_system_monitor_init mutex_err mp configp =
     (case mp of
        None \<Rightarrow> (- EINVAL, NULL)
      | Some _ \<Rightarrow>
          let c0 = (case configp of Some c \<Rightarrow> c | None \<Rightarrow> \<lparr>interval_ms = 1000, network_iface = Some ''eth0''\<rparr>);
              c1 = (case network_iface c0 of None \<Rightarrow> c0\<lparr>network_iface := Some ''eth0''\<rparr> | Some _ \<Rightarrow> c0);
              c2 = (if interval_ms c1 = 0 then c1\<lparr>interval_ms := 1000\<rparr> else c1);
              m0 = \<lparr>sm_config = c2, sm_running = 0, sm_latest = snapshot_zero, prev_cpu_total = 0,
                    prev_cpu_idle = 0\<rparr>
          in (case mutex_err of Some e \<Rightarrow> (- e, Some m0) | None \<Rightarrow> (0, Some m0)))"

definition edt_system_monitor_start :: "int ptr \<Rightarrow> system_monitor ptr \<Rightarrow> int \<times> system_monitor ptr" where
  "edt_system_monitor_start thread_err mp =
     (case mp of
        None \<Rightarrow> (- EINVAL, NULL)
      | Some m \<Rightarrow>
          if sm_running m \<noteq> 0 then (0, Some m)
          else (case thread_err of
                  Some e \<Rightarrow> (- e, Some (m\<lparr>sm_running := 0\<rparr>))
                | None \<Rightarrow> (0, Some (m\<lparr>sm_running := 1\<rparr>))))"

definition edt_system_monitor_stop :: "system_monitor ptr \<Rightarrow> int \<times> system_monitor ptr" where
  "edt_system_monitor_stop mp =
     (case mp of
        None \<Rightarrow> (- EINVAL, NULL)
      | Some m \<Rightarrow> if sm_running m = 0 then (0, Some m) else (0, Some (m\<lparr>sm_running := 0\<rparr>)))"

definition edt_system_monitor_destroy :: "system_monitor ptr \<Rightarrow> system_monitor ptr" where
  "edt_system_monitor_destroy mp =
     (case mp of None \<Rightarrow> NULL | Some _ \<Rightarrow> snd (edt_system_monitor_stop mp))"

definition edt_system_monitor_get_latest ::
  "system_monitor ptr \<Rightarrow> system_snapshot ptr \<Rightarrow> int \<times> system_snapshot ptr" where
  "edt_system_monitor_get_latest mp outp =
     (case (mp, outp) of (Some m, Some _) \<Rightarrow> (0, Some (sm_latest m)) | _ \<Rightarrow> (- EINVAL, outp))"

section \<open>Reading back what the kernel prints\<close>

definition numbers_text :: "u64 list \<Rightarrow> string" where
  "numbers_text vs = concat (map (\<lambda>v. CHR '' '' # dec_string (unat v)) vs)"

lemma scan_u64_dec:
  assumes "case r of [] \<Rightarrow> True | c # _ \<Rightarrow> \<not> c_isdigit c"
  shows "scan_u64 (CHR '' '' # dec_string (unat v) @ r) = Some (v, r)"
proof -
  obtain c cs where c: "dec_string (unat v) = c # cs" by (cases "dec_string (unat v)") auto
  then have "c_isdigit c" using dec_string_digits [of "unat v"] by simp
  note sp = digit_not_special [OF this]
  have m: "(case c # cs @ r of CHR ''-'' # r \<Rightarrow> (True, r) | CHR ''+'' # r \<Rightarrow> (False, r) | _ \<Rightarrow> (False, c # cs @ r)) =
      (False, c # cs @ r)" using sp by (auto split: char.splits bool.splits)
  have "unat v < 2 ^ 64" using unsigned_less [of v] by simp
  then have "int (unat v) < int (2 ^ 64)" by (simp only: of_nat_less_iff)
  then have v: "min (digits_value 0 (c # cs)) (2 ^ 64 - 1) = int (unat v)"
    using digits_value_dec [of "unat v"] c by (simp add: min_def)
  have w: "dropWhile c_isspace (CHR '' '' # c # cs @ r) = c # cs @ r"
    using sp by (simp add: c_isspace_def)
  have tk: "takeWhile c_isdigit (c # cs @ r) = c # cs" "dropWhile c_isdigit (c # cs @ r) = r"
    using takeWhile_dec [OF assms, of "unat v"] c by simp_all
  show ?thesis
    unfolding c append_Cons scan_u64_def Let_def w m prod.case tk v by simp
qed

lemma scan_u64s_numbers:
  "n \<le> length vs \<Longrightarrow> (case r of [] \<Rightarrow> True | c # _ \<Rightarrow> \<not> c_isdigit c) \<Longrightarrow>
   scan_u64s n (numbers_text vs @ r) = take n vs"
proof (induction vs arbitrary: n)
  case (Cons v vs)
  have nd: "case numbers_text vs @ r of [] \<Rightarrow> True | c # _ \<Rightarrow> \<not> c_isdigit c"
    using Cons.prems(2) by (cases vs) (auto simp: numbers_text_def c_isdigit_def)
  have e: "numbers_text (v # vs) @ r = CHR '' '' # dec_string (unat v) @ numbers_text vs @ r"
    by (simp add: numbers_text_def)
  show ?case
  proof (cases n)
    case (Suc k)
    then show ?thesis
      unfolding e Suc using scan_u64_dec [OF nd] Cons.IH [of k] Cons.prems Suc by simp
  qed simp
qed simp

text \<open>A line of \<open>/proc/net/dev\<close>.\<close>

definition netdev_line :: "string \<times> u64 list \<Rightarrow> string" where
  "netdev_line x = ''  '' @ fst x @ CHR '':'' # numbers_text (snd x) @ [CHR 0x0A]"

lemma netdev_line_split:
  assumes "CHR '':'' \<notin> set name" "\<exists>c cs. name = c # cs \<and> c \<noteq> CHR '' ''"
  shows "c_strchr (netdev_line (name, vs)) (CHR '':'') = Some (CHR '':'' # numbers_text vs @ [CHR 0x0A])"
    "dropWhile (\<lambda>c. c = CHR '' '') (takeWhile (\<lambda>c. c \<noteq> CHR '':'') (netdev_line (name, vs))) = name"
proof -
  have "netdev_line (name, vs) = (''  '' @ name) @ CHR '':'' # numbers_text vs @ [CHR 0x0A]"
    by (simp add: netdev_line_def)
  moreover have "CHR '':'' \<notin> set (''  '' @ name)" using assms(1) by simp
  ultimately show "c_strchr (netdev_line (name, vs)) (CHR '':'') = Some (CHR '':'' # numbers_text vs @ [CHR 0x0A])"
    using c_strchr_found [of "CHR '':''" "''  '' @ name" "numbers_text vs @ [CHR 0x0A]"] by simp
  have "takeWhile (\<lambda>c. c \<noteq> CHR '':'') (netdev_line (name, vs)) = ''  '' @ name"
    using assms(1) by (auto simp: netdev_line_def takeWhile_tail)
  then show "dropWhile (\<lambda>c. c = CHR '' '') (takeWhile (\<lambda>c. c \<noteq> CHR '':'') (netdev_line (name, vs))) = name"
    using assms(2) by auto
qed


section \<open>The processor's share\<close>

text \<open>With two readings of \<open>/proc/stat\<close> whose counters have not gone backwards, the usage is
  the busy part of the elapsed ticks over the elapsed ticks, a fraction between 0 and 1.\<close>

theorem cpu_usage_fraction:
  assumes "edt_read_cpu (pe_stat pe) = Inr (t, i)"
    and "prev_cpu_total m \<noteq> 0" and "prev_cpu_total m < t" and "prev_cpu_idle m \<le> i"
    and "i - prev_cpu_idle m \<le> t - prev_cpu_total m"
  shows "\<exists>busy elapsed. cpu_quotient (snd (edt_system_collect_once pe m snap)) = Some (busy, elapsed) \<and>
    unat elapsed = unat t - unat (prev_cpu_total m) \<and>
    unat busy = unat elapsed - (unat i - unat (prev_cpu_idle m)) \<and> busy \<le> elapsed \<and> 0 < elapsed"
proof -
  let ?e = "t - prev_cpu_total m" and ?d = "i - prev_cpu_idle m"
  have "?e \<noteq> 0" using assms(3) by auto
  then have pos: "0 < ?e" by (simp add: word_gt_0)
  have q: "cpu_quotient (snd (edt_system_collect_once pe m snap)) = Some (?e - ?d, ?e)"
    using assms(1-3) pos
    by (simp add: edt_system_collect_once_def Let_def split: prod.splits sum.splits)
  have "unat ?e = unat t - unat (prev_cpu_total m)" "unat ?d = unat i - unat (prev_cpu_idle m)"
    "unat (?e - ?d) = unat ?e - unat ?d"
    using assms(3-5) by (simp_all add: unat_sub)
  then show ?thesis
    using q pos by (intro exI [of _ "?e - ?d"] exI [of _ ?e]) (simp add: word_le_nat_alt)
qed

text \<open>When the idle counter goes backwards, as \<open>iowait\<close> may, the difference wraps and the usage
  exceeds 100 percent; when a reading fails, the next difference is taken from an uninitialised
  value.\<close>

lemma cpu_usage_wraps:
  "snd (edt_system_collect_once
     \<lparr>pe_stat = Inr ''cpu  200 0 0 99'', pe_meminfo = Inl 2, pe_netdev = Inl 2, pe_now = 0, pe_junk = (0, 0)\<rparr>
     \<lparr>sm_config = \<lparr>interval_ms = 1, network_iface = NULL\<rparr>, sm_running = 1, sm_latest = snapshot_zero,
      prev_cpu_total = 200, prev_cpu_idle = 100\<rparr> snapshot_zero) =
   snapshot_zero\<lparr>cpu_quotient := Some (100, 99)\<rparr>"
  by code_simp


theorem cpu_usage_fraction_witness:
  "\<exists>busy elapsed. cpu_quotient (snd (edt_system_collect_once
     \<lparr>pe_stat = Inr ''cpu  200 0 0 100'', pe_meminfo = Inl 2, pe_netdev = Inl 2, pe_now = 0, pe_junk = (0, 0)\<rparr>
     \<lparr>sm_config = \<lparr>interval_ms = 1, network_iface = NULL\<rparr>, sm_running = 1, sm_latest = snapshot_zero,
      prev_cpu_total = 200, prev_cpu_idle = 50\<rparr> snapshot_zero)) = Some (busy, elapsed) \<and>
     unat elapsed = 100 \<and> unat busy = 50"
proof -
  have "edt_read_cpu (Inr ''cpu  200 0 0 100'') = Inr (300, 100)" by code_simp
  then show ?thesis
    using cpu_usage_fraction [of "\<lparr>pe_stat = Inr ''cpu  200 0 0 100'', pe_meminfo = Inl 2, pe_netdev = Inl 2,
        pe_now = 0, pe_junk = (0, 0)\<rparr>" 300 100 "\<lparr>sm_config = \<lparr>interval_ms = 1, network_iface = NULL\<rparr>,
        sm_running = 1, sm_latest = snapshot_zero, prev_cpu_total = 200, prev_cpu_idle = 50\<rparr>" snapshot_zero]
    by auto
qed

end
