(* ===== verification/PluginManager.thy ===== *)
theory PluginManager
  imports CText "HOL-Library.Multiset"
begin

text \<open>
  The backend plugins of \<open>src/plugins/plugin_manager.c\<close>. What a library file holds is a parameter;
  the calls into the dynamic linker and into the plugins are recorded as a trace of events, each
  with the path of its library.
\<close>

section \<open>Libraries, slots and the trace\<close>

text \<open>\<open>on_load\<close>: NULL when the plugin has no such callback, otherwise what it returns.\<close>

record plugin_api =
  api_name :: "string ptr"
  api_on_load :: "int ptr"
  api_on_tick :: bool
  api_on_unload :: bool

record plugin_library =
  lib_opens :: bool
  lib_has_entry :: bool
  lib_api :: "plugin_api ptr"

datatype plugin_event = DlOpen string | DlClose string | OnLoad string | OnTick string | OnUnload string

record plugin_slot =
  slot_path :: string
  slot_name :: string
  dl_handle :: "string ptr"
  slot_api :: "plugin_api ptr"

record plugin_manager =
  slots :: "plugin_slot list ptr"
  slot_count :: nat

definition slot_zero :: plugin_slot where
  "slot_zero = \<lparr>slot_path = [], slot_name = [], dl_handle = NULL, slot_api = NULL\<rparr>"

definition edt_plugin_manager_init :: "bool \<Rightarrow> plugin_manager ptr \<Rightarrow> nat \<Rightarrow> int \<times> plugin_manager ptr" where
  "edt_plugin_manager_init alloc_ok mp max_plugins =
     (case mp of
        None \<Rightarrow> (- EINVAL, NULL)
      | Some _ \<Rightarrow>
          if max_plugins = 0 then (- EINVAL, mp)
          else if \<not> alloc_ok then (- ENOMEM, Some \<lparr>slots = NULL, slot_count = 0\<rparr>)
          else (0, Some \<lparr>slots = Some (replicate max_plugins slot_zero), slot_count = max_plugins\<rparr>))"

section \<open>Loading\<close>

fun free_slot :: "plugin_slot list \<Rightarrow> nat" where
  "free_slot [] = 0"
| "free_slot (s # ss) = (if dl_handle s = NULL then 0 else Suc (free_slot ss))"

text \<open>One library: the result, the slots and the events of the call.\<close>

definition edt_plugin_manager_add ::
  "(string \<Rightarrow> plugin_library) \<Rightarrow> plugin_slot list \<Rightarrow> string \<Rightarrow> int \<times> plugin_slot list \<times> plugin_event list" where
  "edt_plugin_manager_add lib ss path =
     (let i = free_slot ss; l = lib path
      in if i \<ge> length ss then (- ENOSPC, ss, [])
         else if \<not> lib_opens l then (- EINVAL, ss, [])
         else if \<not> lib_has_entry l then (- EINVAL, ss, [DlOpen path, DlClose path])
         else (case lib_api l of
             None \<Rightarrow> (- EINVAL, ss, [DlOpen path, DlClose path])
           | Some api \<Rightarrow>
               (case api_name api of
                  None \<Rightarrow> (- EINVAL, ss, [DlOpen path, DlClose path])
                | Some name \<Rightarrow>
                    let slot = \<lparr>slot_path = snprintf_str 256 path, slot_name = snprintf_str 64 name,
                                dl_handle = Some path, slot_api = Some api\<rparr>
                    in (case api_on_load api of
                          None \<Rightarrow> (0, ss[i := slot], [DlOpen path])
                        | Some r \<Rightarrow>
                            if r \<noteq> 0 then (- EINVAL, ss, [DlOpen path, OnLoad path, DlClose path])
                            else (0, ss[i := slot], [DlOpen path, OnLoad path])))))"

definition is_library_name :: "string \<Rightarrow> bool" where
  "is_library_name n \<longleftrightarrow> \<not> length n < 4 \<and> drop (length n - 3) n = ''.so''"

fun load_entries ::
  "(string \<Rightarrow> plugin_library) \<Rightarrow> string \<Rightarrow> string list \<Rightarrow> plugin_slot list \<Rightarrow> plugin_slot list \<times> plugin_event list" where
  "load_entries lib dir [] ss = (ss, [])"
| "load_entries lib dir (n # ns) ss =
     (if \<not> is_library_name n then load_entries lib dir ns ss
      else case edt_plugin_manager_add lib ss (snprintf_str 512 (dir @ ''/'' @ n)) of
        (_, ss', es) \<Rightarrow> (case load_entries lib dir ns ss' of (ss'', es') \<Rightarrow> (ss'', es @ es')))"

text \<open>\<open>listing\<close>: the errno of \<open>opendir\<close> or the names in the directory.\<close>

definition edt_plugin_manager_load_dir ::
  "(string \<Rightarrow> plugin_library) \<Rightarrow> int + string list \<Rightarrow> plugin_manager ptr \<Rightarrow> string ptr \<Rightarrow>
   int \<times> plugin_manager ptr \<times> plugin_event list" where
  "edt_plugin_manager_load_dir lib listing mp dirp =
     (case (mp, dirp) of
        (Some m, Some dir) \<Rightarrow>
          (case listing of
             Inl e \<Rightarrow> (- e, mp, [])
           | Inr names \<Rightarrow>
               (case slots m of
                  None \<Rightarrow> (0, mp, [])
                | Some ss \<Rightarrow>
                    (case load_entries lib dir names ss of
                       (ss', es) \<Rightarrow> (0, Some (m\<lparr>slots := Some ss'\<rparr>), es))))
      | _ \<Rightarrow> (- EINVAL, mp, []))"

section \<open>Ticking and unloading\<close>

definition slot_library :: "plugin_slot \<Rightarrow> string" where
  "slot_library s = (case dl_handle s of Some p \<Rightarrow> p | None \<Rightarrow> [])"

definition tick_slot :: "plugin_slot \<Rightarrow> plugin_event list" where
  "tick_slot s =
     (case slot_api s of
        None \<Rightarrow> [] | Some api \<Rightarrow> if api_on_tick api then [OnTick (slot_library s)] else [])"

definition edt_plugin_manager_tick :: "plugin_manager ptr \<Rightarrow> int \<times> plugin_event list" where
  "edt_plugin_manager_tick mp =
     (case mp of
        None \<Rightarrow> (- EINVAL, [])
      | Some m \<Rightarrow> (0, case slots m of None \<Rightarrow> [] | Some ss \<Rightarrow> concat (map tick_slot ss)))"

definition unload_slot :: "plugin_slot \<Rightarrow> plugin_event list" where
  "unload_slot s =
     (case slot_api s of
        None \<Rightarrow> [] | Some api \<Rightarrow> if api_on_unload api then [OnUnload (slot_library s)] else []) @
     (case dl_handle s of None \<Rightarrow> [] | Some p \<Rightarrow> [DlClose p])"

definition edt_plugin_manager_unload_all :: "plugin_manager ptr \<Rightarrow> plugin_manager ptr \<times> plugin_event list" where
  "edt_plugin_manager_unload_all mp =
     (case mp of
        None \<Rightarrow> (NULL, [])
      | Some m \<Rightarrow>
          (case slots m of
             None \<Rightarrow> (mp, [])
           | Some ss \<Rightarrow> (Some (m\<lparr>slots := Some (map (\<lambda>_. slot_zero) ss)\<rparr>), concat (map unload_slot ss))))"

definition edt_plugin_manager_destroy :: "plugin_manager ptr \<Rightarrow> plugin_manager ptr \<times> plugin_event list" where
  "edt_plugin_manager_destroy mp =
     (case mp of
        None \<Rightarrow> (NULL, [])
      | Some _ \<Rightarrow>
          (case edt_plugin_manager_unload_all mp of
             (mp', es) \<Rightarrow> (map_option (\<lambda>m. m\<lparr>slots := NULL, slot_count := 0\<rparr>) mp', es)))"

section \<open>The life of a manager\<close>

datatype plugin_call = LoadDir "int + string list" string | Tick | UnloadAll

fun plugin_run ::
  "(string \<Rightarrow> plugin_library) \<Rightarrow> plugin_call list \<Rightarrow> plugin_manager \<Rightarrow> plugin_manager \<times> plugin_event list" where
  "plugin_run lib [] m = (m, [])"
| "plugin_run lib (LoadDir listing dir # cs) m =
     (case edt_plugin_manager_load_dir lib listing (Some m) (Some dir) of
        (_, mp, es) \<Rightarrow> (case plugin_run lib cs (the mp) of (m', es') \<Rightarrow> (m', es @ es')))"
| "plugin_run lib (Tick # cs) m =
     (case plugin_run lib cs m of (m', es') \<Rightarrow> (m', snd (edt_plugin_manager_tick (Some m)) @ es'))"
| "plugin_run lib (UnloadAll # cs) m =
     (case edt_plugin_manager_unload_all (Some m) of
        (mp, es) \<Rightarrow> (case plugin_run lib cs (the mp) of (m', es') \<Rightarrow> (m', es @ es')))"

text \<open>The libraries a list of slots holds open, and those a trace leaves open.\<close>

definition held :: "plugin_slot list \<Rightarrow> string multiset" where
  "held ss = mset (concat (map (\<lambda>s. case dl_handle s of None \<Rightarrow> [] | Some p \<Rightarrow> [p]) ss))"

definition opened :: "plugin_event list \<Rightarrow> string multiset" where
  "opened es = mset (concat (map (\<lambda>e. case e of DlOpen p \<Rightarrow> [p] | _ \<Rightarrow> []) es))"

definition closed :: "plugin_event list \<Rightarrow> string multiset" where
  "closed es = mset (concat (map (\<lambda>e. case e of DlClose p \<Rightarrow> [p] | _ \<Rightarrow> []) es))"

definition manager_held :: "plugin_manager \<Rightarrow> string multiset" where
  "manager_held m = (case slots m of None \<Rightarrow> {#} | Some ss \<Rightarrow> held ss)"

lemma opened_simps [simp]:
  "opened [] = {#}" "opened (e # es) = (case e of DlOpen p \<Rightarrow> {#p#} | _ \<Rightarrow> {#}) + opened es"
  "opened (es @ es') = opened es + opened es'"
  by (simp_all add: opened_def split: plugin_event.splits)

lemma closed_simps [simp]:
  "closed [] = {#}" "closed (e # es) = (case e of DlClose p \<Rightarrow> {#p#} | _ \<Rightarrow> {#}) + closed es"
  "closed (es @ es') = closed es + closed es'"
  by (simp_all add: closed_def split: plugin_event.splits)

lemma held_simps [simp]:
  "held [] = {#}" "held (s # ss) = (case dl_handle s of None \<Rightarrow> {#} | Some p \<Rightarrow> {#p#}) + held ss"
  by (simp_all add: held_def split: option.splits)

lemma held_fill: "free_slot ss < length ss \<Longrightarrow> dl_handle s = Some p \<Longrightarrow> held (ss[free_slot ss := s]) = {#p#} + held ss"
  by (induction ss) (auto split: option.splits)

lemma add_balance:
  "edt_plugin_manager_add lib ss path = (r, ss', es) \<Longrightarrow>
   held ss + opened es = held ss' + closed es \<and> length ss' = length ss"
  by (auto simp: edt_plugin_manager_add_def Let_def held_fill not_le split: if_splits option.splits)

lemma load_entries_balance:
  "load_entries lib dir ns ss = (ss', es) \<Longrightarrow>
   held ss + opened es = held ss' + closed es \<and> length ss' = length ss"
proof (induction lib dir ns ss arbitrary: ss' es rule: load_entries.induct)
  case (2 lib dir n ns ss)
  show ?case
  proof (cases "is_library_name n")
    case True
    obtain r s1 e1 where a: "edt_plugin_manager_add lib ss (snprintf_str 512 (dir @ ''/'' @ n)) = (r, s1, e1)"
      by (metis prod_cases3)
    obtain s2 e2 where b: "load_entries lib dir ns s1 = (s2, e2)" by fastforce
    have r: "ss' = s2" "es = e1 @ e2" using "2.prems" True a b by simp_all
    have "held s1 + opened e2 = held s2 + closed e2 \<and> length s2 = length s1"
      using "2.IH"(2) True a b by auto
    then show ?thesis
      using add_balance [OF a] unfolding r by (simp add: ac_simps) (metis add.assoc add.commute)
  qed (use 2 in simp)
qed simp

lemma tick_events [simp]: "opened (concat (map tick_slot ss)) = {#}" "closed (concat (map tick_slot ss)) = {#}"
  by (induction ss) (auto simp: tick_slot_def split: option.splits)

lemma unload_events [simp]:
  "opened (concat (map unload_slot ss)) = {#}" "closed (concat (map unload_slot ss)) = held ss"
  "held (map (\<lambda>_. slot_zero) ss) = {#}"
  by (induction ss) (auto simp: unload_slot_def slot_zero_def split: option.splits)

lemma load_dir_balance:
  assumes "edt_plugin_manager_load_dir lib listing (Some m) (Some dir) = (r, mp, es)"
  shows "manager_held m + opened es = manager_held (the mp) + closed es"
proof (cases listing)
  case (Inr names)
  show ?thesis
  proof (cases "slots m")
    case (Some ss)
    obtain ss' es' where "load_entries lib dir names ss = (ss', es')" by fastforce
    with load_entries_balance [OF this] show ?thesis
      using assms Inr Some by (auto simp: edt_plugin_manager_load_dir_def manager_held_def)
  qed (use assms Inr in \<open>auto simp: edt_plugin_manager_load_dir_def manager_held_def\<close>)
qed (use assms in \<open>auto simp: edt_plugin_manager_load_dir_def\<close>)

lemma unload_all_balance:
  "edt_plugin_manager_unload_all (Some m) = (mp, es) \<Longrightarrow>
   manager_held m + opened es = manager_held (the mp) + closed es \<and> manager_held (the mp) = {#}"
  by (auto simp: edt_plugin_manager_unload_all_def manager_held_def split: option.splits)

lemma plugin_run_balance:
  "plugin_run lib cs m = (m', es) \<Longrightarrow> manager_held m + opened es = manager_held m' + closed es"
proof (induction lib cs m arbitrary: m' es rule: plugin_run.induct)
  case (2 lib listing dir cs m)
  obtain r mp e1 where l: "edt_plugin_manager_load_dir lib listing (Some m) (Some dir) = (r, mp, e1)"
    by (metis prod_cases3)
  obtain m1 e2 where r: "plugin_run lib cs (the mp) = (m1, e2)" by fastforce
  then have "manager_held (the mp) + opened e2 = manager_held m1 + closed e2"
    using "2.IH" l by auto
  then show ?case
    using load_dir_balance [OF l] "2.prems" l r by (auto simp: ac_simps) (metis add.assoc add.commute)
next
  case (3 lib cs m)
  obtain m1 e1 where "plugin_run lib cs m = (m1, e1)" by fastforce
  then show ?case
    using 3 by (auto simp: edt_plugin_manager_tick_def split: option.splits)
next
  case (4 lib cs m)
  obtain mp e1 where l: "edt_plugin_manager_unload_all (Some m) = (mp, e1)" by fastforce
  obtain m1 e2 where r: "plugin_run lib cs (the mp) = (m1, e2)" by fastforce
  then have "manager_held (the mp) + opened e2 = manager_held m1 + closed e2"
    using "4.IH" l by auto
  then show ?case
    using unload_all_balance [OF l] "4.prems" l r by (auto simp: ac_simps)
qed simp

text \<open>C24. Over the whole life of a manager, with any directories loaded, any libraries failing at any
  point, ticks and unloads, every library that was opened is closed exactly as often as it was
  opened once the manager is destroyed.\<close>

theorem plugins_closed_once:
  assumes "edt_plugin_manager_init True (Some m0) max_plugins = (r, Some m)" and "0 < max_plugins"
    and "plugin_run lib cs m = (m', es)"
    and "edt_plugin_manager_destroy (Some m') = (mp, es')"
  shows "opened (es @ es') = closed (es @ es')"
proof -
  have held0: "held (replicate n slot_zero) = {#}" for n
    by (induction n) (simp_all add: slot_zero_def)
  have "manager_held m = {#}"
    using assms(1,2) held0 by (auto simp: edt_plugin_manager_init_def manager_held_def)
  then have run: "opened es = manager_held m' + closed es"
    using plugin_run_balance [OF assms(3)] by simp
  obtain mq eq where "edt_plugin_manager_unload_all (Some m') = (mq, eq)" by fastforce
  with unload_all_balance [OF this] run show ?thesis
    using assms(4) by (auto simp: edt_plugin_manager_destroy_def ac_simps)
qed

theorem plugins_closed_once_witness:
  "\<exists>m m' es mp es'. edt_plugin_manager_init True (Some \<lparr>slots = NULL, slot_count = 3\<rparr>) 1 = (0, Some m) \<and>
     plugin_run (\<lambda>_. \<lparr>lib_opens = True, lib_has_entry = True,
         lib_api = Some \<lparr>api_name = Some ''x'', api_on_load = Some 0, api_on_tick = True, api_on_unload = True\<rparr>\<rparr>)
       [LoadDir (Inr [''a.so'', ''b.so'', ''c.txt'']) ''p'', Tick] m = (m', es) \<and>
     edt_plugin_manager_destroy (Some m') = (mp, es') \<and> opened (es @ es') = closed (es @ es') \<and>
     es = [DlOpen ''p/a.so'', OnLoad ''p/a.so'', OnTick ''p/a.so'']"
proof -
  let ?lib = "\<lambda>_ :: string. \<lparr>lib_opens = True, lib_has_entry = True,
         lib_api = Some \<lparr>api_name = Some ''x'', api_on_load = Some 0, api_on_tick = True, api_on_unload = True\<rparr>\<rparr>"
  let ?cs = "[LoadDir (Inr [''a.so'', ''b.so'', ''c.txt'']) ''p'', Tick]"
  let ?m = "\<lparr>slots = Some [slot_zero], slot_count = 1\<rparr>"
  have i: "edt_plugin_manager_init True (Some \<lparr>slots = NULL, slot_count = 3\<rparr>) 1 = (0, Some ?m)"
    by (simp add: edt_plugin_manager_init_def)
  obtain m' es where r: "plugin_run ?lib ?cs ?m = (m', es)" by fastforce
  obtain mp es' where d: "edt_plugin_manager_destroy (Some m') = (mp, es')" by fastforce
  have es: "es = [DlOpen ''p/a.so'', OnLoad ''p/a.so'', OnTick ''p/a.so'']"
    using r by (simp add: edt_plugin_manager_load_dir_def edt_plugin_manager_add_def is_library_name_def
        edt_plugin_manager_tick_def tick_slot_def slot_library_def slot_zero_def snprintf_str_def Let_def)
  have "opened (es @ es') = closed (es @ es')"
    using plugins_closed_once [OF i _ r d] by simp
  then show ?thesis
    using i r d es
    by (intro exI [of _ ?m] exI [of _ m'] exI [of _ es] exI [of _ mp] exI [of _ es']) (intro conjI; assumption)
qed

end
