(* ===== verification/DebugService.thy ===== *)
theory DebugService
  imports SumpServer NetCapture SystemMonitor V4l2Debugger PluginManager
begin

text \<open>
  The service of \<open>src/service/debug_service.c\<close>, which owns the logic analyzer, the SUMP server, the
  packet counter, the system monitor, the camera probe and the plugins. The contract its start and
  stop rely on is a locale, interpreted on each of the four parts that run a thread.
\<close>

section \<open>The contract of a part that is started and stopped\<close>

locale switchable =
  fixes start :: "'e \<Rightarrow> 's \<Rightarrow> int \<times> 's"
    and stop :: "'s \<Rightarrow> int \<times> 's"
    and running :: "'s \<Rightarrow> bool"
    and env_ok :: "'e \<Rightarrow> bool"
  assumes start_running: "running s \<Longrightarrow> start e s = (0, s)"
    and start_result: "env_ok e \<Longrightarrow> start e s = (r, s') \<Longrightarrow> r = 0 \<longleftrightarrow> running s'"
    and stop_stops: "stop s = (r, s') \<Longrightarrow> r = 0 \<and> \<not> running s'"
    and stop_stopped: "\<not> running s \<Longrightarrow> stop s = (0, s)"
begin

lemma stop_twice: "stop (snd (stop s)) = (0, snd (stop s))"
  using stop_stops [of s] stop_stopped by (metis prod.collapse)

lemma start_twice: "env_ok e \<Longrightarrow> fst (start e s) = 0 \<Longrightarrow> start e' (snd (start e s)) = (0, snd (start e s))"
  using start_result [of e s] start_running by (metis prod.collapse)

lemma failed_start_stops: "env_ok e \<Longrightarrow> fst (start e s) \<noteq> 0 \<Longrightarrow> stop (snd (start e s)) = (0, snd (start e s))"
  using start_result [of e s] stop_stopped by (metis prod.collapse)

end

text \<open>The four parts as calls on values: an object that exists, with the descriptor table where the
  part opens one. A failing system call sets a positive errno.\<close>

definition logic_start :: "int + unit \<Rightarrow> logic_analyzer \<Rightarrow> int \<times> logic_analyzer" where
  "logic_start e la = (case edt_logic_analyzer_start e (Some la) of (r, p) \<Rightarrow> (r, the p))"

definition logic_stop :: "logic_analyzer \<Rightarrow> int \<times> logic_analyzer" where
  "logic_stop la = (case edt_logic_analyzer_stop (Some la) of (r, p) \<Rightarrow> (r, the p))"

definition monitor_start :: "int ptr \<Rightarrow> system_monitor \<Rightarrow> int \<times> system_monitor" where
  "monitor_start e m = (case edt_system_monitor_start e (Some m) of (r, p) \<Rightarrow> (r, the p))"

definition monitor_stop :: "system_monitor \<Rightarrow> int \<times> system_monitor" where
  "monitor_stop m = (case edt_system_monitor_stop (Some m) of (r, p) \<Rightarrow> (r, the p))"

definition net_start :: "net_start_env \<Rightarrow> fd_table \<times> net_capture \<Rightarrow> int \<times> fd_table \<times> net_capture" where
  "net_start e x = (case edt_net_capture_start e (fst x) (Some (snd x)) of (r, fds, p) \<Rightarrow> (r, fds, the p))"

definition net_stop :: "fd_table \<times> net_capture \<Rightarrow> int \<times> fd_table \<times> net_capture" where
  "net_stop x = (case edt_net_capture_stop (fst x) (Some (snd x)) of (r, fds, p) \<Rightarrow> (r, fds, the p))"

definition sump_start :: "start_env \<Rightarrow> fd_table \<times> sump_server \<Rightarrow> int \<times> fd_table \<times> sump_server" where
  "sump_start e x = (case edt_sump_server_start e (fst x) (Some (snd x)) of (r, fds, p) \<Rightarrow> (r, fds, the p))"

definition sump_stop :: "fd_table \<times> sump_server \<Rightarrow> int \<times> fd_table \<times> sump_server" where
  "sump_stop x = (case edt_sump_server_stop (fst x) (Some (snd x)) of (r, fds, p) \<Rightarrow> (r, fds, the p))"

definition errno_ok :: "int ptr \<Rightarrow> bool" where
  "errno_ok e = (case e of None \<Rightarrow> True | Some n \<Rightarrow> 0 < n)"

definition logic_env_ok :: "int + unit \<Rightarrow> bool" where
  "logic_env_ok e = (case e of Inl n \<Rightarrow> 0 < n | Inr _ \<Rightarrow> True)"

definition net_env_ok :: "net_start_env \<Rightarrow> bool" where
  "net_env_ok e \<longleftrightarrow> errno_ok (ne_socket e) \<and> errno_ok (ne_index e) \<and> errno_ok (ne_bind e) \<and> errno_ok (ne_thread e)"

definition sump_env_ok :: "start_env \<Rightarrow> bool" where
  "sump_env_ok e \<longleftrightarrow> errno_ok (se_socket e) \<and> errno_ok (se_bind e) \<and> errno_ok (se_listen e) \<and> errno_ok (se_thread e)"

interpretation logic_sw: switchable logic_start logic_stop "\<lambda>la. la_running la \<noteq> 0" logic_env_ok
  by unfold_locales
    (auto simp: logic_start_def logic_stop_def edt_logic_analyzer_start_def edt_logic_analyzer_stop_def
      logic_env_ok_def Let_def split: sum.splits if_splits)

interpretation monitor_sw: switchable monitor_start monitor_stop "\<lambda>m. sm_running m \<noteq> 0" errno_ok
  by unfold_locales
    (auto simp: monitor_start_def monitor_stop_def edt_system_monitor_start_def edt_system_monitor_stop_def
      errno_ok_def split: option.splits if_splits)

interpretation net_sw: switchable net_start net_stop "\<lambda>x. nc_running (snd x) \<noteq> 0" net_env_ok
  by unfold_locales
    (auto simp: net_start_def net_stop_def edt_net_capture_start_def edt_net_capture_stop_def
      net_env_ok_def errno_ok_def Let_def split: option.splits if_splits)

interpretation sump_sw: switchable sump_start sump_stop "\<lambda>x. ss_running (snd x) \<noteq> 0" sump_env_ok
  by unfold_locales
    (auto simp: sump_start_def sump_stop_def edt_sump_server_start_def edt_sump_server_stop_def
      sump_env_ok_def errno_ok_def EINVAL_def Let_def split: option.splits if_splits)

section \<open>Configuration and state\<close>

record service_config =
  cfg_logic :: logic_config
  cfg_sump :: sump_config
  cfg_net_capture :: net_config
  cfg_system_monitor :: monitor_config
  v4l2_device_name :: "string ptr"
  plugin_dir :: "string ptr"
  enable_sump_server :: int
  enable_net_capture :: int

record debug_service =
  sv_config :: service_config
  sv_logic :: logic_analyzer
  sv_sump :: sump_server
  sv_net :: net_capture
  sv_monitor :: system_monitor
  sv_v4l2 :: v4l2_probe_result
  sv_plugins :: plugin_manager
  sv_started :: int

definition edt_apply_default_config :: service_config where
  "edt_apply_default_config =
     \<lparr>cfg_logic = \<lparr>sample_rate_hz = 1000000, max_sample_rate_hz = EDT_MAX_SAMPLE_RATE_HZ,
                    ring_capacity_samples = push_bit 16 1, simulate_signal = 1\<rparr>,
      cfg_sump = \<lparr>bind_ip = Some ''0.0.0.0'', port = 9527, capture_samples = 8192\<rparr>,
      cfg_net_capture = \<lparr>interface_name = Some ''eth0'', promiscuous = 0\<rparr>,
      cfg_system_monitor = \<lparr>interval_ms = 1000, network_iface = Some ''eth0''\<rparr>,
      v4l2_device_name = Some ''/dev/video0'', plugin_dir = Some ''./plugins'',
      enable_sump_server = 1, enable_net_capture = 1\<rparr>"

definition or_string :: "string ptr \<Rightarrow> string ptr \<Rightarrow> string ptr" where
  "or_string p d = (case p of None \<Rightarrow> d | Some _ \<Rightarrow> p)"

definition merge_config :: "service_config ptr \<Rightarrow> service_config" where
  "merge_config configp =
     (case configp of
        None \<Rightarrow> edt_apply_default_config
      | Some c \<Rightarrow>
          let l0 = cfg_logic c;
              l1 = (if max_sample_rate_hz l0 = 0 then l0\<lparr>max_sample_rate_hz := EDT_MAX_SAMPLE_RATE_HZ\<rparr> else l0);
              l2 = (if sample_rate_hz l1 = 0 then l1\<lparr>sample_rate_hz := 1000000\<rparr> else l1);
              l3 = (if ring_capacity_samples l2 = 0 then l2\<lparr>ring_capacity_samples := push_bit 16 1\<rparr> else l2);
              s0 = cfg_sump c;
              s1 = \<lparr>bind_ip = or_string (bind_ip s0) (Some ''0.0.0.0''),
                    port = (if port s0 = 0 then 9527 else port s0),
                    capture_samples = (if capture_samples s0 = 0 then 8192 else capture_samples s0)\<rparr>;
              n0 = cfg_net_capture c;
              n1 = n0\<lparr>interface_name := or_string (interface_name n0) (Some ''eth0'')\<rparr>;
              m0 = cfg_system_monitor c;
              m1 = \<lparr>interval_ms = (if interval_ms m0 = 0 then 1000 else interval_ms m0),
                    network_iface = or_string (network_iface m0) (interface_name n1)\<rparr>
          in c\<lparr>cfg_logic := l3, cfg_sump := s1, cfg_net_capture := n1, cfg_system_monitor := m1,
               v4l2_device_name := or_string (v4l2_device_name c) (Some ''/dev/video0''),
               plugin_dir := or_string (plugin_dir c) (Some ''./plugins'')\<rparr>)"

text \<open>The object after \<open>memset\<close>.\<close>

definition service_zero :: "service_config \<Rightarrow> debug_service" where
  "service_zero cfg =
     \<lparr>sv_config = cfg,
      sv_logic = \<lparr>la_config = \<lparr>sample_rate_hz = 0, max_sample_rate_hz = 0, ring_capacity_samples = 0,
                               simulate_signal = 0\<rparr>,
                  la_ring = ring_zero, la_trigger = \<lparr>mode = TRIGGER_NONE, channel = 0\<rparr>, la_reader = NULL,
                  la_running = 0, la_armed = 0, la_total_samples = 0, la_dropped_samples = 0,
                  la_last_raw_value = 0, la_period_ns = 0, la_synthetic_counter = 0\<rparr>,
      sv_sump = \<lparr>ss_config = \<lparr>bind_ip = NULL, port = 0, capture_samples = 0\<rparr>, ss_running = 0, ss_listen_fd = 0\<rparr>,
      sv_net = \<lparr>nc_config = \<lparr>interface_name = NULL, promiscuous = 0\<rparr>, nc_running = 0, nc_stats = stats_zero,
                nc_socket_fd = 0\<rparr>,
      sv_monitor = \<lparr>sm_config = \<lparr>interval_ms = 0, network_iface = NULL\<rparr>, sm_running = 0,
                    sm_latest = snapshot_zero, prev_cpu_total = 0, prev_cpu_idle = 0\<rparr>,
      sv_v4l2 = \<lparr>available = 0, v4l2_device = [], driver = [], card = [], capabilities = 0, probe_timestamp_ns = 0\<rparr>,
      sv_plugins = \<lparr>slots = NULL, slot_count = 0\<rparr>, sv_started = 0\<rparr>"

section \<open>Initialisation\<close>

text \<open>How the calls of an initialisation end.\<close>

record init_env =
  ie_ring_alloc :: bool
  ie_net_mutex :: "int ptr"
  ie_monitor_mutex :: "int ptr"
  ie_now :: u64
  ie_camera_open :: "int ptr"
  ie_camera_query :: "int + v4l2_capability"
  ie_slots_alloc :: bool
  ie_library :: "string \<Rightarrow> plugin_library"
  ie_listing :: "int + string list"

definition destroy_logic :: "debug_service \<Rightarrow> debug_service" where
  "destroy_logic s = s\<lparr>sv_logic := the (edt_logic_analyzer_destroy (Some (sv_logic s)))\<rparr>"

definition destroy_net :: "fd_table \<Rightarrow> debug_service \<Rightarrow> fd_table \<times> debug_service" where
  "destroy_net fds s =
     (case edt_net_capture_destroy fds (Some (sv_net s)) of (fds', p) \<Rightarrow> (fds', s\<lparr>sv_net := the p\<rparr>))"

definition destroy_monitor :: "debug_service \<Rightarrow> debug_service" where
  "destroy_monitor s = s\<lparr>sv_monitor := the (edt_system_monitor_destroy (Some (sv_monitor s)))\<rparr>"

definition destroy_sump :: "fd_table \<Rightarrow> debug_service \<Rightarrow> fd_table \<times> debug_service" where
  "destroy_sump fds s =
     (case edt_sump_server_destroy fds (Some (sv_sump s)) of (fds', p) \<Rightarrow> (fds', s\<lparr>sv_sump := the p\<rparr>))"

text \<open>\<open>None\<close> when the call does not return (the ring's size rounding); else the result, the
  descriptors, the service and the plugin events.\<close>

definition edt_debug_service_init ::
  "init_env \<Rightarrow> fd_table \<Rightarrow> debug_service ptr \<Rightarrow> service_config ptr \<Rightarrow>
   (int \<times> fd_table \<times> debug_service ptr \<times> plugin_event list) option" where
  "edt_debug_service_init ie fds sp configp =
     (case sp of
        None \<Rightarrow> Some (- EINVAL, fds, NULL, [])
      | Some _ \<Rightarrow>
          let cfg = merge_config configp; s0 = service_zero cfg
          in (case edt_logic_analyzer_init (ie_ring_alloc ie) (Some (sv_logic s0)) (Some (cfg_logic cfg)) of
                None \<Rightarrow> None
              | Some (r1, lap) \<Rightarrow>
                  let s1 = s0\<lparr>sv_logic := the lap\<rparr>
                  in if r1 \<noteq> 0 then Some (r1, fds, Some s1, [])
                     else let (r2, ssp) = edt_sump_server_init (Some (sv_sump s1)) (Some (sv_logic s1)) (Some (cfg_sump cfg));
                              s2 = s1\<lparr>sv_sump := the ssp\<rparr>
                     in if r2 \<noteq> 0 then Some (r2, fds, Some (destroy_logic s2), [])
                     else let (r3, ncp) = edt_net_capture_init (ie_net_mutex ie) (Some (sv_net s2)) (Some (cfg_net_capture cfg));
                              s3 = s2\<lparr>sv_net := the ncp\<rparr>
                     in if r3 \<noteq> 0 then Some (r3, fds, Some (destroy_logic s3), [])
                     else let (r4, smp) = edt_system_monitor_init (ie_monitor_mutex ie) (Some (sv_monitor s3))
                                            (Some (cfg_system_monitor cfg));
                              s4 = s3\<lparr>sv_monitor := the smp\<rparr>
                     in if r4 \<noteq> 0
                        then (let (fds', s') = destroy_net fds s4 in Some (r4, fds', Some (destroy_logic s'), []))
                     else let (_, fds5, vp) = edt_v4l2_probe (ie_now ie) (ie_camera_open ie) (ie_camera_query ie) fds
                                                (v4l2_device_name cfg) (Some (sv_v4l2 s4));
                              s5 = s4\<lparr>sv_v4l2 := the vp\<rparr>;
                              (r6, pmp) = edt_plugin_manager_init (ie_slots_alloc ie) (Some (sv_plugins s5)) 16;
                              s6 = s5\<lparr>sv_plugins := the pmp\<rparr>
                     in if r6 \<noteq> 0
                        then (let (fds', s') = destroy_net fds5 (destroy_monitor s6)
                              in Some (r6, fds', Some (destroy_logic s'), []))
                     else let (_, pmp', es) = edt_plugin_manager_load_dir (ie_library ie) (ie_listing ie)
                                                (Some (sv_plugins s6)) (plugin_dir cfg)
                     in Some (0, fds5, Some (s6\<lparr>sv_plugins := the pmp', sv_started := 0\<rparr>), es)))"

section \<open>Starting and stopping\<close>

record service_start_env =
  sse_logic :: "int + unit"
  sse_monitor :: "int ptr"
  sse_net :: net_start_env
  sse_sump :: start_env

definition edt_debug_service_start ::
  "service_start_env \<Rightarrow> fd_table \<Rightarrow> debug_service ptr \<Rightarrow> int \<times> fd_table \<times> debug_service ptr" where
  "edt_debug_service_start e fds sp =
     (case sp of
        None \<Rightarrow> (- EINVAL, fds, NULL)
      | Some s \<Rightarrow>
          if sv_started s \<noteq> 0 then (0, fds, Some s)
          else let (r1, l1) = logic_start (sse_logic e) (sv_logic s); s1 = s\<lparr>sv_logic := l1\<rparr>
          in if r1 \<noteq> 0 then (r1, fds, Some s1)
          else let (r2, m2) = monitor_start (sse_monitor e) (sv_monitor s1); s2 = s1\<lparr>sv_monitor := m2\<rparr>
          in if r2 \<noteq> 0 then (r2, fds, Some (s2\<lparr>sv_logic := snd (logic_stop (sv_logic s2))\<rparr>))
          else
            let (fds3, s3) =
                  (if enable_net_capture (sv_config s2) \<noteq> 0
                   then let (r3, f3, n3) = net_start (sse_net e) (fds, sv_net s2); t = s2\<lparr>sv_net := n3\<rparr>
                        in (f3, if r3 \<noteq> 0 then t\<lparr>sv_config := (sv_config t)\<lparr>enable_net_capture := 0\<rparr>\<rparr> else t)
                   else (fds, s2));
                (fds4, s4) =
                  (if enable_sump_server (sv_config s3) \<noteq> 0
                   then let (r4, f4, u4) = sump_start (sse_sump e) (fds3, sv_sump s3); t = s3\<lparr>sv_sump := u4\<rparr>
                        in (f4, if r4 \<noteq> 0 then t\<lparr>sv_config := (sv_config t)\<lparr>enable_sump_server := 0\<rparr>\<rparr> else t)
                   else (fds3, s3))
            in (0, fds4, Some (s4\<lparr>sv_started := 1\<rparr>)))"

definition edt_debug_service_stop ::
  "fd_table \<Rightarrow> debug_service ptr \<Rightarrow> int \<times> fd_table \<times> debug_service ptr" where
  "edt_debug_service_stop fds sp =
     (case sp of
        None \<Rightarrow> (- EINVAL, fds, NULL)
      | Some s \<Rightarrow>
          if sv_started s = 0 then (0, fds, Some s)
          else let (_, fds1, u) = sump_stop (fds, sv_sump s);
                   (_, fds2, n) = net_stop (fds1, sv_net s);
                   m = snd (monitor_stop (sv_monitor s));
                   l = snd (logic_stop (sv_logic s))
               in (0, fds2, Some (s\<lparr>sv_sump := u, sv_net := n, sv_monitor := m, sv_logic := l, sv_started := 0\<rparr>)))"

definition edt_debug_service_destroy ::
  "fd_table \<Rightarrow> debug_service ptr \<Rightarrow> fd_table \<times> debug_service ptr \<times> plugin_event list" where
  "edt_debug_service_destroy fds sp =
     (case sp of
        None \<Rightarrow> (fds, NULL, [])
      | Some _ \<Rightarrow>
          let (_, fds1, sp1) = edt_debug_service_stop fds sp;
              s1 = the sp1;
              (pmp, es) = edt_plugin_manager_destroy (Some (sv_plugins s1));
              s2 = destroy_monitor (s1\<lparr>sv_plugins := the pmp\<rparr>);
              (fds3, s3) = destroy_net fds1 s2;
              (fds4, s4) = destroy_sump fds3 s3
          in (fds4, Some (destroy_logic s4), es))"

record service_status =
  st_timestamp_ns :: u64
  st_sample_rate_hz :: u32
  st_total_samples :: u64
  st_dropped_samples :: u64
  st_net_stats :: net_stats
  st_sys_stats :: system_snapshot
  st_v4l2_status :: v4l2_probe_result

definition edt_debug_service_get_status ::
  "u64 \<Rightarrow> debug_service ptr \<Rightarrow> service_status ptr \<Rightarrow> int \<times> service_status ptr" where
  "edt_debug_service_get_status now sp outp =
     (case (sp, outp) of
        (Some s, Some _) \<Rightarrow>
          (0, Some \<lparr>st_timestamp_ns = now,
                    st_sample_rate_hz = edt_logic_analyzer_get_sample_rate (Some (sv_logic s)),
                    st_total_samples = edt_logic_analyzer_total_samples (Some (sv_logic s)),
                    st_dropped_samples = edt_logic_analyzer_dropped_samples (Some (sv_logic s)),
                    st_net_stats = the (snd (edt_net_capture_get_stats (Some (sv_net s)) (Some stats_zero))),
                    st_sys_stats = the (snd (edt_system_monitor_get_latest (Some (sv_monitor s)) (Some snapshot_zero))),
                    st_v4l2_status = sv_v4l2 s\<rparr>)
      | _ \<Rightarrow> (- EINVAL, outp))"

definition edt_debug_service_poll_plugins :: "debug_service ptr \<Rightarrow> int \<times> plugin_event list" where
  "edt_debug_service_poll_plugins sp =
     (case sp of None \<Rightarrow> (- EINVAL, []) | Some s \<Rightarrow> edt_plugin_manager_tick (Some (sv_plugins s)))"

section \<open>What the service owns\<close>

text \<open>
  The service stopped, with none of its parts running and no descriptor of its own; or started,
  with the analyzer and the monitor running, and the packet counter and the server running, each
  with its socket, exactly when they are enabled.
\<close>

definition service_ok :: "fd_table \<Rightarrow> fd_table \<Rightarrow> debug_service \<Rightarrow> bool" where
  "service_ok base fds s \<longleftrightarrow>
     (\<exists>mid. nc_owns base mid (sv_net s) \<and> sump_owns mid fds (sv_sump s)) \<and>
     (if sv_started s = 0
      then la_running (sv_logic s) = 0 \<and> sm_running (sv_monitor s) = 0 \<and> nc_running (sv_net s) = 0 \<and>
        ss_running (sv_sump s) = 0
      else la_running (sv_logic s) \<noteq> 0 \<and> sm_running (sv_monitor s) \<noteq> 0 \<and>
        (nc_running (sv_net s) \<noteq> 0 \<longleftrightarrow> enable_net_capture (sv_config s) \<noteq> 0) \<and>
        (ss_running (sv_sump s) \<noteq> 0 \<longleftrightarrow> enable_sump_server (sv_config s) \<noteq> 0))"

definition service_env_ok :: "service_start_env \<Rightarrow> bool" where
  "service_env_ok e \<longleftrightarrow> logic_env_ok (sse_logic e) \<and> errno_ok (sse_monitor e) \<and> net_env_ok (sse_net e) \<and>
     sump_env_ok (sse_sump e)"

lemma net_start_owned:
  "nc_owns base fds c \<Longrightarrow> net_start e (fds, c) = (r, fds', c') \<Longrightarrow> nc_owns base fds' c'"
  using net_start_owns [of base fds c e] by (auto simp: net_start_def split: prod.splits)

lemma sump_start_owned:
  "sump_owns base fds c \<Longrightarrow> sump_start e (fds, c) = (r, fds', c') \<Longrightarrow> sump_owns base fds' c'"
  using sump_start_owns [of base fds c e] by (auto simp: sump_start_def split: prod.splits)

lemma net_stop_owned:
  "nc_owns base fds c \<Longrightarrow> net_stop (fds, c) = (r, fds', c') \<Longrightarrow>
   nc_owns base fds' c' \<and> fds' = base \<and> nc_running c' = 0"
  using net_stop_owns [of base fds c] by (auto simp: net_stop_def split: prod.splits)

lemma sump_stop_owned:
  "sump_owns base fds c \<Longrightarrow> sump_stop (fds, c) = (r, fds', c') \<Longrightarrow>
   sump_owns base fds' c' \<and> fds' = base \<and> ss_running c' = 0"
  using sump_stop_owns [of base fds c] sump_sw.stop_stops [of "(fds, c)" r "(fds', c')"]
  by (auto simp: sump_stop_def split: prod.splits)

text \<open>The two optional parts of a start, each enabled or disabled afterwards as it runs.\<close>

lemma optional_net:
  assumes "nc_owns base fds (sv_net s)" "nc_running (sv_net s) = 0" "net_env_ok e"
    and "(if enable_net_capture (sv_config s) \<noteq> 0
          then let (r3, f3, n3) = net_start e (fds, sv_net s); t = s\<lparr>sv_net := n3\<rparr>
               in (f3, if r3 \<noteq> 0 then t\<lparr>sv_config := (sv_config t)\<lparr>enable_net_capture := 0\<rparr>\<rparr> else t)
          else (fds, s)) = (fds', s')"
  shows "\<exists>n c. s' = s\<lparr>sv_net := n, sv_config := c\<rparr> \<and> nc_owns base fds' n \<and>
    enable_sump_server c = enable_sump_server (sv_config s) \<and>
    (nc_running n \<noteq> 0 \<longleftrightarrow> enable_net_capture c \<noteq> 0)"
proof (cases "enable_net_capture (sv_config s) = 0")
  case True
  then show ?thesis using assms by (intro exI [of _ "sv_net s"] exI [of _ "sv_config s"]) simp
next
  case False
  obtain r f n where st: "net_start e (fds, sv_net s) = (r, f, n)" by (metis prod_cases3)
  have "nc_owns base f n" using net_start_owned [OF assms(1) st] .
  moreover have "r = 0 \<longleftrightarrow> nc_running n \<noteq> 0" using net_sw.start_result [OF assms(3) st] by simp
  ultimately show ?thesis
    using assms(4) False st
    by (intro exI [of _ n] exI [of _ "if r \<noteq> 0 then (sv_config s)\<lparr>enable_net_capture := 0\<rparr> else sv_config s"])
      (auto simp: Let_def split: if_splits)
qed

lemma optional_sump:
  assumes "sump_owns base fds (sv_sump s)" "ss_running (sv_sump s) = 0" "sump_env_ok e"
    and "(if enable_sump_server (sv_config s) \<noteq> 0
          then let (r4, f4, u4) = sump_start e (fds, sv_sump s); t = s\<lparr>sv_sump := u4\<rparr>
               in (f4, if r4 \<noteq> 0 then t\<lparr>sv_config := (sv_config t)\<lparr>enable_sump_server := 0\<rparr>\<rparr> else t)
          else (fds, s)) = (fds', s')"
  shows "\<exists>u c. s' = s\<lparr>sv_sump := u, sv_config := c\<rparr> \<and> sump_owns base fds' u \<and>
    enable_net_capture c = enable_net_capture (sv_config s) \<and>
    (ss_running u \<noteq> 0 \<longleftrightarrow> enable_sump_server c \<noteq> 0)"
proof (cases "enable_sump_server (sv_config s) = 0")
  case True
  then show ?thesis using assms by (intro exI [of _ "sv_sump s"] exI [of _ "sv_config s"]) simp
next
  case False
  obtain r f u where st: "sump_start e (fds, sv_sump s) = (r, f, u)" by (metis prod_cases3)
  have "sump_owns base f u" using sump_start_owned [OF assms(1) st] .
  moreover have "r = 0 \<longleftrightarrow> ss_running u \<noteq> 0" using sump_sw.start_result [OF assms(3) st] by simp
  ultimately show ?thesis
    using assms(4) False st
    by (intro exI [of _ u] exI [of _ "if r \<noteq> 0 then (sv_config s)\<lparr>enable_sump_server := 0\<rparr> else sv_config s"])
      (auto simp: Let_def split: if_splits)
qed

lemma service_start_ok:
  assumes ok: "service_ok base fds s" and env: "service_env_ok e"
    and st: "edt_debug_service_start e fds (Some s) = (r, fds', sp)"
  shows "service_ok base fds' (the sp)"
proof (cases "sv_started s = 0")
  case False
  then show ?thesis using ok st by (auto simp: edt_debug_service_start_def)
next
  case stopped: True
  obtain mid where own: "nc_owns base mid (sv_net s)" "sump_owns mid fds (sv_sump s)"
    and off: "la_running (sv_logic s) = 0" "sm_running (sv_monitor s) = 0" "nc_running (sv_net s) = 0"
      "ss_running (sv_sump s) = 0"
    using ok stopped by (auto simp: service_ok_def)
  have fds: "mid = base" "fds = base" using own off by (auto simp: nc_owns_def sump_owns_def)
  have env': "logic_env_ok (sse_logic e)" "errno_ok (sse_monitor e)" "net_env_ok (sse_net e)" "sump_env_ok (sse_sump e)"
    using env by (simp_all add: service_env_ok_def)
  obtain r1 l1 where s1: "logic_start (sse_logic e) (sv_logic s) = (r1, l1)" by fastforce
  obtain r2 m2 where s2: "monitor_start (sse_monitor e) (sv_monitor s) = (r2, m2)" by fastforce
  note on1 = logic_sw.start_result [OF env'(1) s1] and on2 = monitor_sw.start_result [OF env'(2) s2]
  consider "r1 \<noteq> 0" | "r1 = 0" "r2 \<noteq> 0" | "r1 = 0" "r2 = 0" by blast
  then show ?thesis
  proof cases
    case 1
    then have "the sp = s\<lparr>sv_logic := l1\<rparr>" "fds' = fds"
      using st stopped s1 by (auto simp: edt_debug_service_start_def)
    then show ?thesis using 1 on1 own off stopped by (auto simp: service_ok_def)
  next
    case 2
    have "the sp = s\<lparr>sv_logic := snd (logic_stop l1), sv_monitor := m2\<rparr>" "fds' = fds"
      using st stopped s1 s2 2 by (auto simp: edt_debug_service_start_def)
    moreover have "la_running (snd (logic_stop l1)) = 0"
      using logic_sw.stop_stops [of l1] by (metis prod.collapse)
    ultimately show ?thesis using 2 on2 own off stopped by (auto simp: service_ok_def)
  next
    case 3
    let ?s2 = "s\<lparr>sv_logic := l1, sv_monitor := m2\<rparr>"
    obtain fds3 s3 where n: "(if enable_net_capture (sv_config ?s2) \<noteq> 0
          then let (r3, f3, n3) = net_start (sse_net e) (fds, sv_net ?s2); t = ?s2\<lparr>sv_net := n3\<rparr>
               in (f3, if r3 \<noteq> 0 then t\<lparr>sv_config := (sv_config t)\<lparr>enable_net_capture := 0\<rparr>\<rparr> else t)
          else (fds, ?s2)) = (fds3, s3)" by fastforce
    obtain fds4 s4 where u: "(if enable_sump_server (sv_config s3) \<noteq> 0
          then let (r4, f4, u4) = sump_start (sse_sump e) (fds3, sv_sump s3); t = s3\<lparr>sv_sump := u4\<rparr>
               in (f4, if r4 \<noteq> 0 then t\<lparr>sv_config := (sv_config t)\<lparr>enable_sump_server := 0\<rparr>\<rparr> else t)
          else (fds3, s3)) = (fds4, s4)" by fastforce
    have res: "fds' = fds4" "sp = Some (s4\<lparr>sv_started := 1\<rparr>)"
      using st stopped s1 s2 3 n u
      unfolding edt_debug_service_start_def option.case Let_def prod.case by (simp_all add: Let_def)
    obtain nc c3 where s3: "s3 = ?s2\<lparr>sv_net := nc, sv_config := c3\<rparr>" "nc_owns base fds3 nc"
      "enable_sump_server c3 = enable_sump_server (sv_config s)" "nc_running nc \<noteq> 0 \<longleftrightarrow> enable_net_capture c3 \<noteq> 0"
      using optional_net [of base fds ?s2 "sse_net e" fds3 s3] own(1) off(3) env'(3) fds n by auto
    have "sump_owns fds3 fds3 (sv_sump s3)" using own(2) off(4) s3(1) by (simp add: sump_owns_def)
    then obtain su c4 where s4: "s4 = s3\<lparr>sv_sump := su, sv_config := c4\<rparr>" "sump_owns fds3 fds4 su"
      "enable_net_capture c4 = enable_net_capture c3" "ss_running su \<noteq> 0 \<longleftrightarrow> enable_sump_server c4 \<noteq> 0"
      using optional_sump [of fds3 fds3 s3 "sse_sump e" fds4 s4] off(4) s3(1) env'(4) u by auto
    show ?thesis
      using 3 on1 on2 s3 s4 unfolding res service_ok_def by auto
  qed
qed

lemma service_stop_ok:
  assumes ok: "service_ok base fds s" and st: "edt_debug_service_stop fds (Some s) = (r, fds', sp)"
  shows "service_ok base fds' (the sp) \<and> fds' = base \<and> sv_started (the sp) = 0 \<and>
    sv_plugins (the sp) = sv_plugins s"
proof (cases "sv_started s = 0")
  case True
  then show ?thesis
    using ok st by (auto simp: edt_debug_service_stop_def service_ok_def nc_owns_def sump_owns_def)
next
  case False
  obtain mid where own: "nc_owns base mid (sv_net s)" "sump_owns mid fds (sv_sump s)"
    using ok by (auto simp: service_ok_def)
  obtain r1 f1 u where u: "sump_stop (fds, sv_sump s) = (r1, f1, u)" by (metis prod_cases3)
  obtain r2 f2 n where n: "net_stop (f1, sv_net s) = (r2, f2, n)" by (metis prod_cases3)
  have f1: "sump_owns mid f1 u" "f1 = mid" "ss_running u = 0" using sump_stop_owned [OF own(2) u] by auto
  have f2: "nc_owns base f2 n" "f2 = base" "nc_running n = 0"
    using net_stop_owned [of base f1 "sv_net s" r2 f2 n] own(1) n f1(2) by auto
  have "la_running (snd (logic_stop l)) = 0" "sm_running (snd (monitor_stop m)) = 0" for l m
    using logic_sw.stop_stops [of l] monitor_sw.stop_stops [of m] by (metis prod.collapse)+
  moreover have "sump_owns base base u" using f1 by (auto simp: sump_owns_def)
  ultimately show ?thesis
    using st False u n f2 f1(3) by (auto simp: edt_debug_service_stop_def service_ok_def)
qed

datatype service_call = ServiceStart service_start_env | ServiceStop

fun service_run :: "service_call list \<Rightarrow> fd_table \<Rightarrow> debug_service \<Rightarrow> fd_table \<times> debug_service" where
  "service_run [] fds s = (fds, s)"
| "service_run (ServiceStart e # cs) fds s =
     (case edt_debug_service_start e fds (Some s) of (_, fds', sp) \<Rightarrow> service_run cs fds' (the sp))"
| "service_run (ServiceStop # cs) fds s =
     (case edt_debug_service_stop fds (Some s) of (_, fds', sp) \<Rightarrow> service_run cs fds' (the sp))"

definition call_ok :: "service_call \<Rightarrow> bool" where
  "call_ok c = (case c of ServiceStart e \<Rightarrow> service_env_ok e | ServiceStop \<Rightarrow> True)"

lemma service_run_ok:
  "service_ok base fds s \<Longrightarrow> list_all call_ok cs \<Longrightarrow> service_run cs fds s = (fds', s') \<Longrightarrow> service_ok base fds' s'"
  by (induction cs fds s rule: service_run.induct)
    (auto simp: call_ok_def split: prod.splits dest: service_start_ok service_stop_ok)

lemma init_parts:
  "fst (edt_sump_server_init (Some a) (Some b) c) = 0"
  "sump_owns fds fds (the (snd (edt_sump_server_init (Some a) (Some b) c)))"
  "ss_running (the (snd (edt_sump_server_init (Some a) (Some b) c))) = 0"
  "nc_owns fds fds (the (snd (edt_net_capture_init e (Some n) c')))"
  "nc_running (the (snd (edt_net_capture_init e (Some n) c'))) = 0"
  "sm_running (the (snd (edt_system_monitor_init e' (Some m) c''))) = 0"
  by (auto simp: edt_sump_server_init_def edt_net_capture_init_def edt_system_monitor_init_def sump_owns_def
      nc_owns_def Let_def split: option.splits)

lemma init_logic_stopped:
  "edt_logic_analyzer_init a (Some la) c = Some (r, lap) \<Longrightarrow> la_running (the lap) = 0 \<and>
   (r \<noteq> 0 \<longrightarrow> rb_data (la_ring (the lap)) = NULL)"
  by (auto simp: edt_logic_analyzer_init_def edt_ring_buffer_init_def ring_zero_def Let_def
      split: option.splits if_splits)

lemma probe_closes: "fst (snd (edt_v4l2_probe now oe qe fds d (Some r))) = fds"
  by (auto simp: edt_v4l2_probe_def Let_def split: option.splits sum.splits)

lemma destroy_logic_frees:
  "rb_data (la_ring (sv_logic (destroy_logic s))) = NULL \<and> la_running (sv_logic (destroy_logic s)) = 0 \<and>
   sv_started (destroy_logic s) = sv_started s"
  by (simp add: destroy_logic_def edt_logic_analyzer_destroy_def edt_logic_analyzer_stop_def
      edt_ring_buffer_destroy_def)

lemma destroy_net_stopped:
  "nc_running (sv_net s) = 0 \<Longrightarrow> destroy_net fds s = (fds, s)"
  by (simp add: destroy_net_def edt_net_capture_destroy_def edt_net_capture_stop_def)

text \<open>An initialisation, with the result of each of its steps named.\<close>

lemma service_init_eq:
  assumes cfg: "cfg = merge_config config" and z: "z = service_zero cfg"
    and l: "edt_logic_analyzer_init (ie_ring_alloc ie) (Some (sv_logic z)) (Some (cfg_logic cfg)) = Some (r1, lap)"
    and u: "edt_sump_server_init (Some (sv_sump z)) (Some (the lap)) (Some (cfg_sump cfg)) = (0, ssp)"
    and n: "edt_net_capture_init (ie_net_mutex ie) (Some (sv_net z)) (Some (cfg_net_capture cfg)) = (r3, ncp)"
    and m: "edt_system_monitor_init (ie_monitor_mutex ie) (Some (sv_monitor z)) (Some (cfg_system_monitor cfg)) = (r4, smp)"
    and v: "edt_v4l2_probe (ie_now ie) (ie_camera_open ie) (ie_camera_query ie) fds (v4l2_device_name cfg)
              (Some (sv_v4l2 z)) = (r5, fds, vp)"
    and p: "edt_plugin_manager_init (ie_slots_alloc ie) (Some (sv_plugins z)) 16 = (r6, pmp)"
    and d: "edt_plugin_manager_load_dir (ie_library ie) (ie_listing ie) (Some (the pmp)) (plugin_dir cfg) = (r7, pmp', es)"
    and off: "nc_running (the ncp) = 0"
  shows "edt_debug_service_init ie fds (Some s0) config =
    (let s1 = z\<lparr>sv_logic := the lap\<rparr>; s3 = s1\<lparr>sv_sump := the ssp, sv_net := the ncp\<rparr>;
         s6 = s3\<lparr>sv_monitor := the smp, sv_v4l2 := the vp, sv_plugins := the pmp\<rparr>
     in Some (if r1 \<noteq> 0 then (r1, fds, Some s1, [])
              else if r3 \<noteq> 0 then (r3, fds, Some (destroy_logic s3), [])
              else if r4 \<noteq> 0 then (r4, fds, Some (destroy_logic (s3\<lparr>sv_monitor := the smp\<rparr>)), [])
              else if r6 \<noteq> 0 then (r6, fds, Some (destroy_logic (destroy_monitor s6)), [])
              else (0, fds, Some (s6\<lparr>sv_plugins := the pmp', sv_started := 0\<rparr>), es)))"
proof -
  have dm: "sv_net (destroy_monitor s) = sv_net s" for s by (simp add: destroy_monitor_def)
  show ?thesis
    unfolding edt_debug_service_init_def option.case cfg [symmetric] Let_def z [symmetric] l prod.case
    using off by (simp add: u n m v p d destroy_net_stopped dm Let_def)
qed

lemma merged_plugin_dir: "Some (the (plugin_dir (merge_config c))) = plugin_dir (merge_config c)"
  by (auto simp: merge_config_def edt_apply_default_config_def or_string_def Let_def split: option.splits)

lemma manager_held_init:
  "edt_plugin_manager_init a (Some m) n = (r, mp) \<Longrightarrow> manager_held (the mp) = {#} \<or> r \<noteq> 0"
proof -
  have "held (replicate k slot_zero) = {#}" for k by (induction k) (simp_all add: slot_zero_def)
  then show "edt_plugin_manager_init a (Some m) n = (r, mp) \<Longrightarrow> ?thesis"
    by (auto simp: edt_plugin_manager_init_def manager_held_def EINVAL_def ENOMEM_def split: if_splits)
qed

lemma service_init_steps:
  obtains r1 lap where "edt_logic_analyzer_init (ie_ring_alloc ie)
      (Some (sv_logic (service_zero (merge_config config)))) (Some (cfg_logic (merge_config config))) = Some (r1, lap)"
  | "edt_debug_service_init ie fds (Some s0) config = None"
proof (cases "edt_logic_analyzer_init (ie_ring_alloc ie)
      (Some (sv_logic (service_zero (merge_config config)))) (Some (cfg_logic (merge_config config)))")
  case None
  then show ?thesis using that(2) by (simp add: edt_debug_service_init_def Let_def)
next
  case (Some x)
  then show ?thesis using that(1) by (cases x) auto
qed

lemma service_init_result:
  assumes "edt_debug_service_init ie fds (Some s0) config = Some (r, fds', Some s, es)"
  shows "fds' = fds \<and> sv_started s = 0 \<and>
    (if r = 0 then service_ok fds fds' s \<and> opened es = manager_held (sv_plugins s) + closed es
     else rb_data (la_ring (sv_logic s)) = NULL \<and> es = [])"
proof (rule service_init_steps [where ie = ie and config = config and fds = fds and ?s0.0 = s0])
  assume "edt_debug_service_init ie fds (Some s0) config = None"
  then show ?thesis using assms by simp
next
  fix r1 lap
  let ?cfg = "merge_config config" and ?z = "service_zero (merge_config config)"
  assume l: "edt_logic_analyzer_init (ie_ring_alloc ie) (Some (sv_logic ?z)) (Some (cfg_logic ?cfg)) = Some (r1, lap)"
  obtain ssp where u: "edt_sump_server_init (Some (sv_sump ?z)) (Some (the lap)) (Some (cfg_sump ?cfg)) = (0, ssp)"
    using init_parts(1) by (metis prod.collapse)
  obtain r3 ncp where n: "edt_net_capture_init (ie_net_mutex ie) (Some (sv_net ?z)) (Some (cfg_net_capture ?cfg)) = (r3, ncp)"
    by fastforce
  obtain r4 smp where m: "edt_system_monitor_init (ie_monitor_mutex ie) (Some (sv_monitor ?z))
      (Some (cfg_system_monitor ?cfg)) = (r4, smp)" by fastforce
  obtain r5 vp where v: "edt_v4l2_probe (ie_now ie) (ie_camera_open ie) (ie_camera_query ie) fds
      (v4l2_device_name ?cfg) (Some (sv_v4l2 ?z)) = (r5, fds, vp)"
    using probe_closes by (metis prod.collapse)
  obtain r6 pmp where p: "edt_plugin_manager_init (ie_slots_alloc ie) (Some (sv_plugins ?z)) 16 = (r6, pmp)" by fastforce
  obtain r7 pmp' es' where d: "edt_plugin_manager_load_dir (ie_library ie) (ie_listing ie) (Some (the pmp))
      (plugin_dir ?cfg) = (r7, pmp', es')" by (metis prod_cases3)
  have z: "sv_started ?z = 0" by (simp add: service_zero_def)
  have parts: "sump_owns fds fds (the ssp)" "ss_running (the ssp) = 0" "nc_owns fds fds (the ncp)"
    "nc_running (the ncp) = 0" "sm_running (the smp) = 0"
    using init_parts(2) [of fds "sv_sump ?z" "the lap" "Some (cfg_sump ?cfg)"]
      init_parts(3) [of "sv_sump ?z" "the lap" "Some (cfg_sump ?cfg)"] u
      init_parts(4) [of fds "ie_net_mutex ie" "sv_net ?z" "Some (cfg_net_capture ?cfg)"]
      init_parts(5) [of "ie_net_mutex ie" "sv_net ?z" "Some (cfg_net_capture ?cfg)"] n
      init_parts(6) [of "ie_monitor_mutex ie" "sv_monitor ?z" "Some (cfg_system_monitor ?cfg)"] m
    by simp_all
  note eq = service_init_eq [OF refl refl l u n m v p d parts(4), of s0]
  have dm: "sv_started (destroy_monitor t) = sv_started t" for t by (simp add: destroy_monitor_def)
  have bal: "r6 = 0 \<Longrightarrow> opened es' = manager_held (the pmp') + closed es'"
    using load_dir_balance [of "ie_library ie" "ie_listing ie" "the pmp" "the (plugin_dir ?cfg)" r7 pmp' es']
      merged_plugin_dir [of config] manager_held_init [OF p] d by simp
  show ?thesis
    using assms init_logic_stopped [OF l] parts bal unfolding eq Let_def
    by (auto simp: destroy_logic_frees dm z service_ok_def split: if_splits)
qed

section \<open>The end of a service\<close>

text \<open>A stop and the destruction close the service's descriptors and leave others of the process, here
  \<open>cl\<close>, alone.\<close>

lemma fd_close_beside: "fd \<notin> set cl \<Longrightarrow> fd_close fd (cl @ fds) = cl @ fd_close fd fds"
  by (simp add: fd_close_def)

lemma stop_beside:
  assumes ok: "service_ok base fds s" and cl: "set cl \<inter> set fds = {}"
  shows "\<exists>s1. edt_debug_service_stop (cl @ fds) (Some s) = (0, cl @ base, Some s1) \<and> service_ok base base s1 \<and>
    sv_started s1 = 0 \<and> sv_plugins s1 = sv_plugins s"
proof -
  obtain mid where own: "nc_owns base mid (sv_net s)" "sump_owns mid fds (sv_sump s)"
    using ok by (auto simp: service_ok_def)
  obtain r1 u where u: "sump_stop (fds, sv_sump s) = (r1, mid, u)"
    using sump_stop_owned [OF own(2)] by (metis prod_cases3)
  obtain r2 n where n: "net_stop (mid, sv_net s) = (r2, base, n)"
    using net_stop_owned [OF own(1)] by (metis prod_cases3)
  have "sump_stop (cl @ fds, sv_sump s) = (r1, cl @ mid, u)"
    using u own(2) cl by (auto simp: sump_stop_def edt_sump_server_stop_def sump_owns_def fd_close_beside split: if_splits)
  moreover have "set cl \<inter> set mid = {}" using own(2) cl by (auto simp: sump_owns_def split: if_splits)
  then have "net_stop (cl @ mid, sv_net s) = (r2, cl @ base, n)"
    using n own(1) by (auto simp: net_stop_def edt_net_capture_stop_def nc_owns_def fd_close_beside split: if_splits)
  moreover obtain r f sp where st: "edt_debug_service_stop fds (Some s) = (r, f, sp)" by (metis prod_cases3)
  note service_stop_ok [OF ok st]
  ultimately show ?thesis
    using st u n own by (auto simp: edt_debug_service_stop_def service_ok_def nc_owns_def sump_owns_def split: if_splits)
qed

lemma destroy_beside:
  assumes ok: "service_ok base fds s" and cl: "set cl \<inter> set fds = {}"
  shows "\<exists>s3 es. edt_debug_service_destroy (cl @ fds) (Some s) = (cl @ base, Some s3, es) \<and>
    sv_started s3 = 0 \<and> la_running (sv_logic s3) = 0 \<and> rb_data (la_ring (sv_logic s3)) = NULL \<and>
    opened es = {#} \<and> closed es = manager_held (sv_plugins s)"
proof -
  obtain s1 where st: "edt_debug_service_stop (cl @ fds) (Some s) = (0, cl @ base, Some s1)"
    and s1: "service_ok base base s1" "sv_started s1 = 0" "sv_plugins s1 = sv_plugins s"
    using stop_beside [OF assms] by blast
  obtain mp es where pd: "edt_plugin_manager_unload_all (Some (sv_plugins s1)) = (mp, es)" by fastforce
  obtain pmp where pmp: "edt_plugin_manager_destroy (Some (sv_plugins s1)) = (pmp, es)"
    using pd by (simp add: edt_plugin_manager_destroy_def)
  define u where "u = destroy_monitor (s1\<lparr>sv_plugins := the pmp\<rparr>)"
  have u: "nc_running (sv_net u) = 0" "ss_running (sv_sump u) = 0" "sv_started u = 0"
    using s1(1,2) by (simp_all add: u_def destroy_monitor_def service_ok_def)
  have "destroy_sump (cl @ base) u = (cl @ base, u)"
    using u(2) by (simp add: destroy_sump_def edt_sump_server_destroy_def edt_sump_server_stop_def)
  then have "edt_debug_service_destroy (cl @ fds) (Some s) = (cl @ base, Some (destroy_logic u), es)"
    using st pmp destroy_net_stopped [OF u(1), of "cl @ base"] by (simp add: edt_debug_service_destroy_def u_def [symmetric])
  moreover have "opened es = {#}" "closed es = manager_held (sv_plugins s)"
    using pd s1(3) by (auto simp: edt_plugin_manager_unload_all_def manager_held_def split: option.splits)
  ultimately show ?thesis using u(3) destroy_logic_frees [of u] by simp
qed

text \<open>An initialisation that fails, at whatever step, leaves no descriptor open, has given the
  sample ring back, and no library open; one that succeeds leaves the service stopped and owning no
  descriptor.\<close>

theorem service_init_clean:
  assumes "edt_debug_service_init ie fds (Some s0) config = Some (r, fds', Some s, es)"
  shows "fds' = fds \<and> sv_started s = 0 \<and>
    (if r = 0 then service_ok fds fds' s else rb_data (la_ring (sv_logic s)) = NULL \<and> es = [])"
  using service_init_result [OF assms] by (auto split: if_splits)


section \<open>An instance\<close>

definition service_demo_env :: init_env where
  "service_demo_env = \<lparr>ie_ring_alloc = True, ie_net_mutex = NULL, ie_monitor_mutex = NULL, ie_now = 5,
     ie_camera_open = Some 2, ie_camera_query = Inl 0, ie_slots_alloc = True,
     ie_library = (\<lambda>_. \<lparr>lib_opens = False, lib_has_entry = False, lib_api = NULL\<rparr>), ie_listing = Inl 2\<rparr>"

definition service_demo_config :: service_config where
  "service_demo_config = edt_apply_default_config\<lparr>cfg_logic := \<lparr>sample_rate_hz = 1000,
     max_sample_rate_hz = 1000000, ring_capacity_samples = 2, simulate_signal = 1\<rparr>\<rparr>"

lemma demo_config: "merge_config (Some service_demo_config) = service_demo_config"
  by (simp add: merge_config_def service_demo_config_def edt_apply_default_config_def or_string_def Let_def)

lemma service_demo_init:
  "\<exists>s es. edt_debug_service_init service_demo_env [0, 1, 2] (Some (service_zero service_demo_config))
     (Some service_demo_config) = Some (0, [0, 1, 2], Some s, es)"
proof -
  let ?cfg = "service_demo_config"
  have n: "(2::csize) \<le> 2 * of_nat sample_size" "2 * of_nat sample_size \<le> (2 ^ 63 :: csize)"
    by (simp_all add: sample_size_def word_le_nat_alt)
  obtain rb where rb: "edt_ring_buffer_init True (Some ring_zero) (2 * of_nat sample_size) = Some (0, Some rb)"
    using ring_init_wf [OF n] by blast
  have "ring_capacity_samples (normalise_config (Some (cfg_logic ?cfg))) = 2"
    by (simp add: normalise_config_def service_demo_config_def EDT_MAX_SAMPLE_RATE_HZ_def Let_def)
  then obtain lap where l: "edt_logic_analyzer_init (ie_ring_alloc service_demo_env)
      (Some (sv_logic (service_zero ?cfg))) (Some (cfg_logic ?cfg)) = Some (0, lap)"
    using rb by (simp add: edt_logic_analyzer_init_def Let_def service_demo_env_def)
  show ?thesis
    unfolding edt_debug_service_init_def option.case demo_config Let_def l prod.case
    by (simp add: edt_sump_server_init_def edt_net_capture_init_def edt_system_monitor_init_def
        edt_v4l2_probe_def edt_plugin_manager_init_def edt_plugin_manager_load_dir_def service_demo_env_def
        service_demo_config_def edt_apply_default_config_def Let_def)
qed

theorem service_init_clean_witness:
  "\<exists>s es. edt_debug_service_init service_demo_env [0, 1, 2] (Some (service_zero service_demo_config))
     (Some service_demo_config) = Some (0, [0, 1, 2], Some s, es) \<and> sv_started s = 0"
  using service_demo_init service_init_clean by blast


end
