(* ===== verification/MemoryPool.thy ===== *)
theory MemoryPool
  imports Prelude "HOL-Library.Multiset"
begin

text \<open>
  The hub's pool of frame buffers, \<open>src/core/memory_pool.c\<close>: reference-counted blocks, handed out
  under a lock, with waiting. A pointer to a block is its index. Allocation outcomes and what other
  threads do while a caller waits are parameters. The section on the steps of a release keeps the
  two atomic operations apart.
\<close>

section \<open>Data\<close>

record mem_block =
  mb_data :: "u8 list ptr"
  mb_capacity :: csize
  mb_used :: csize
  mb_width :: int
  mb_height :: int
  mb_format :: int
  mb_timestamp_ms :: u64
  mb_seq :: u64
  mb_index :: int
  mb_refs :: int

record mem_pool =
  mp_blocks :: "mem_block list ptr"
  mp_block_count :: int
  mp_block_size :: csize
  mp_shutdown :: int

definition block_zero :: mem_block where
  "block_zero = \<lparr>mb_data = NULL, mb_capacity = 0, mb_used = 0, mb_width = 0, mb_height = 0, mb_format = 0,
     mb_timestamp_ms = 0, mb_seq = 0, mb_index = 0, mb_refs = 0\<rparr>"

definition pool_zero :: mem_pool where
  "pool_zero = \<lparr>mp_blocks = NULL, mp_block_count = 0, mp_block_size = 0, mp_shutdown = 0\<rparr>"

definition pool_blocks :: "mem_pool \<Rightarrow> mem_block list" where
  "pool_blocks p = (case mp_blocks p of None \<Rightarrow> [] | Some bs \<Rightarrow> bs)"

section \<open>Initialisation and destruction\<close>

text \<open>\<open>heap\<close> counts the live allocations; freeing NULL frees nothing.\<close>

definition free_data :: "mem_block \<Rightarrow> int" where
  "free_data b = (case mb_data b of None \<Rightarrow> 0 | Some _ \<Rightarrow> 1)"

definition hub_mem_pool_destroy :: "int \<Rightarrow> mem_pool ptr \<Rightarrow> int \<times> mem_pool ptr" where
  "hub_mem_pool_destroy heap poolp =
     (case poolp of
        None \<Rightarrow> (heap, NULL)
      | Some p \<Rightarrow>
          (heap - sum_list (map free_data (take (nat (mp_block_count p)) (pool_blocks p)))
             - (case mp_blocks p of None \<Rightarrow> 0 | Some _ \<Rightarrow> 1),
           Some (p\<lparr>mp_blocks := NULL, mp_block_count := 0\<rparr>)))"

text \<open>The loop that allocates the data of the blocks from \<open>i\<close> on; the flag says whether all
  allocations succeeded.\<close>

fun alloc_blocks :: "(nat \<Rightarrow> bool) \<Rightarrow> csize \<Rightarrow> nat \<Rightarrow> int \<Rightarrow> mem_block list \<Rightarrow> bool \<times> int \<times> mem_block list" where
  "alloc_blocks calloc_ok block_size i heap [] = (True, heap, [])"
| "alloc_blocks calloc_ok block_size i heap (b # bs) =
     (if \<not> calloc_ok i then (False, heap, b # bs)
      else case alloc_blocks calloc_ok block_size (Suc i) (heap + 1) bs of
        (ok, heap', bs') \<Rightarrow>
          (ok, heap',
           b\<lparr>mb_data := Some (replicate (unat block_size) 0), mb_capacity := block_size, mb_index := int i,
             mb_refs := 0\<rparr> # bs'))"

definition hub_mem_pool_init ::
  "bool \<Rightarrow> (nat \<Rightarrow> bool) \<Rightarrow> int \<Rightarrow> mem_pool ptr \<Rightarrow> csize \<Rightarrow> int \<Rightarrow> int \<times> int \<times> mem_pool ptr" where
  "hub_mem_pool_init blocks_ok calloc_ok heap poolp block_size block_count =
     (if poolp = NULL \<or> block_size = 0 \<or> block_count \<le> 0 then (- 1, heap, poolp)
      else if \<not> blocks_ok then (- 1, heap, Some pool_zero)
      else (case alloc_blocks calloc_ok block_size 0 (heap + 1) (replicate (nat block_count) block_zero) of
              (ok, heap', bs) \<Rightarrow>
                let p = \<lparr>mp_blocks = Some bs, mp_block_count = block_count, mp_block_size = block_size,
                         mp_shutdown = 0\<rparr>
                in if ok then (0, heap', Some p)
                   else (case hub_mem_pool_destroy heap' (Some p) of (heap'', pp) \<Rightarrow> (- 1, heap'', pp))))"

definition hub_mem_pool_shutdown :: "mem_pool ptr \<Rightarrow> mem_pool ptr" where
  "hub_mem_pool_shutdown poolp = map_option (\<lambda>p. p\<lparr>mp_shutdown := 1\<rparr>) poolp"

section \<open>References\<close>

definition is_block_free :: "mem_block \<Rightarrow> bool" where
  "is_block_free b \<longleftrightarrow> mb_refs b = 0"

definition update_block :: "nat \<Rightarrow> (mem_block \<Rightarrow> mem_block) \<Rightarrow> mem_pool \<Rightarrow> mem_pool" where
  "update_block i f p =
     (if i < length (pool_blocks p) then p\<lparr>mp_blocks := Some ((pool_blocks p)[i := f (pool_blocks p ! i)])\<rparr>
      else p)"

definition set_refs :: "int \<Rightarrow> mem_block \<Rightarrow> mem_block" where
  "set_refs n b = b\<lparr>mb_refs := n\<rparr>"

definition block_refs :: "mem_pool \<Rightarrow> nat \<Rightarrow> int" where
  "block_refs p i = (if i < length (pool_blocks p) then mb_refs (pool_blocks p ! i) else 0)"

definition hub_mem_pool_retain :: "mem_pool \<Rightarrow> nat ptr \<Rightarrow> mem_pool" where
  "hub_mem_pool_retain p blockp =
     (case blockp of None \<Rightarrow> p | Some i \<Rightarrow> update_block i (\<lambda>b. set_refs (c_int (mb_refs b + 1)) b) p)"

text \<open>The two atomic steps of a release: the subtraction, which returns the old count, and the store.\<close>

definition release_sub :: "nat \<Rightarrow> mem_pool \<Rightarrow> int \<times> mem_pool" where
  "release_sub i p = (block_refs p i, update_block i (\<lambda>b. set_refs (c_int (mb_refs b - 1)) b) p)"

definition release_store :: "nat \<Rightarrow> mem_pool \<Rightarrow> mem_pool" where
  "release_store i p = update_block i (set_refs 0) p"

definition hub_mem_pool_release :: "mem_pool ptr \<Rightarrow> nat ptr \<Rightarrow> mem_pool ptr" where
  "hub_mem_pool_release poolp blockp =
     (case (poolp, blockp) of
        (Some p, Some i) \<Rightarrow>
          (case release_sub i p of (old, p') \<Rightarrow> Some (if old \<le> 1 then release_store i p' else p'))
      | _ \<Rightarrow> poolp)"

section \<open>Acquiring\<close>

text \<open>The scan for a free block.\<close>

fun first_free :: "mem_block list \<Rightarrow> nat option" where
  "first_free [] = None"
| "first_free (b # bs) = (if is_block_free b then Some 0 else map_option Suc (first_free bs))"

definition take_block :: "nat \<Rightarrow> mem_pool \<Rightarrow> mem_pool" where
  "take_block i p = update_block i (\<lambda>b. b\<lparr>mb_refs := 1, mb_used := 0\<rparr>) p"

text \<open>The end of a wait from \<open>now\<close>, as seconds and nanoseconds.\<close>

definition wait_deadline :: "int \<times> int \<Rightarrow> int \<Rightarrow> int \<times> int" where
  "wait_deadline now wait_ms =
     (let sec = fst now + wait_ms div 1000; nsec = snd now + (wait_ms mod 1000) * 1000000
      in if nsec \<ge> 1000000000 then (sec + 1, nsec - 1000000000) else (sec, nsec))"

text \<open>A wait on the condition: the clock before it, whether it ends by its deadline, and what the other
  threads do with the pool meanwhile.\<close>

datatype pool_op = Retain nat | Release nat | Shutdown

record wake =
  wk_now :: "int \<times> int"
  wk_timeout :: "int \<times> int \<Rightarrow> bool"
  wk_ops :: "pool_op list"

fun apply_op :: "pool_op \<Rightarrow> mem_pool \<Rightarrow> mem_pool" where
  "apply_op (Retain i) p = hub_mem_pool_retain p (Some i)"
| "apply_op (Release i) p = the (hub_mem_pool_release (Some p) (Some i))"
| "apply_op Shutdown p = the (hub_mem_pool_shutdown (Some p))"

text \<open>\<open>None\<close>: still waiting after all the waits of the list.\<close>

fun acquire_loop :: "wake list \<Rightarrow> int \<Rightarrow> mem_pool \<Rightarrow> (nat ptr \<times> mem_pool) option" where
  "acquire_loop wakes wait_ms p =
     (if mp_shutdown p \<noteq> 0 then Some (NULL, p)
      else case first_free (take (nat (mp_block_count p)) (pool_blocks p)) of
        Some i \<Rightarrow> Some (Some i, take_block i p)
      | None \<Rightarrow>
          if wait_ms = 0 then Some (NULL, p)
          else (case wakes of
                  [] \<Rightarrow> None
                | w # ws \<Rightarrow>
                    let p' = fold apply_op (wk_ops w) p
                    in if 0 < wait_ms \<and> wk_timeout w (wait_deadline (wk_now w) wait_ms) then Some (NULL, p')
                       else acquire_loop ws wait_ms p'))"

declare acquire_loop.simps [simp del]

definition hub_mem_pool_acquire :: "wake list \<Rightarrow> mem_pool ptr \<Rightarrow> int \<Rightarrow> (nat ptr \<times> mem_pool ptr) option" where
  "hub_mem_pool_acquire wakes poolp wait_ms =
     (case poolp of
        None \<Rightarrow> Some (NULL, NULL)
      | Some p \<Rightarrow>
          if mp_blocks p = NULL then Some (NULL, Some p)
          else map_option (\<lambda>(r, p'). (r, Some p')) (acquire_loop wakes wait_ms p))"

lemma wait_deadline_valid:
  assumes "0 \<le> snd now" "snd now < 1000000000" "0 \<le> wait_ms"
  shows "case wait_deadline now wait_ms of (sec, nsec) \<Rightarrow> 0 \<le> nsec \<and> nsec < 1000000000 \<and>
      sec * 1000000000 + nsec = fst now * 1000000000 + snd now + wait_ms * 1000000"
proof -
  obtain q r where q: "wait_ms div 1000 = q" and r: "wait_ms mod 1000 = r" by blast
  have "wait_ms = q * 1000 + r" "0 \<le> r" "r < 1000" using q r by auto
  then show ?thesis using assms unfolding wait_deadline_def Let_def q r by auto
qed

section \<open>The counts are the references handed out\<close>

definition pool_ok :: "mem_pool \<Rightarrow> bool" where
  "pool_ok p \<longleftrightarrow> mp_blocks p \<noteq> NULL \<and> mp_block_count p = int (length (pool_blocks p))"

text \<open>The references in circulation, one element per reference.\<close>

definition counts_held :: "nat multiset \<Rightarrow> mem_pool \<Rightarrow> bool" where
  "counts_held H p \<longleftrightarrow> (\<forall>i < length (pool_blocks p). mb_refs (pool_blocks p ! i) = int (count H i)) \<and>
     (\<forall>i \<in># H. i < length (pool_blocks p)) \<and> size H < 2 ^ 31"

lemma blocks_update [simp]:
  "pool_blocks (update_block i f p) =
     (if i < length (pool_blocks p) then (pool_blocks p)[i := f (pool_blocks p ! i)] else pool_blocks p)"
  by (simp add: update_block_def pool_blocks_def)

lemma update_block_frame [simp]:
  "mp_block_count (update_block i f p) = mp_block_count p" "mp_shutdown (update_block i f p) = mp_shutdown p"
  "mp_block_size (update_block i f p) = mp_block_size p"
  by (simp_all add: update_block_def)

lemma pool_ok_update [simp]: "pool_ok p \<Longrightarrow> pool_ok (update_block i f p)"
  unfolding pool_ok_def by (auto simp: update_block_def) (auto simp: pool_blocks_def)

lemma refs_set_refs [simp]: "mb_refs (set_refs n b) = n"
  by (simp add: set_refs_def)

lemma counts_held_count: "counts_held H p \<Longrightarrow> count H i < 2 ^ 31"
  using count_le_size [of H i] by (simp add: counts_held_def del: count_le_size)

lemma counts_held_update:
  assumes "counts_held H p" and "i < length (pool_blocks p)" and "mb_refs (f (pool_blocks p ! i)) = int (count H' i)"
    and "\<And>j. j \<noteq> i \<Longrightarrow> count H' j = count H j" and "size H' < 2 ^ 31"
  shows "counts_held H' (update_block i f p)"
proof -
  have "j < length (pool_blocks p)" if "j \<in># H'" for j
    using assms(1,2,4) that unfolding counts_held_def by (cases "j = i") (auto simp flip: count_greater_zero_iff)
  with assms show ?thesis by (auto simp: counts_held_def nth_list_update)
qed

lemma first_free_None: "first_free bs = None \<longleftrightarrow> (\<forall>b \<in> set bs. mb_refs b \<noteq> 0)"
  by (induction bs) (auto simp: is_block_free_def)

lemma first_free_Some:
  "first_free bs = Some i \<Longrightarrow> i < length bs \<and> mb_refs (bs ! i) = 0 \<and> (\<forall>j < i. mb_refs (bs ! j) \<noteq> 0)"
proof (induction bs arbitrary: i)
  case (Cons b bs)
  then show ?case
    by (auto simp: is_block_free_def nth_Cons' split: if_splits)
qed simp

lemma first_free_least:
  "k < length bs \<Longrightarrow> mb_refs (bs ! k) = 0 \<Longrightarrow> \<forall>j < k. mb_refs (bs ! j) \<noteq> 0 \<Longrightarrow> first_free bs = Some k"
proof (induction bs arbitrary: k)
  case (Cons b bs)
  show ?case
  proof (cases k)
    case (Suc m)
    have "\<forall>j < m. mb_refs (bs ! j) \<noteq> 0" using Cons.prems(3) Suc by auto
    with Cons.IH [of m] Cons.prems Suc show ?thesis by (auto simp: is_block_free_def)
  qed (use Cons.prems in \<open>simp add: is_block_free_def\<close>)
qed simp

text \<open>The scan covers all the blocks.\<close>

definition pool_scan :: "mem_pool \<Rightarrow> nat option" where
  "pool_scan p = first_free (take (nat (mp_block_count p)) (pool_blocks p))"

lemma pool_scan_ok: "pool_ok p \<Longrightarrow> pool_scan p = first_free (pool_blocks p)"
  by (simp add: pool_scan_def pool_ok_def)

lemma acquire_now:
  "pool_ok p \<Longrightarrow> hub_mem_pool_acquire wakes (Some p) 0 =
     Some (if mp_shutdown p \<noteq> 0 then (NULL, Some p)
           else case first_free (pool_blocks p) of None \<Rightarrow> (NULL, Some p) | Some i \<Rightarrow> (Some i, Some (take_block i p)))"
  using pool_scan_ok [of p]
  by (auto simp: hub_mem_pool_acquire_def acquire_loop.simps [of wakes] pool_ok_def pool_scan_def split: option.split)

lemma take_block_held:
  assumes "counts_held H p" "i < length (pool_blocks p)" "mb_refs (pool_blocks p ! i) = 0" "size H + 1 < 2 ^ 31"
  shows "counts_held (add_mset i H) (take_block i p)" "i \<notin># H"
proof -
  have 0: "count H i = 0" using assms(1-3) by (simp add: counts_held_def)
  then show "i \<notin># H" by (simp add: not_in_iff)
  show "counts_held (add_mset i H) (take_block i p)"
    unfolding take_block_def using assms 0 by (intro counts_held_update [OF assms(1)]) simp_all
qed

lemma retain_held:
  assumes "counts_held H p" "i \<in># H" "size H + 1 < 2 ^ 31"
  shows "counts_held (add_mset i H) (hub_mem_pool_retain p (Some i))"
proof -
  have i: "i < length (pool_blocks p)" "mb_refs (pool_blocks p ! i) = int (count H i)"
    using assms by (auto simp: counts_held_def)
  have "count H i \<le> size H" by (rule count_le_size)
  then have "c_int (int (count H i) + 1) = int (count (add_mset i H) i)" using assms(3) by (subst c_int_id) auto
  then show ?thesis
    unfolding hub_mem_pool_retain_def using assms i by (simp, intro counts_held_update [OF assms(1)]) simp_all
qed

text \<open>A release by a holder gives one reference back; a release of a block that nobody holds changes
  nothing.\<close>

lemma release_held:
  assumes "counts_held H p" "i \<in># H"
  shows "counts_held (H - {#i#}) (the (hub_mem_pool_release (Some p) (Some i)))"
proof -
  have i: "i < length (pool_blocks p)" and r: "mb_refs (pool_blocks p ! i) = int (count H i)"
    using assms by (auto simp: counts_held_def)
  have c: "0 < count H i" "count H i < 2 ^ 31" using assms(2) counts_held_count [OF assms(1)] by simp_all
  then have s: "c_int (int (count H i) - 1) = int (count (H - {#i#}) i)" by (subst c_int_id) auto
  have sz: "size (H - {#i#}) < 2 ^ 31" using assms by (auto simp: counts_held_def size_Diff_singleton)
  have "counts_held (H - {#i#}) (update_block i (\<lambda>b. set_refs (c_int (mb_refs b - 1)) b) p)" (is "counts_held _ ?p1")
    using i r s sz by (intro counts_held_update [OF assms(1)]) simp_all
  moreover have "counts_held (H - {#i#}) (update_block i (set_refs 0) ?p1)" if "count H i \<le> 1"
    using calculation i that c sz by (intro counts_held_update [OF calculation]) simp_all
  ultimately show ?thesis
    using i r by (simp add: hub_mem_pool_release_def release_sub_def release_store_def block_refs_def)
qed

lemma release_free:
  assumes "counts_held H p" "i \<notin># H"
  shows "counts_held H (the (hub_mem_pool_release (Some p) (Some i)))"
proof (cases "i < length (pool_blocks p)")
  case True
  then have "mb_refs (pool_blocks p ! i) = 0" using assms by (simp add: counts_held_def count_eq_zero_iff)
  then show ?thesis
    using assms True
    by (auto simp: hub_mem_pool_release_def release_sub_def release_store_def block_refs_def counts_held_def
        nth_list_update)
next
  case False
  then show ?thesis
    using assms
    by (simp add: hub_mem_pool_release_def release_sub_def release_store_def block_refs_def update_block_def)
qed

lemma pool_ok_ops [simp]:
  "pool_ok p \<Longrightarrow> pool_ok (take_block i p)"
  "pool_ok p \<Longrightarrow> pool_ok (hub_mem_pool_retain p b)"
  "pool_ok p \<Longrightarrow> pool_ok (the (hub_mem_pool_release (Some p) b))"
  "pool_ok p \<Longrightarrow> pool_ok (the (hub_mem_pool_shutdown (Some p)))"
  by (auto simp: take_block_def hub_mem_pool_retain_def hub_mem_pool_release_def release_sub_def release_store_def
      hub_mem_pool_shutdown_def split: option.splits)
     (simp add: pool_ok_def pool_blocks_def)


section \<open>Runs of callers that return what they hold\<close>

datatype pool_call = CallAcquire | CallRetain nat | CallRelease nat | CallShutdown

text \<open>The references in circulation are carried along; \<open>None\<close> when a call retains or releases a
  block of which no reference is out.\<close>

fun pool_run :: "pool_call list \<Rightarrow> nat multiset \<Rightarrow> mem_pool \<Rightarrow> (nat multiset \<times> mem_pool) option" where
  "pool_run [] H p = Some (H, p)"
| "pool_run (CallAcquire # cs) H p =
     (case hub_mem_pool_acquire [] (Some p) 0 of
        Some (Some i, Some p') \<Rightarrow> pool_run cs (add_mset i H) p'
      | _ \<Rightarrow> pool_run cs H p)"
| "pool_run (CallRetain i # cs) H p =
     (if i \<in># H then pool_run cs (add_mset i H) (hub_mem_pool_retain p (Some i)) else None)"
| "pool_run (CallRelease i # cs) H p =
     (if i \<in># H then pool_run cs (H - {#i#}) (the (hub_mem_pool_release (Some p) (Some i))) else None)"
| "pool_run (CallShutdown # cs) H p = pool_run cs H (the (hub_mem_pool_shutdown (Some p)))"

lemma counts_held_shutdown: "counts_held H p \<Longrightarrow> counts_held H (the (hub_mem_pool_shutdown (Some p)))"
  by (simp add: counts_held_def hub_mem_pool_shutdown_def pool_blocks_def)

lemma length_blocks_ops [simp]:
  "length (pool_blocks (update_block i f p)) = length (pool_blocks p)"
  "length (pool_blocks (take_block i p)) = length (pool_blocks p)"
  "length (pool_blocks (hub_mem_pool_retain p b)) = length (pool_blocks p)"
  "length (pool_blocks (the (hub_mem_pool_release (Some p) b))) = length (pool_blocks p)"
  "length (pool_blocks (the (hub_mem_pool_shutdown (Some p)))) = length (pool_blocks p)"
  by (auto simp: take_block_def hub_mem_pool_retain_def hub_mem_pool_release_def release_sub_def release_store_def
      hub_mem_pool_shutdown_def pool_blocks_def update_block_def split: option.splits)

lemma pool_run_held:
  "pool_run cs H p = Some (H', p') \<Longrightarrow> pool_ok p \<Longrightarrow> counts_held H p \<Longrightarrow> size H + length cs < 2 ^ 31 \<Longrightarrow>
   pool_ok p' \<and> counts_held H' p' \<and> length (pool_blocks p') = length (pool_blocks p)"
proof (induction cs H p rule: pool_run.induct)
  case (2 cs H p)
  show ?case
  proof (cases "hub_mem_pool_acquire [] (Some p) 0")
    case (Some rp)
    obtain r pp where rp: "rp = (r, pp)" by (cases rp)
    show ?thesis
    proof (cases r)
      case (Some i)
      with 2 \<open>hub_mem_pool_acquire _ _ _ = Some rp\<close> rp
      have f: "first_free (pool_blocks p) = Some i" "pp = Some (take_block i p)"
        by (auto simp: acquire_now split: if_splits option.splits)
      note i = first_free_Some [OF f(1)]
      have "counts_held (add_mset i H) (take_block i p)"
        using 2 i by (intro take_block_held(1)) simp_all
      with 2 f Some rp \<open>hub_mem_pool_acquire _ _ _ = Some rp\<close> show ?thesis by simp
    next
      case None
      with 2 rp \<open>hub_mem_pool_acquire _ _ _ = Some rp\<close> show ?thesis by simp
    qed
  next
    case None
    with 2 show ?thesis by simp
  qed
next
  case (3 i cs H p)
  then show ?case using retain_held [of H p i] by (auto split: if_splits)
next
  case (4 i cs H p)
  then show ?case
    using size_mset_mono [OF diff_subset_eq_self, of H "{#i#}"] release_held [of H p i] by (auto split: if_splits)
next
  case (5 cs H p)
  then show ?case by (simp add: counts_held_shutdown)
qed simp

lemma alloc_blocks_ok:
  "alloc_blocks calloc_ok bsz i heap bs = (True, heap', bs') \<Longrightarrow>
   length bs' = length bs \<and> heap' = heap + int (length bs) \<and>
   (\<forall>b \<in> set bs'. mb_refs b = 0 \<and> mb_data b = Some (replicate (unat bsz) 0) \<and> mb_capacity b = bsz)"
  by (induction calloc_ok bsz i heap bs arbitrary: heap' bs' rule: alloc_blocks.induct)
     (auto split: if_splits prod.splits)

lemma free_data_simps [simp]:
  "mb_data b = NULL \<Longrightarrow> free_data b = 0" "mb_data b = Some d \<Longrightarrow> free_data b = 1"
  by (simp_all add: free_data_def)

lemma alloc_blocks_heap:
  "\<forall>b \<in> set bs. mb_data b = NULL \<Longrightarrow> alloc_blocks calloc_ok bsz i heap bs = (ok, heap', bs') \<Longrightarrow>
   length bs' = length bs \<and> heap' = heap + sum_list (map free_data bs')"
proof (induction calloc_ok bsz i heap bs arbitrary: heap' bs' rule: alloc_blocks.induct)
  case (2 calloc_ok bsz i heap b bs)
  have "sum_list (map free_data bs) = 0" if "\<forall>b \<in> set bs. mb_data b = NULL" for bs
    using that by (induction bs) simp_all
  from this [of bs] 2 show ?case by (auto split: if_splits prod.splits)
qed simp

lemma pool_init_ok:
  assumes "hub_mem_pool_init True calloc_ok heap poolp bsz n = (0, heap', Some p)"
  shows "pool_ok p \<and> counts_held {#} p \<and> length (pool_blocks p) = nat n \<and> 0 < n \<and> mp_shutdown p = 0 \<and>
    (\<forall>b \<in> set (pool_blocks p). mb_data b = Some (replicate (unat bsz) 0) \<and> mb_capacity b = bsz)"
proof -
  obtain ok h bs where a: "alloc_blocks calloc_ok bsz 0 (heap + 1) (replicate (nat n) block_zero) = (ok, h, bs)"
    by (metis prod_cases3)
  with assms have "ok" and n: "0 < n"
    and p: "p = \<lparr>mp_blocks = Some bs, mp_block_count = n, mp_block_size = bsz, mp_shutdown = 0\<rparr>"
    by (auto simp: hub_mem_pool_init_def Let_def split: if_splits prod.splits)
  with alloc_blocks_ok [of calloc_ok bsz 0 "heap + 1" "replicate (nat n) block_zero" h bs] a
  show ?thesis by (simp add: pool_ok_def counts_held_def pool_blocks_def)
qed


text \<open>An initialisation that fails, whichever allocation fails, has freed what it allocated; one that
  succeeds has a zeroed buffer of the requested size in every block, and destruction frees all of it.\<close>

theorem pool_allocations_balance:
  assumes "hub_mem_pool_init blocks_ok calloc_ok heap poolp bsz n = (r, heap', poolp')"
  shows "if r = 0
    then 0 < n \<and> heap' = heap + 1 + n \<and> fst (hub_mem_pool_destroy heap' poolp') = heap \<and>
      (\<exists>bs. map_option mp_blocks poolp' = Some (Some bs) \<and> length bs = nat n \<and>
         (\<forall>b \<in> set bs. mb_data b = Some (replicate (unat bsz) 0) \<and> mb_capacity b = bsz))
    else r = - 1 \<and> heap' = heap"
proof -
  obtain ok h bs where a: "alloc_blocks calloc_ok bsz 0 (heap + 1) (replicate (nat n) block_zero) = (ok, h, bs)"
    by (metis prod_cases3)
  have h: "length bs = nat n" "h = heap + 1 + sum_list (map free_data bs)"
    using alloc_blocks_heap [OF _ a] by (simp_all add: block_zero_def)
  have ok: "ok \<Longrightarrow> h = heap + 1 + int (nat n) \<and>
      (\<forall>b \<in> set bs. mb_data b = Some (replicate (unat bsz) 0) \<and> mb_capacity b = bsz)"
    using alloc_blocks_ok [of calloc_ok bsz 0 "heap + 1" "replicate (nat n) block_zero" h bs] a by auto
  show ?thesis
    using assms a h ok
    by (auto simp: hub_mem_pool_init_def hub_mem_pool_destroy_def Let_def pool_blocks_def split: if_splits)
qed

section \<open>A release is not atomic\<close>

lemma release_steps:
  "hub_mem_pool_release (Some p) (Some i) =
     Some (if fst (release_sub i p) \<le> 1 then release_store i (snd (release_sub i p)) else snd (release_sub i p))"
  by (simp add: hub_mem_pool_release_def release_sub_def)

text \<open>C27. Between the two atomic steps of a release another thread may acquire the block, and the store
  then takes its reference away: the next acquisition hands the same block out a second time.\<close>

theorem release_race_grants_twice:
  assumes "pool_ok p" and "mp_shutdown p = 0" and "i < length (pool_blocks p)"
    and "mb_refs (pool_blocks p ! i) = 1" and "\<forall>j < i. mb_refs (pool_blocks p ! j) \<noteq> 0"
  shows "\<exists>p1 p2. release_sub i p = (1, p1) \<and> hub_mem_pool_acquire [] (Some p1) 0 = Some (Some i, Some p2) \<and>
    (\<exists>p3. hub_mem_pool_acquire [] (Some (release_store i p2)) 0 = Some (Some i, Some p3))"
proof -
  let ?p1 = "snd (release_sub i p)"
  have "c_int 0 = 0" by (simp add: c_int_id)
  with assms have p1: "release_sub i p = (1, ?p1)" "pool_ok ?p1" "mp_shutdown ?p1 = 0"
    and f1: "first_free (pool_blocks ?p1) = Some i"
    by (auto simp: release_sub_def block_refs_def intro!: first_free_least)
  let ?p2 = "take_block i ?p1"
  have f2: "first_free (pool_blocks (release_store i ?p2)) = Some i"
    using assms by (auto simp: release_sub_def release_store_def take_block_def intro!: first_free_least)
  have "pool_ok (release_store i ?p2)" "mp_shutdown (release_store i ?p2) = 0"
    using p1 by (simp_all add: release_store_def take_block_def)
  with p1 f1 f2 show ?thesis by (auto simp: acquire_now)
qed

section \<open>Waiting\<close>

lemma acquire_loop_ok:
  "pool_ok p \<Longrightarrow> acquire_loop wakes wait_ms p =
     (if mp_shutdown p \<noteq> 0 then Some (NULL, p)
      else case first_free (pool_blocks p) of
        Some i \<Rightarrow> Some (Some i, take_block i p)
      | None \<Rightarrow>
          if wait_ms = 0 then Some (NULL, p)
          else (case wakes of
                  [] \<Rightarrow> None
                | w # ws \<Rightarrow>
                    let p' = fold apply_op (wk_ops w) p
                    in if 0 < wait_ms \<and> wk_timeout w (wait_deadline (wk_now w) wait_ms) then Some (NULL, p')
                       else acquire_loop ws wait_ms p'))"
  by (subst acquire_loop.simps) (simp add: pool_scan_ok [unfolded pool_scan_def])

lemma apply_ops_ok: "pool_ok p \<Longrightarrow> pool_ok (fold apply_op ops p)"
proof (induction ops arbitrary: p)
  case (Cons a ops)
  then have "pool_ok (apply_op a p)" by (cases a) simp_all
  with Cons.IH show ?case by simp
qed simp

lemma apply_ops_shutdown:
  "Shutdown \<in> set ops \<or> mp_shutdown p \<noteq> 0 \<Longrightarrow> mp_shutdown (fold apply_op ops p) \<noteq> 0"
proof (induction ops arbitrary: p)
  case (Cons a ops)
  have "mp_shutdown (apply_op a p) = (if a = Shutdown then 1 else mp_shutdown p)"
    by (cases a) (simp_all add: hub_mem_pool_retain_def hub_mem_pool_release_def release_sub_def release_store_def
        hub_mem_pool_shutdown_def)
  with Cons.prems have "Shutdown \<in> set ops \<or> mp_shutdown (apply_op a p) \<noteq> 0" by (auto split: if_splits)
  from Cons.IH [OF this] show ?case by simp
qed simp

text \<open>An acquisition that has returned a proper result.\<close>

definition acquired :: "(nat ptr \<times> mem_pool) option \<Rightarrow> bool" where
  "acquired res = (case res of
     None \<Rightarrow> False
   | Some (r, p) \<Rightarrow> pool_ok p \<and> (case r of None \<Rightarrow> True | Some i \<Rightarrow> i < length (pool_blocks p) \<and> block_refs p i = 1))"

lemma acquired_block:
  assumes "pool_ok p" "first_free (pool_blocks p) = Some i"
  shows "acquired (Some (Some i, take_block i p))"
proof -
  have "i < length (pool_blocks p)" using first_free_Some [OF assms(2)] by simp
  moreover have "block_refs (take_block i p) i = 1" using calculation by (simp add: take_block_def block_refs_def)
  ultimately show ?thesis using assms(1) by (simp add: acquired_def)
qed

definition wait_ends :: "wake list \<Rightarrow> int \<Rightarrow> bool" where
  "wait_ends wakes wait_ms \<longleftrightarrow> wait_ms = 0 \<or> 0 < wait_ms \<and> (\<exists>w \<in> set wakes. \<forall>d. wk_timeout w d) \<or>
     (\<exists>w \<in> set wakes. Shutdown \<in> set (wk_ops w))"

lemma acquire_loop_returns:
  "pool_ok p \<Longrightarrow> mp_shutdown p \<noteq> 0 \<or> wait_ends wakes wait_ms \<Longrightarrow> acquired (acquire_loop wakes wait_ms p)"
proof (induction wakes arbitrary: p)
  case Nil
  show ?case
  proof (cases "mp_shutdown p \<noteq> 0 \<or> first_free (pool_blocks p) = None")
    case True
    with Nil show ?thesis by (auto simp: acquire_loop_ok wait_ends_def acquired_def)
  next
    case False
    with Nil acquired_block [OF Nil(1)] show ?thesis by (auto simp: acquire_loop_ok)
  qed
next
  case (Cons w ws)
  let ?p' = "fold apply_op (wk_ops w) p"
  consider (down) "mp_shutdown p \<noteq> 0 \<or> first_free (pool_blocks p) = None \<and> wait_ms = 0"
    | (block) i where "mp_shutdown p = 0" "first_free (pool_blocks p) = Some i"
    | (waits) "mp_shutdown p = 0" "first_free (pool_blocks p) = None" "wait_ms \<noteq> 0"
    by (cases "first_free (pool_blocks p)") auto
  then show ?case
  proof cases
    case down
    with Cons.prems show ?thesis by (auto simp: acquire_loop_ok acquired_def)
  next
    case block
    with Cons.prems acquired_block [OF Cons.prems(1)] show ?thesis by (simp add: acquire_loop_ok)
  next
    case waits
    note ok = apply_ops_ok [OF Cons.prems(1), of "wk_ops w"]
    show ?thesis
    proof (cases "0 < wait_ms \<and> wk_timeout w (wait_deadline (wk_now w) wait_ms)")
      case True
      with waits Cons.prems(1) ok show ?thesis by (simp add: acquire_loop_ok acquired_def Let_def)
    next
      case False
      have "mp_shutdown ?p' \<noteq> 0 \<or> wait_ends ws wait_ms"
      proof (cases "Shutdown \<in> set (wk_ops w)")
        case True
        with apply_ops_shutdown [of "wk_ops w" p] show ?thesis by blast
      next
        case no: False
        have "\<not> (0 < wait_ms \<and> (\<forall>d. wk_timeout w d))" using False by blast
        with no Cons.prems(2) waits have "wait_ends ws wait_ms" by (simp add: wait_ends_def) blast
        then show ?thesis ..
      qed
      from Cons.IH [OF ok this] False waits Cons.prems(1) show ?thesis
        by (auto simp: acquire_loop_ok [OF Cons.prems(1)] Let_def)
    qed
  qed
qed


section \<open>What a client of the pool relies on\<close>

text \<open>\<open>counts H s\<close>: the references in circulation are \<open>H\<close>. A release by a holder gives one back, any
  other release changes nothing, so a client may sweep over everything it might still hold.\<close>

locale reference_pool =
  fixes rel :: "'i \<Rightarrow> 's \<Rightarrow> 's" and counts :: "'i multiset \<Rightarrow> 's \<Rightarrow> bool"
  assumes rel_held: "counts H s \<Longrightarrow> i \<in># H \<Longrightarrow> counts (H - {#i#}) (rel i s)"
    and rel_free: "counts H s \<Longrightarrow> i \<notin># H \<Longrightarrow> counts H (rel i s)"
begin

lemma sweep: "counts H s \<Longrightarrow> H \<subseteq># mset xs \<Longrightarrow> counts {#} (fold rel xs s)"
proof (induction xs arbitrary: H s)
  case (Cons x xs)
  show ?case
  proof (cases "x \<in># H")
    case True
    then have "H - {#x#} \<subseteq># mset xs" using Cons.prems(2) by (simp add: subset_eq_diff_conv)
    with Cons.IH [OF rel_held [OF Cons.prems(1) True]] show ?thesis by simp
  next
    case False
    then have "H \<subseteq># mset xs" using Cons.prems(2)
      by (metis add_mset_add_single diff_single_trivial mset.simps(2) subset_eq_diff_conv)
    with Cons.IH [OF rel_free [OF Cons.prems(1) False]] show ?thesis by simp
  qed
qed simp

end

definition pool_release :: "nat \<Rightarrow> mem_pool \<Rightarrow> mem_pool" where
  "pool_release i p = the (hub_mem_pool_release (Some p) (Some i))"

definition pool_counts :: "nat multiset \<Rightarrow> mem_pool \<Rightarrow> bool" where
  "pool_counts H p \<longleftrightarrow> pool_ok p \<and> counts_held H p"

interpretation frames: reference_pool pool_release pool_counts
  by unfold_locales (simp_all add: pool_release_def pool_counts_def release_held release_free)

section \<open>An instance\<close>

definition demo_block :: "nat \<Rightarrow> mem_block" where
  "demo_block i = block_zero\<lparr>mb_data := Some [0, 0], mb_capacity := 2, mb_index := int i\<rparr>"

definition pool_demo :: mem_pool where
  "pool_demo = \<lparr>mp_blocks = Some [demo_block 0, demo_block 1], mp_block_count = 2, mp_block_size = 2,
                mp_shutdown = 0\<rparr>"

lemma pool_demo_init: "hub_mem_pool_init True (\<lambda>_. True) 0 (Some pool_zero) 2 2 = (0, 3, Some pool_demo)"
proof -
  have n: "replicate 2 x = [x, x]" for x :: mem_block by (simp add: numeral_2_eq_2)
  have n': "replicate 2 x = [x, x]" for x :: u8 by (simp add: numeral_2_eq_2)
  show ?thesis
    by (simp add: pool_demo_def hub_mem_pool_init_def Let_def demo_block_def block_zero_def n n')
qed

lemma pool_demo_acquire:
  "hub_mem_pool_acquire [] (Some pool_demo) 0 = Some (Some 0, Some (take_block 0 pool_demo))"
  by (simp add: acquire_now pool_ok_def pool_demo_def pool_blocks_def is_block_free_def demo_block_def block_zero_def)


theorem pool_allocations_balance_witness:
  "fst (hub_mem_pool_destroy 3 (Some pool_demo)) = 0 \<and>
   (\<exists>poolp. hub_mem_pool_init True (\<lambda>i. i = 0) 0 (Some pool_zero) 2 2 = (- 1, 0, poolp))"
proof -
  obtain r h pp where i: "hub_mem_pool_init True (\<lambda>i. i = 0) 0 (Some pool_zero) 2 2 = (r, h, pp)"
    by (metis prod_cases3)
  have n: "replicate 2 x = [x, x]" for x :: mem_block by (simp add: numeral_2_eq_2)
  have "r \<noteq> 0" using i by (auto simp: hub_mem_pool_init_def Let_def n split: prod.splits)
  then show ?thesis
    using i pool_allocations_balance [OF i] pool_allocations_balance [OF pool_demo_init] by auto
qed

theorem release_race_grants_twice_witness:
  "\<exists>p1 p2. release_sub 0 (take_block 0 pool_demo) = (1, p1) \<and>
     hub_mem_pool_acquire [] (Some p1) 0 = Some (Some 0, Some p2) \<and>
     (\<exists>p3. hub_mem_pool_acquire [] (Some (release_store 0 p2)) 0 = Some (Some 0, Some p3))"
  by (rule release_race_grants_twice)
     (simp_all add: pool_ok_def take_block_def pool_demo_def update_block_def pool_blocks_def)


end
