(* ===== verification/JsonText.thy ===== *)
theory JsonText
  imports CText
begin

text \<open>
  The text scanning of \<open>src/core/hub_config.c\<close>, of which \<open>src/rpc/json_rpc_dispatch.c\<close> has its own copy
  with a smaller pattern buffer: \<open>psize\<close> is the size of that buffer. The second part is the
  specification: what the scanning finds in the text of a flat JSON object.
\<close>

section \<open>Scanning\<close>

abbreviation QUOTE :: char where
  "QUOTE \<equiv> CHR 0x22"

definition skip_ws :: "string \<Rightarrow> string" where
  "skip_ws s = dropWhile c_isspace s"

definition quoted :: "string \<Rightarrow> string" where
  "quoted s = QUOTE # s @ [QUOTE]"

definition json_find_key :: "nat \<Rightarrow> string \<Rightarrow> string \<Rightarrow> string option" where
  "json_find_key psize json key =
     (let pattern = snprintf_str psize (quoted key)
      in case c_strstr json pattern of
           None \<Rightarrow> None
         | Some p \<Rightarrow>
             (case c_strchr (drop (length pattern) p) (CHR '':'') of
                None \<Rightarrow> None
              | Some q \<Rightarrow> Some (skip_ws (tl q))))"

text \<open>The copy of a quoted string to a buffer: the characters copied and whether the closing quote
  follows them. \<open>p\<close> is the text behind the opening quote. Without it the buffer keeps what was
  copied but gets no NUL.\<close>

definition copy_quoted :: "string \<Rightarrow> char list \<Rightarrow> int \<times> char list" where
  "copy_quoted p out =
     (let s = take (length out - 1) (takeWhile (\<lambda>c. c \<noteq> QUOTE) p); len = length s; out' = s @ drop len out
      in if len < length p \<and> p ! len = QUOTE then (0, out'[len := NUL]) else (- 1, out'))"

definition json_get_string :: "nat \<Rightarrow> string \<Rightarrow> string \<Rightarrow> char list \<Rightarrow> int \<times> char list" where
  "json_get_string psize json key out =
     (case json_find_key psize json key of
        Some (c # p) \<Rightarrow> if c = QUOTE then copy_quoted p out else (- 1, out)
      | _ \<Rightarrow> (- 1, out))"

text \<open>\<open>strtol\<close> at \<open>p\<close>: fails when it moves nothing; the value is converted to \<open>int\<close>.\<close>

definition scan_int :: "string \<Rightarrow> int \<Rightarrow> int \<times> int" where
  "scan_int p out = (case c_strtol p of (v, endp) \<Rightarrow> if endp = p then (- 1, out) else (0, c_int v))"

definition json_get_int :: "nat \<Rightarrow> string \<Rightarrow> string \<Rightarrow> int \<Rightarrow> int \<times> int" where
  "json_get_int psize json key out =
     (case json_find_key psize json key of None \<Rightarrow> (- 1, out) | Some p \<Rightarrow> scan_int p out)"

section \<open>Flat JSON objects\<close>

datatype jval = JStr string | JInt int

type_synonym jdoc = "(string \<times> jval) list"

fun jval_text :: "jval \<Rightarrow> string" where
  "jval_text (JStr s) = quoted s"
| "jval_text (JInt i) = int_string i"

fun doc_text :: "jdoc \<Rightarrow> string" where
  "doc_text [] = ''}''"
| "doc_text ((k, v) # r) =
     quoted k @ '': '' @ jval_text v @ (if r = [] then ''}'' else '', '' @ doc_text r)"

definition json_text :: "jdoc \<Rightarrow> string" where
  "json_text doc = CHR ''{'' # doc_text doc"

text \<open>What may be written without escapes, and which names are told apart from the text around them.\<close>

definition plain_text :: "string \<Rightarrow> bool" where
  "plain_text s \<longleftrightarrow> QUOTE \<notin> set s \<and> NUL \<notin> set s"

definition key_ok :: "string \<Rightarrow> bool" where
  "key_ok k \<longleftrightarrow> plain_text k \<and> k \<noteq> [] \<and> hd k \<noteq> CHR '':'' \<and> hd k \<noteq> CHR '',''"

definition jval_ok :: "jval \<Rightarrow> bool" where
  "jval_ok v = (case v of JStr s \<Rightarrow> plain_text s | JInt i \<Rightarrow> - (2 ^ 31) \<le> i \<and> i < 2 ^ 31)"

definition doc_ok :: "string set \<Rightarrow> jdoc \<Rightarrow> bool" where
  "doc_ok keys doc \<longleftrightarrow> list_all (\<lambda>(k, v). plain_text k \<and> jval_ok v \<and> (case v of JStr s \<Rightarrow> s \<notin> keys | JInt _ \<Rightarrow> True)) doc"

section \<open>The scanning finds the values\<close>

lemma strstr_skip: "QUOTE \<notin> set s \<Longrightarrow> c_strstr (s @ t) (QUOTE # p) = c_strstr t (QUOTE # p)"
  by (induction s) auto

lemma strstr_no_quote: "QUOTE \<notin> set s \<Longrightarrow> c_strstr s (QUOTE # p) = None"
  using strstr_skip [of s "[]" p] by simp

declare c_strstr.simps(2) [simp del]

lemma prefix_segment:
  "QUOTE \<notin> set s \<Longrightarrow> QUOTE \<notin> set k \<Longrightarrow> has_prefix (k @ [QUOTE]) (s @ QUOTE # t) \<longleftrightarrow> s = k"
proof (induction k arbitrary: s)
  case Nil
  then show ?case by (cases s) auto
next
  case (Cons c k)
  then show ?case by (cases s) auto
qed

text \<open>A segment between two quotes is a match or is skipped.\<close>

lemma strstr_segment:
  assumes "QUOTE \<notin> set s" "QUOTE \<notin> set k"
  shows "c_strstr (QUOTE # s @ QUOTE # t) (quoted k) =
    (if s = k then Some (QUOTE # s @ QUOTE # t) else c_strstr (QUOTE # t) (quoted k))"
  using prefix_segment [OF assms, of t] strstr_skip [OF assms(1), of "QUOTE # t" "k @ [QUOTE]"]
  by (auto simp: quoted_def c_strstr.simps(2) [of QUOTE "s @ QUOTE # t"])

lemma strstr_last:
  assumes "QUOTE \<notin> set s" "QUOTE \<notin> set k"
  shows "c_strstr (QUOTE # s) (quoted k) = None"
proof -
  have "\<not> has_prefix (k @ [QUOTE]) s"
    using assms by (auto simp: has_prefix_iff)
  then show ?thesis using strstr_no_quote [OF assms(1)] by (simp add: quoted_def c_strstr.simps(2))
qed

lemma int_string_no_quote: "QUOTE \<notin> set (int_string i)"
  using int_string_no_special [of QUOTE i] by blast

text \<open>The text from the value of \<open>k\<close> on.\<close>

fun doc_at :: "jdoc \<Rightarrow> string \<Rightarrow> string option" where
  "doc_at [] k = None"
| "doc_at ((k', v) # r) k =
     (if k' = k then Some (jval_text v @ (if r = [] then ''}'' else '', '' @ doc_text r)) else doc_at r k)"

lemma strstr_doc:
  assumes "key_ok k" "doc_ok keys doc" "k \<in> keys" "doc \<noteq> []"
  shows "c_strstr (doc_text doc) (quoted k) =
    map_option (\<lambda>t. quoted k @ '': '' @ t) (doc_at doc k)"
  using assms(2,4)
proof (induction doc)
  case (Cons kv r)
  obtain k' v where kv: "kv = (k', v)" by (cases kv)
  have k: "QUOTE \<notin> set k" "k \<noteq> []" "hd k \<noteq> CHR '':''" "hd k \<noteq> CHR '',''"
    using assms(1) by (auto simp: key_ok_def plain_text_def)
  have k': "QUOTE \<notin> set k'" and v: "jval_ok v" "\<And>s. v = JStr s \<Longrightarrow> s \<noteq> k"
    using Cons.prems(1) assms(3) by (auto simp: doc_ok_def kv plain_text_def)
  let ?rest = "'': '' @ jval_text v @ (if r = [] then ''}'' else '', '' @ doc_text r)"
  have here: "c_strstr (doc_text (kv # r)) (quoted k) =
      (if k' = k then Some (quoted k @ ?rest) else c_strstr (QUOTE # ?rest) (quoted k))"
    using strstr_segment [OF k' k(1), of ?rest] by (auto simp: kv quoted_def)
  show ?case
  proof (cases "k' = k")
    case True
    with here show ?thesis by (simp add: kv)
  next
    case False
    have sep: "CHR '':'' # s \<noteq> k" "CHR '','' # s \<noteq> k" for s using k by auto
    have "c_strstr (QUOTE # ?rest) (quoted k) = (if r = [] then None else c_strstr (doc_text r) (quoted k))"
    proof (cases v)
      case (JInt i)
      note q = int_string_no_quote [of i]
      show ?thesis
      proof (cases r)
        case Nil
        then show ?thesis using strstr_last [OF _ k(1), of "'': '' @ int_string i @ ''}''"] q JInt by simp
      next
        case (Cons m ms)
        obtain km vm where m: "m = (km, vm)" by (cases m)
        obtain t where t: "doc_text r = QUOTE # t" using Cons m by (auto simp: quoted_def)
        show ?thesis
          using strstr_segment [OF _ k(1), of "'': '' @ int_string i @ '', ''" t] sep(1) q JInt Cons t by simp
      qed
    next
      case (JStr s)
      then have s: "QUOTE \<notin> set s" "s \<noteq> k" using v by (auto simp: jval_ok_def plain_text_def)
      let ?x = "if r = [] then ''}'' else '', '' @ doc_text r"
      have "c_strstr (QUOTE # ?rest) (quoted k) = c_strstr (QUOTE # s @ QUOTE # ?x) (quoted k)"
        using strstr_segment [OF _ k(1), of "'': ''" "s @ QUOTE # ?x"] sep(1) JStr by (simp add: quoted_def)
      also have "\<dots> = c_strstr (QUOTE # ?x) (quoted k)"
        using strstr_segment [OF s(1) k(1), of ?x] s(2) by simp
      finally have *: "c_strstr (QUOTE # ?rest) (quoted k) = c_strstr (QUOTE # ?x) (quoted k)" .
      show ?thesis
      proof (cases r)
        case Nil
        then show ?thesis using * strstr_last [OF _ k(1), of "''}''"] by simp
      next
        case (Cons m ms)
        obtain km vm where m: "m = (km, vm)" by (cases m)
        obtain t where t: "doc_text r = QUOTE # t" using Cons m by (auto simp: quoted_def)
        show ?thesis
          using * strstr_segment [OF _ k(1), of "'', ''" t] sep(2) Cons t by simp
      qed
    qed
    moreover have "doc_ok keys r" using Cons.prems(1) by (simp add: doc_ok_def kv)
    ultimately show ?thesis using here False Cons.IH by (cases "r = []") (simp_all add: kv)
  qed
qed simp

lemma doc_at_value:
  "case map_of doc k of
     None \<Rightarrow> doc_at doc k = None
   | Some v \<Rightarrow> \<exists>c t. doc_at doc k = Some (jval_text v @ c # t) \<and> (c = CHR ''}'' \<or> c = CHR '','')"
  by (induction doc k rule: doc_at.induct) (auto split: option.splits)

lemma jval_text_start: "\<exists>c t. jval_text v = c # t \<and> \<not> c_isspace c"
proof (cases v)
  case (JStr s)
  then show ?thesis by (simp add: quoted_def c_isspace_def)
next
  case (JInt i)
  obtain d ds where d: "dec_string (nat i) = d # ds" by (cases "dec_string (nat i)") auto
  then have "c_isdigit d" using dec_string_digits [of "nat i"] by simp
  then show ?thesis
    using JInt d digit_not_special [of d] by (auto simp: int_string_def c_isspace_def)
qed

text \<open>The scanning finds the value of a key of the document, or nothing when the document has no such
  key.\<close>

lemma find_key_doc:
  assumes "key_ok k" "doc_ok keys doc" "k \<in> keys" "length k + 2 < psize"
  shows "case map_of doc k of
     None \<Rightarrow> json_find_key psize (json_text doc) k = None
   | Some v \<Rightarrow> \<exists>c t. json_find_key psize (json_text doc) k = Some (jval_text v @ c # t) \<and>
       (c = CHR ''}'' \<or> c = CHR '','')"
proof -
  have pat: "snprintf_str psize (quoted k) = quoted k"
    using assms(4) by (intro snprintf_str_id) (simp add: quoted_def)
  have "c_strstr (json_text doc) (quoted k) = c_strstr (doc_text doc) (quoted k)"
    using strstr_skip [of "''{''" "doc_text doc" "k @ [QUOTE]"] by (simp add: json_text_def quoted_def)
  also have "\<dots> = map_option (\<lambda>t. quoted k @ '': '' @ t) (doc_at doc k)"
  proof (cases "doc = []")
    case True
    then show ?thesis using strstr_no_quote [of "''}''" "k @ [QUOTE]"] by (simp add: quoted_def)
  qed (rule strstr_doc [OF assms(1-3)])
  finally have str: "c_strstr (json_text doc) (quoted k) = map_option (\<lambda>t. quoted k @ '': '' @ t) (doc_at doc k)" .
  have val: "json_find_key psize (json_text doc) k = Some (c # t)" if "doc_at doc k = Some (c # t)" "\<not> c_isspace c" for c t
    using that by (simp add: json_find_key_def pat str Let_def c_strchr_def skip_ws_def c_isspace_def)
  show ?thesis
  proof (cases "map_of doc k")
    case None
    then show ?thesis using doc_at_value [of doc k] by (simp add: json_find_key_def pat str)
  next
    case (Some v)
    then obtain c t where "doc_at doc k = Some (jval_text v @ c # t)" "c = CHR ''}'' \<or> c = CHR '',''"
      using doc_at_value [of doc k] by auto
    with Some val jval_text_start [of v] show ?thesis by auto
  qed
qed

text \<open>The value that a reader of the document sees in a string field and in a number field.\<close>

definition doc_string :: "jdoc \<Rightarrow> string \<Rightarrow> string option" where
  "doc_string doc k = (case map_of doc k of Some (JStr s) \<Rightarrow> Some s | _ \<Rightarrow> None)"

definition doc_int :: "jdoc \<Rightarrow> string \<Rightarrow> int option" where
  "doc_int doc k = (case map_of doc k of Some (JInt i) \<Rightarrow> Some i | _ \<Rightarrow> None)"

lemma copy_quoted_value:
  assumes "plain_text s" "out \<noteq> []"
  shows "copy_quoted (s @ QUOTE # t) out =
    (if length s < length out then (0, s @ NUL # drop (Suc (length s)) out)
     else (- 1, take (length out - 1) s @ drop (length out - 1) out))"
proof -
  have tw: "takeWhile (\<lambda>c. c \<noteq> QUOTE) (s @ QUOTE # t) = s"
    using assms(1) by (simp add: plain_text_def takeWhile_tail) (metis takeWhile_eq_all_conv)
  show ?thesis
  proof (cases "length s < length out")
    case True
    then show ?thesis
      by (simp add: copy_quoted_def tw list_update_append Let_def min_def)
        (metis Cons_nth_drop_Suc list_update_code(2))
  next
    case False
    with assms(2) have lt: "length out - 1 < length s" by (cases out) auto
    then have "s ! (length out - 1) \<in> set s" by (rule nth_mem)
    then have "(s @ QUOTE # t) ! (length out - 1) \<noteq> QUOTE"
      using assms(1) lt by (metis nth_append plain_text_def)
    with False lt show ?thesis by (simp add: copy_quoted_def tw Let_def min_def)
  qed
qed

end
