(* ===== verification/HubConfig.thy ===== *)
theory HubConfig
  imports JsonText
begin

text \<open>
  The hub's configuration, \<open>src/core/hub_config.c\<close>: defaults, the file read at start-up, and its
  normalisation. Each text field is the character array of its declared size. The steps of reading
  the file may each fail; what they deliver is a parameter.
\<close>

section \<open>The configuration and its defaults\<close>

record hub_config =
  mqtt_host :: "char list"
  mqtt_port :: int
  mqtt_client_id :: "char list"
  mqtt_username :: "char list"
  mqtt_password :: "char list"
  mqtt_topic_up :: "char list"
  mqtt_topic_down :: "char list"
  mqtt_topic_resp :: "char list"
  mqtt_qos_report :: int
  mqtt_qos_control :: int
  mqtt_qos_response :: int
  mqtt_keepalive_sec :: int
  mqtt_reconnect_sec :: int
  report_interval_sec :: int
  led_dev :: "char list"
  dht11_dev :: "char list"
  video_dev :: "char list"
  video_width :: int
  video_height :: int
  video_fps :: int
  pool_block_count :: int
  pool_block_size :: int
  media_default_file :: "char list"

text \<open>A zeroed array of \<open>n\<close> characters with a text printed into it.\<close>

definition text_field :: "nat \<Rightarrow> string \<Rightarrow> char list" where
  "text_field n s = snprintf_buf (replicate n NUL) s"

definition hub_config_set_defaults :: hub_config where
  "hub_config_set_defaults =
     \<lparr>mqtt_host = text_field 128 ''127.0.0.1'', mqtt_port = 1883,
      mqtt_client_id = text_field 128 ''smart_home_hub'',
      mqtt_username = replicate 128 NUL, mqtt_password = replicate 128 NUL,
      mqtt_topic_up = text_field 128 ''/iot/up'', mqtt_topic_down = text_field 128 ''/iot/down'',
      mqtt_topic_resp = text_field 128 ''/iot/resp'',
      mqtt_qos_report = 0, mqtt_qos_control = 1, mqtt_qos_response = 1,
      mqtt_keepalive_sec = 20, mqtt_reconnect_sec = 5, report_interval_sec = 5,
      led_dev = text_field 64 ''/dev/hub_led'', dht11_dev = text_field 64 ''/dev/mydht11'',
      video_dev = text_field 64 ''/dev/video0'',
      video_width = 640, video_height = 480, video_fps = 30,
      pool_block_count = 4, pool_block_size = 1920 * 1080 * 2,
      media_default_file = text_field 256 ''/root/media/test.wav''\<rparr>"

section \<open>Loading\<close>

text \<open>The getters ignore their result and leave the field as \<open>json_get_string\<close> left it.\<close>

abbreviation get_string :: "string \<Rightarrow> string \<Rightarrow> char list \<Rightarrow> char list" where
  "get_string json key out \<equiv> snd (json_get_string 96 json key out)"

abbreviation get_int :: "string \<Rightarrow> string \<Rightarrow> int \<Rightarrow> int" where
  "get_int json key out \<equiv> snd (json_get_int 96 json key out)"

definition read_fields :: "string \<Rightarrow> hub_config \<Rightarrow> hub_config" where
  "read_fields buf cfg =
     \<lparr>mqtt_host = get_string buf ''mqtt_host'' (mqtt_host cfg),
      mqtt_port = get_int buf ''mqtt_port'' (mqtt_port cfg),
      mqtt_client_id = get_string buf ''mqtt_client_id'' (mqtt_client_id cfg),
      mqtt_username = get_string buf ''mqtt_username'' (mqtt_username cfg),
      mqtt_password = get_string buf ''mqtt_password'' (mqtt_password cfg),
      mqtt_topic_up = get_string buf ''mqtt_topic_up'' (mqtt_topic_up cfg),
      mqtt_topic_down = get_string buf ''mqtt_topic_down'' (mqtt_topic_down cfg),
      mqtt_topic_resp = get_string buf ''mqtt_topic_resp'' (mqtt_topic_resp cfg),
      mqtt_qos_report = get_int buf ''mqtt_qos_report'' (mqtt_qos_report cfg),
      mqtt_qos_control = get_int buf ''mqtt_qos_control'' (mqtt_qos_control cfg),
      mqtt_qos_response = get_int buf ''mqtt_qos_response'' (mqtt_qos_response cfg),
      mqtt_keepalive_sec = get_int buf ''mqtt_keepalive_sec'' (mqtt_keepalive_sec cfg),
      mqtt_reconnect_sec = get_int buf ''mqtt_reconnect_sec'' (mqtt_reconnect_sec cfg),
      report_interval_sec = get_int buf ''report_interval_sec'' (report_interval_sec cfg),
      led_dev = get_string buf ''led_dev'' (led_dev cfg),
      dht11_dev = get_string buf ''dht11_dev'' (dht11_dev cfg),
      video_dev = get_string buf ''video_dev'' (video_dev cfg),
      video_width = get_int buf ''video_width'' (video_width cfg),
      video_height = get_int buf ''video_height'' (video_height cfg),
      video_fps = get_int buf ''video_fps'' (video_fps cfg),
      pool_block_count = get_int buf ''pool_block_count'' (pool_block_count cfg),
      pool_block_size = get_int buf ''pool_block_size'' (pool_block_size cfg),
      media_default_file = get_string buf ''media_default_file'' (media_default_file cfg)\<rparr>"

definition normalise :: "hub_config \<Rightarrow> hub_config" where
  "normalise cfg = cfg\<lparr>
     pool_block_size := (if pool_block_size cfg \<le> 0 then 1920 * 1080 * 2 else pool_block_size cfg),
     pool_block_count := (if pool_block_count cfg \<le> 0 then 4 else pool_block_count cfg),
     mqtt_qos_report := (if mqtt_qos_report cfg < 0 \<or> mqtt_qos_report cfg > 2 then 0 else mqtt_qos_report cfg),
     mqtt_qos_control := (if mqtt_qos_control cfg < 0 \<or> mqtt_qos_control cfg > 2 then 1 else mqtt_qos_control cfg),
     mqtt_qos_response := (if mqtt_qos_response cfg < 0 \<or> mqtt_qos_response cfg > 2 then 1 else mqtt_qos_response cfg)\<rparr>"

text \<open>The file as the load sees it: the size \<open>ftell\<close> reports and the bytes \<open>fread\<close> delivers.\<close>

record config_file =
  cf_seek_end :: bool
  cf_size :: int
  cf_seek_set :: bool
  cf_malloc :: bool
  cf_read :: "char list"

definition hub_config_load :: "config_file ptr \<Rightarrow> hub_config ptr \<Rightarrow> int \<times> hub_config ptr" where
  "hub_config_load file cfgp =
     (case cfgp of
        None \<Rightarrow> (- 1, NULL)
      | Some _ \<Rightarrow>
          let cfg = hub_config_set_defaults
          in (case file of
                None \<Rightarrow> (0, Some cfg)
              | Some f \<Rightarrow>
                  if \<not> cf_seek_end f \<or> cf_size f \<le> 0 \<or> \<not> cf_seek_set f \<or> \<not> cf_malloc f \<or>
                     int (length (cf_read f)) \<noteq> cf_size f
                  then (- 1, Some cfg)
                  else (0, Some (normalise (read_fields (takeWhile (\<lambda>c. c \<noteq> NUL) (cf_read f)) cfg)))))"

section \<open>The fields keep their arrays and their NUL\<close>

text \<open>An array of \<open>n\<close> characters whose last is NUL.\<close>

definition field_ok :: "nat \<Rightarrow> char list \<Rightarrow> bool" where
  "field_ok n buf \<longleftrightarrow> length buf = n \<and> buf \<noteq> [] \<and> last buf = NUL"

lemma text_field_ok: "0 < n \<Longrightarrow> NUL \<notin> set s \<Longrightarrow> length s < n \<Longrightarrow> field_ok n (text_field n s) \<and> c_string (text_field n s) = Some s"
  using c_string_snprintf_buf [of s "replicate n NUL"] length_snprintf_buf [of "replicate n NUL" s]
  by (auto simp: field_ok_def text_field_def snprintf_str_id snprintf_buf_def Let_def last_append)

lemma field_ok_empty: "0 < n \<Longrightarrow> field_ok n (replicate n NUL) \<and> c_string (replicate n NUL) = Some []"
  by (auto simp: field_ok_def c_string_def takeWhile_eq_Nil_iff hd_replicate)

lemma takeWhile_shorter: "x \<in> set xs \<Longrightarrow> \<not> P x \<Longrightarrow> length (takeWhile P xs) < length xs"
  by (induction xs) auto

lemma field_ok_string: "field_ok n buf \<Longrightarrow> \<exists>s. c_string buf = Some s \<and> length s < n"
  using takeWhile_shorter [of NUL buf "\<lambda>c. c \<noteq> NUL"] last_in_set [of buf]
  by (auto simp: field_ok_def c_string_def)

lemma field_ok_prefix:
  assumes "field_ok n out" "length s < length out"
  shows "field_ok n (s @ drop (length s) out)" "field_ok n ((s @ drop (length s) out)[length s := NUL])"
proof -
  have "drop (length s) out \<noteq> []" "last (drop (length s) out) = NUL"
    using assms by (auto simp: field_ok_def)
  then show 1: "field_ok n (s @ drop (length s) out)" using assms by (auto simp: field_ok_def)
  then show "field_ok n ((s @ drop (length s) out)[length s := NUL])"
    by (auto simp: field_ok_def last_list_update simp del: drop_eq_Nil)
qed

lemma copy_quoted_ok:
  assumes "field_ok n out"
  shows "field_ok n (snd (copy_quoted p out))"
proof -
  have "length (take (length out - 1) (takeWhile (\<lambda>c. c \<noteq> QUOTE) p)) < length out"
    using assms by (cases out) (auto simp: field_ok_def)
  from field_ok_prefix [OF assms this] show ?thesis by (simp add: copy_quoted_def Let_def del: length_take)
qed

lemma get_string_ok: "field_ok n out \<Longrightarrow> field_ok n (snd (json_get_string psize json key out))"
  by (auto simp: json_get_string_def copy_quoted_ok split: option.split list.split)


lemma normalise_simps:
  "mqtt_host (normalise cfg) = mqtt_host cfg"
  "mqtt_client_id (normalise cfg) = mqtt_client_id cfg"
  "mqtt_username (normalise cfg) = mqtt_username cfg"
  "mqtt_password (normalise cfg) = mqtt_password cfg"
  "mqtt_topic_up (normalise cfg) = mqtt_topic_up cfg"
  "mqtt_topic_down (normalise cfg) = mqtt_topic_down cfg"
  "mqtt_topic_resp (normalise cfg) = mqtt_topic_resp cfg"
  "led_dev (normalise cfg) = led_dev cfg"
  "dht11_dev (normalise cfg) = dht11_dev cfg"
  "video_dev (normalise cfg) = video_dev cfg"
  "media_default_file (normalise cfg) = media_default_file cfg"
  "mqtt_port (normalise cfg) = mqtt_port cfg"
  "mqtt_keepalive_sec (normalise cfg) = mqtt_keepalive_sec cfg"
  "mqtt_reconnect_sec (normalise cfg) = mqtt_reconnect_sec cfg"
  "report_interval_sec (normalise cfg) = report_interval_sec cfg"
  "video_width (normalise cfg) = video_width cfg"
  "video_height (normalise cfg) = video_height cfg"
  "video_fps (normalise cfg) = video_fps cfg"
  "pool_block_size (normalise cfg) = (if pool_block_size cfg \<le> 0 then 1920 * 1080 * 2 else pool_block_size cfg)"
  "pool_block_count (normalise cfg) = (if pool_block_count cfg \<le> 0 then 4 else pool_block_count cfg)"
  "mqtt_qos_report (normalise cfg) = (if mqtt_qos_report cfg < 0 \<or> mqtt_qos_report cfg > 2 then 0 else mqtt_qos_report cfg)"
  "mqtt_qos_control (normalise cfg) = (if mqtt_qos_control cfg < 0 \<or> mqtt_qos_control cfg > 2 then 1 else mqtt_qos_control cfg)"
  "mqtt_qos_response (normalise cfg) = (if mqtt_qos_response cfg < 0 \<or> mqtt_qos_response cfg > 2 then 1 else mqtt_qos_response cfg)"
  by (simp_all add: normalise_def)

lemma read_fields_simps:
  "mqtt_host (read_fields buf cfg) = get_string buf ''mqtt_host'' (mqtt_host cfg)"
  "mqtt_client_id (read_fields buf cfg) = get_string buf ''mqtt_client_id'' (mqtt_client_id cfg)"
  "mqtt_username (read_fields buf cfg) = get_string buf ''mqtt_username'' (mqtt_username cfg)"
  "mqtt_password (read_fields buf cfg) = get_string buf ''mqtt_password'' (mqtt_password cfg)"
  "mqtt_topic_up (read_fields buf cfg) = get_string buf ''mqtt_topic_up'' (mqtt_topic_up cfg)"
  "mqtt_topic_down (read_fields buf cfg) = get_string buf ''mqtt_topic_down'' (mqtt_topic_down cfg)"
  "mqtt_topic_resp (read_fields buf cfg) = get_string buf ''mqtt_topic_resp'' (mqtt_topic_resp cfg)"
  "led_dev (read_fields buf cfg) = get_string buf ''led_dev'' (led_dev cfg)"
  "dht11_dev (read_fields buf cfg) = get_string buf ''dht11_dev'' (dht11_dev cfg)"
  "video_dev (read_fields buf cfg) = get_string buf ''video_dev'' (video_dev cfg)"
  "media_default_file (read_fields buf cfg) = get_string buf ''media_default_file'' (media_default_file cfg)"
  "mqtt_port (read_fields buf cfg) = get_int buf ''mqtt_port'' (mqtt_port cfg)"
  "mqtt_keepalive_sec (read_fields buf cfg) = get_int buf ''mqtt_keepalive_sec'' (mqtt_keepalive_sec cfg)"
  "mqtt_reconnect_sec (read_fields buf cfg) = get_int buf ''mqtt_reconnect_sec'' (mqtt_reconnect_sec cfg)"
  "report_interval_sec (read_fields buf cfg) = get_int buf ''report_interval_sec'' (report_interval_sec cfg)"
  "video_width (read_fields buf cfg) = get_int buf ''video_width'' (video_width cfg)"
  "video_height (read_fields buf cfg) = get_int buf ''video_height'' (video_height cfg)"
  "video_fps (read_fields buf cfg) = get_int buf ''video_fps'' (video_fps cfg)"
  "mqtt_qos_report (read_fields buf cfg) = get_int buf ''mqtt_qos_report'' (mqtt_qos_report cfg)"
  "mqtt_qos_control (read_fields buf cfg) = get_int buf ''mqtt_qos_control'' (mqtt_qos_control cfg)"
  "mqtt_qos_response (read_fields buf cfg) = get_int buf ''mqtt_qos_response'' (mqtt_qos_response cfg)"
  "pool_block_count (read_fields buf cfg) = get_int buf ''pool_block_count'' (pool_block_count cfg)"
  "pool_block_size (read_fields buf cfg) = get_int buf ''pool_block_size'' (pool_block_size cfg)"
  by (simp_all add: read_fields_def)

lemmas config_simps = normalise_simps read_fields_simps

section \<open>Every configuration is usable\<close>

definition config_wf :: "hub_config \<Rightarrow> bool" where
  "config_wf cfg \<longleftrightarrow>
     (field_ok 128 (mqtt_host cfg) \<and> field_ok 128 (mqtt_client_id cfg) \<and> field_ok 128 (mqtt_username cfg) \<and>
      field_ok 128 (mqtt_password cfg) \<and> field_ok 128 (mqtt_topic_up cfg) \<and> field_ok 128 (mqtt_topic_down cfg) \<and>
      field_ok 128 (mqtt_topic_resp cfg) \<and> field_ok 64 (led_dev cfg) \<and> field_ok 64 (dht11_dev cfg) \<and>
      field_ok 64 (video_dev cfg) \<and> field_ok 256 (media_default_file cfg)) \<and>
     mqtt_qos_report cfg \<in> {0..2} \<and> mqtt_qos_control cfg \<in> {0..2} \<and> mqtt_qos_response cfg \<in> {0..2} \<and>
     0 < pool_block_size cfg \<and> 0 < pool_block_count cfg"

lemmas default_fields = text_field_ok [THEN conjunct1] field_ok_empty [THEN conjunct1]

lemma NUL_plain [simp]: "(NUL = c) = (c = CHR 0x00)"
  by (auto simp: NUL_def)

lemma defaults_wf: "config_wf hub_config_set_defaults"
  unfolding config_wf_def hub_config_set_defaults_def
  by (simp add: default_fields)


section \<open>A configuration file is read back\<close>

lemma map_of_jval_ok: "doc_ok keys doc \<Longrightarrow> map_of doc k = Some v \<Longrightarrow> jval_ok v"
  by (drule map_of_SomeD) (auto simp: doc_ok_def list_all_iff)

lemma c_string_cut:
  assumes "plain_text s" "field_ok n out"
  shows "c_string (snd (copy_quoted (s @ QUOTE # t) out)) = Some (take (n - 1) s)"
proof -
  have n: "length out = n" "out \<noteq> []" using assms(2) by (simp_all add: field_ok_def)
  have nul: "NUL \<notin> set (take k s)" for k using assms(1) by (auto simp: plain_text_def dest: in_set_takeD)
  show ?thesis
  proof (cases "length s < length out")
    case True
    then have "take (n - 1) s = s" using n by simp
    with True show ?thesis using c_string_append [OF nul [of "length s"]] by (simp add: copy_quoted_value [OF assms(1) n(2)])
  next
    case False
    have "drop (length out - 1) out = [NUL]"
      using assms(2) by (metis append_butlast_last_id append_eq_conv_conj diff_less field_ok_def length_butlast)
    with False show ?thesis
      using c_string_append [OF nul [of "n - 1"], of "[]"] n by (simp add: copy_quoted_value [OF assms(1) n(2)])
  qed
qed

text \<open>The specification of a text field: the document's string or the default, cut to the array.\<close>

definition string_of :: "jdoc \<Rightarrow> string \<Rightarrow> nat \<Rightarrow> string \<Rightarrow> string" where
  "string_of doc k n d = (case doc_string doc k of None \<Rightarrow> d | Some s \<Rightarrow> take (n - 1) s)"

definition int_of :: "jdoc \<Rightarrow> string \<Rightarrow> int \<Rightarrow> int" where
  "int_of doc k d = (case doc_int doc k of None \<Rightarrow> d | Some i \<Rightarrow> i)"

lemma get_string_doc:
  assumes "key_ok k" "doc_ok keys doc" "k \<in> keys" "length k + 2 < psize" "field_ok n out" "c_string out = Some d"
  shows "c_string (snd (json_get_string psize (json_text doc) k out)) = Some (string_of doc k n d)"
proof (cases "map_of doc k")
  case None
  then show ?thesis
    using find_key_doc [OF assms(1-4)] assms(6) by (simp add: json_get_string_def string_of_def doc_string_def)
next
  case (Some v)
  then obtain c t where f: "json_find_key psize (json_text doc) k = Some (jval_text v @ c # t)"
    using find_key_doc [OF assms(1-4)] by auto
  show ?thesis
  proof (cases v)
    case (JStr s)
    then have "plain_text s" using map_of_jval_ok [OF assms(2) Some] by (simp add: jval_ok_def)
    from c_string_cut [OF this assms(5), of "c # t"] f JStr Some show ?thesis
      by (simp add: json_get_string_def quoted_def string_of_def doc_string_def)
  next
    case (JInt i)
    obtain d' ds where d: "int_string i = d' # ds" using jval_text_start [of "JInt i"] by auto
    then have "d' \<noteq> QUOTE" using int_string_no_quote [of i] by auto
    with f JInt Some d assms(6) show ?thesis
      by (simp add: json_get_string_def string_of_def doc_string_def)
  qed
qed

lemma strtol_quote: "c_strtol (QUOTE # s) = (0, QUOTE # s)"
  by (simp add: c_strtol_def c_isspace_def c_isdigit_def Let_def)

lemma scan_int_value:
  assumes "jval_ok (JInt i)" "\<not> c_isdigit c"
  shows "scan_int (int_string i @ c # t) out = (0, i)"
proof -
  have i: "- (2 ^ 31) \<le> i" "i < 2 ^ 31" using assms by (auto simp: jval_ok_def)
  obtain d ds where d: "int_string i = d # ds" using jval_text_start [of "JInt i"] by auto
  have "c_strtol (int_string i @ c # t) = (i, c # t)"
    using i assms(2) by (intro strtol_int_string) (simp_all add: LONG_MAX_def)
  moreover have "c # t \<noteq> int_string i @ c # t" using d by simp
  ultimately show ?thesis using c_int_id [OF i] by (simp add: scan_int_def)
qed

lemma get_int_doc:
  assumes "key_ok k" "doc_ok keys doc" "k \<in> keys" "length k + 2 < psize"
  shows "snd (json_get_int psize (json_text doc) k out) = int_of doc k out"
proof (cases "map_of doc k")
  case None
  then show ?thesis
    using find_key_doc [OF assms] by (simp add: json_get_int_def int_of_def doc_int_def)
next
  case (Some v)
  then obtain c t where f: "json_find_key psize (json_text doc) k = Some (jval_text v @ c # t)"
    and c: "c = CHR ''}'' \<or> c = CHR '',''"
    using find_key_doc [OF assms] by auto
  show ?thesis
  proof (cases v)
    case (JStr s)
    with f Some show ?thesis
      by (simp add: json_get_int_def quoted_def int_of_def doc_int_def scan_int_def strtol_quote)
  next
    case (JInt i)
    have "\<not> c_isdigit c" using c by (auto simp: c_isdigit_def)
    with f JInt Some scan_int_value [of i c t out] map_of_jval_ok [OF assms(2) Some] show ?thesis
      by (simp add: json_get_int_def int_of_def doc_int_def)
  qed
qed


definition config_keys :: "string set" where
  "config_keys =
     {''mqtt_host'', ''mqtt_client_id'', ''mqtt_username'', ''mqtt_password'', ''mqtt_topic_up'',
      ''mqtt_topic_down'', ''mqtt_topic_resp'', ''led_dev'', ''dht11_dev'', ''video_dev'',
      ''media_default_file'', ''mqtt_port'', ''mqtt_keepalive_sec'', ''mqtt_reconnect_sec'',
      ''report_interval_sec'', ''video_width'', ''video_height'', ''video_fps'', ''mqtt_qos_report'',
      ''mqtt_qos_control'', ''mqtt_qos_response'', ''pool_block_count'', ''pool_block_size''}"

text \<open>A number outside its range is replaced by the default.\<close>

definition clamp_to :: "int \<Rightarrow> int \<Rightarrow> int \<Rightarrow> int \<Rightarrow> int" where
  "clamp_to lo hi d v = (if lo \<le> v \<and> v \<le> hi then v else d)"

text \<open>The specification: what a configuration is after reading a document.\<close>

definition config_reads :: "jdoc \<Rightarrow> hub_config \<Rightarrow> bool" where
  "config_reads doc cfg \<longleftrightarrow>
     c_string (mqtt_host cfg) = Some (string_of doc ''mqtt_host'' 128 ''127.0.0.1'') \<and>
     c_string (mqtt_client_id cfg) = Some (string_of doc ''mqtt_client_id'' 128 ''smart_home_hub'') \<and>
     c_string (mqtt_username cfg) = Some (string_of doc ''mqtt_username'' 128 []) \<and>
     c_string (mqtt_password cfg) = Some (string_of doc ''mqtt_password'' 128 []) \<and>
     c_string (mqtt_topic_up cfg) = Some (string_of doc ''mqtt_topic_up'' 128 ''/iot/up'') \<and>
     c_string (mqtt_topic_down cfg) = Some (string_of doc ''mqtt_topic_down'' 128 ''/iot/down'') \<and>
     c_string (mqtt_topic_resp cfg) = Some (string_of doc ''mqtt_topic_resp'' 128 ''/iot/resp'') \<and>
     c_string (led_dev cfg) = Some (string_of doc ''led_dev'' 64 ''/dev/hub_led'') \<and>
     c_string (dht11_dev cfg) = Some (string_of doc ''dht11_dev'' 64 ''/dev/mydht11'') \<and>
     c_string (video_dev cfg) = Some (string_of doc ''video_dev'' 64 ''/dev/video0'') \<and>
     c_string (media_default_file cfg) = Some (string_of doc ''media_default_file'' 256 ''/root/media/test.wav'') \<and>
     mqtt_port cfg = int_of doc ''mqtt_port'' 1883 \<and>
     mqtt_keepalive_sec cfg = int_of doc ''mqtt_keepalive_sec'' 20 \<and>
     mqtt_reconnect_sec cfg = int_of doc ''mqtt_reconnect_sec'' 5 \<and>
     report_interval_sec cfg = int_of doc ''report_interval_sec'' 5 \<and>
     video_width cfg = int_of doc ''video_width'' 640 \<and>
     video_height cfg = int_of doc ''video_height'' 480 \<and>
     video_fps cfg = int_of doc ''video_fps'' 30 \<and>
     mqtt_qos_report cfg = clamp_to 0 2 0 (int_of doc ''mqtt_qos_report'' 0) \<and>
     mqtt_qos_control cfg = clamp_to 0 2 1 (int_of doc ''mqtt_qos_control'' 1) \<and>
     mqtt_qos_response cfg = clamp_to 0 2 1 (int_of doc ''mqtt_qos_response'' 1) \<and>
     pool_block_count cfg = clamp_to 1 (2 ^ 31 - 1) 4 (int_of doc ''pool_block_count'' 4) \<and>
     pool_block_size cfg = clamp_to 1 (2 ^ 31 - 1) (1920 * 1080 * 2) (int_of doc ''pool_block_size'' (1920 * 1080 * 2))"

lemma config_keys_ok: "k \<in> config_keys \<Longrightarrow> key_ok k \<and> length k + 2 < 96"
  unfolding config_keys_def by (elim insertE) (simp_all add: key_ok_def plain_text_def)

lemma int_of_less: "doc_ok keys doc \<Longrightarrow> d < 2 ^ 31 \<Longrightarrow> int_of doc k d \<le> 2 ^ 31 - 1"
  using map_of_jval_ok [of keys doc k]
  by (force simp: int_of_def doc_int_def jval_ok_def split: option.split jval.split)

lemma json_text_no_NUL: "doc_ok keys doc \<Longrightarrow> NUL \<notin> set (json_text doc)"
proof -
  have "NUL \<notin> set (jval_text v)" if "jval_ok v" for v
    using that int_string_no_special by (cases v) (auto simp: jval_ok_def plain_text_def quoted_def NUL_def)
  then show "doc_ok keys doc \<Longrightarrow> NUL \<notin> set (json_text doc)"
    unfolding json_text_def
    by (induction doc) (auto simp: doc_ok_def quoted_def plain_text_def split: if_splits)
qed

definition file_of :: "string \<Rightarrow> config_file" where
  "file_of s = \<lparr>cf_seek_end = True, cf_size = int (length s), cf_seek_set = True, cf_malloc = True, cf_read = s\<rparr>"

lemma read_fields_doc:
  assumes "doc_ok config_keys doc"
  shows "config_reads doc (normalise (read_fields (json_text doc) hub_config_set_defaults))"
proof -
  have str: "c_string (get_string (json_text doc) k (text_field n s)) = Some (string_of doc k n s)"
    if "k \<in> config_keys" "0 < n" "NUL \<notin> set s" "length s < n" for k n s
    using that text_field_ok [of n s] config_keys_ok [OF that(1)]
    by (intro get_string_doc [OF _ assms]) simp_all
  have emp: "c_string (get_string (json_text doc) k (replicate n NUL)) = Some (string_of doc k n [])"
    if "k \<in> config_keys" "0 < n" for k n
    using that field_ok_empty [of n] config_keys_ok [OF that(1)]
    by (intro get_string_doc [OF _ assms]) simp_all
  have num: "get_int (json_text doc) k d = int_of doc k d" if "k \<in> config_keys" for k d
    using config_keys_ok [OF that] that by (intro get_int_doc [OF _ assms]) simp_all
  have lt: "int_of doc k d \<le> 2147483647" if "d < 2 ^ 31" for k d
    using int_of_less [OF assms that] by simp
  have keys: "''mqtt_host'' \<in> config_keys" "''mqtt_client_id'' \<in> config_keys" "''mqtt_username'' \<in> config_keys" "''mqtt_password'' \<in> config_keys" "''mqtt_topic_up'' \<in> config_keys" "''mqtt_topic_down'' \<in> config_keys" "''mqtt_topic_resp'' \<in> config_keys" "''led_dev'' \<in> config_keys" "''dht11_dev'' \<in> config_keys" "''video_dev'' \<in> config_keys" "''media_default_file'' \<in> config_keys" "''mqtt_port'' \<in> config_keys"
    "''mqtt_keepalive_sec'' \<in> config_keys" "''mqtt_reconnect_sec'' \<in> config_keys" "''report_interval_sec'' \<in> config_keys" "''video_width'' \<in> config_keys" "''video_height'' \<in> config_keys" "''video_fps'' \<in> config_keys" "''mqtt_qos_report'' \<in> config_keys" "''mqtt_qos_control'' \<in> config_keys" "''mqtt_qos_response'' \<in> config_keys" "''pool_block_count'' \<in> config_keys" "''pool_block_size'' \<in> config_keys"
    unfolding config_keys_def by simp_all
  show ?thesis
    unfolding config_reads_def config_simps
    unfolding hub_config_set_defaults_def
    by (simp add: str emp num keys clamp_to_def lt)
qed

text \<open>C30. A configuration written as a flat JSON object is read back: for any keys and values in any
  order, as long as no text value is itself the name of a setting, every setting has the value of
  its key, cut to its array, and a setting the file does not have keeps its default.\<close>

theorem config_load_reads_document:
  assumes "doc_ok config_keys doc"
  shows "\<exists>cfg. hub_config_load (Some (file_of (json_text doc))) (Some cfg0) = (0, Some cfg) \<and> config_reads doc cfg"
proof -
  have "takeWhile (\<lambda>c. c \<noteq> NUL) (json_text doc) = json_text doc"
    unfolding takeWhile_eq_all_conv using json_text_no_NUL [OF assms] by blast
  moreover have "json_text doc \<noteq> []" by (simp add: json_text_def)
  ultimately have "hub_config_load (Some (file_of (json_text doc))) (Some cfg0) =
      (0, Some (normalise (read_fields (json_text doc) hub_config_set_defaults)))"
    by (simp add: hub_config_load_def file_of_def Let_def del: takeWhile_eq_all_conv)
  with read_fields_doc [OF assms] show ?thesis by blast
qed

definition demo_doc :: jdoc where
  "demo_doc = [(''mqtt_host'', JStr ''192.168.5.10''), (''mqtt_port'', JInt 1884), (''pool_block_count'', JInt (- 3)),
               (''led_dev'', JStr ''/dev/led0'')]"

theorem config_load_reads_document_witness:
  "\<exists>cfg. hub_config_load (Some (file_of (json_text demo_doc))) (Some hub_config_set_defaults) = (0, Some cfg) \<and>
     c_string (mqtt_host cfg) = Some ''192.168.5.10'' \<and> mqtt_port cfg = 1884 \<and> pool_block_count cfg = 4 \<and>
     c_string (led_dev cfg) = Some ''/dev/led0'' \<and> video_fps cfg = 30"
proof -
  have "doc_ok config_keys demo_doc"
    unfolding doc_ok_def demo_doc_def config_keys_def by (simp add: plain_text_def jval_ok_def)
  from config_load_reads_document [OF this] show ?thesis
    by (auto simp: config_reads_def string_of_def doc_string_def int_of_def doc_int_def demo_doc_def clamp_to_def)
qed

end
