(* ===== verification/LedDriver.thy ===== *)
theory LedDriver
  imports Prelude
begin

text \<open>
  The LED character device, \<open>drivers/led_char_safe/hub_led_drv.c\<close>: what its load and unload take
  and give back, and the two-byte protocol of its read and write. The kernel's answers to the calls
  of the load and of the copies from and to user space are parameters; \<open>gpio\<close> is the level of the pin.
\<close>

section \<open>State\<close>

record led_module =
  lm_gpio_owned :: bool
  lm_chrdev :: bool
  lm_class :: bool
  lm_device :: bool
  lm_gpio :: int
  lm_major :: int

definition HUB_LED_MAX :: u8 where
  "HUB_LED_MAX = 1"

text \<open>What \<open>register_chrdev\<close> returns, and the errors of the other calls: 0, or the error code.\<close>

record load_env =
  lv_request :: int
  lv_direction :: int
  lv_register :: int
  lv_class :: "int ptr"
  lv_device :: bool

definition gpio_free :: "led_module \<Rightarrow> led_module" where
  "gpio_free m = m\<lparr>lm_gpio_owned := False\<rparr>"

definition unregister_chrdev :: "led_module \<Rightarrow> led_module" where
  "unregister_chrdev m = m\<lparr>lm_chrdev := False\<rparr>"

definition class_destroy :: "led_module \<Rightarrow> led_module" where
  "class_destroy m = m\<lparr>lm_class := False\<rparr>"

definition device_destroy :: "led_module \<Rightarrow> led_module" where
  "device_destroy m = m\<lparr>lm_device := False\<rparr>"

definition gpio_set_value :: "int \<Rightarrow> led_module \<Rightarrow> led_module" where
  "gpio_set_value v m = m\<lparr>lm_gpio := v\<rparr>"

section \<open>Load and unload\<close>

definition hub_led_init :: "load_env \<Rightarrow> led_module \<Rightarrow> int \<times> led_module" where
  "hub_led_init e m0 =
     (if lv_request e \<noteq> 0 then (lv_request e, m0)
      else let m1 = m0\<lparr>lm_gpio_owned := True\<rparr>
      in if lv_direction e \<noteq> 0 then (lv_direction e, gpio_free m1)
      else let m2 = m1\<lparr>lm_gpio := 1\<rparr>; m3 = m2\<lparr>lm_major := lv_register e\<rparr>
      in if lv_register e < 0 then (lv_register e, gpio_free m3)
      else let m4 = m3\<lparr>lm_chrdev := True\<rparr>
      in case lv_class e of
           Some err \<Rightarrow> (err, gpio_free (unregister_chrdev m4))
         | None \<Rightarrow>
             let m5 = m4\<lparr>lm_class := True\<rparr>
             in if \<not> lv_device e then (- ENODEV, gpio_free (unregister_chrdev (class_destroy m5)))
                else (0, m5\<lparr>lm_device := True\<rparr>))"

definition hub_led_exit :: "led_module \<Rightarrow> led_module" where
  "hub_led_exit m = gpio_free (gpio_set_value 1 (unregister_chrdev (class_destroy (device_destroy m))))"

section \<open>Read and write\<close>

definition hub_led_open :: int where
  "hub_led_open = 0"

definition hub_led_release :: int where
  "hub_led_release = 0"

text \<open>\<open>buf\<close> is the caller's buffer of \<open>size\<close> bytes; \<open>copy_in\<close> and \<open>copy_out\<close> say whether the copies succeed.\<close>

definition hub_led_write :: "bool \<Rightarrow> led_module \<Rightarrow> u8 list \<Rightarrow> int \<times> led_module" where
  "hub_led_write copy_in m buf =
     (if length buf < 2 then (- EINVAL, m)
      else if \<not> copy_in then (- EFAULT, m)
      else if buf ! 0 \<ge> HUB_LED_MAX then (- EINVAL, m)
      else (2, gpio_set_value (if buf ! 1 \<noteq> 0 then 1 else 0) m))"

definition hub_led_read :: "bool \<Rightarrow> bool \<Rightarrow> led_module \<Rightarrow> u8 list \<Rightarrow> int \<times> u8 list" where
  "hub_led_read copy_in copy_out m buf =
     (if length buf < 2 then (- EINVAL, buf)
      else if \<not> copy_in then (- EFAULT, buf)
      else if buf ! 0 \<ge> HUB_LED_MAX then (- EINVAL, buf)
      else let kbuf = [buf ! 0, if lm_gpio m \<noteq> 0 then 1 else 0]
           in if \<not> copy_out then (- EFAULT, buf) else (2, kbuf @ drop 2 buf))"

section \<open>Properties\<close>

definition unloaded :: "led_module \<Rightarrow> bool" where
  "unloaded m \<longleftrightarrow> \<not> lm_gpio_owned m \<and> \<not> lm_chrdev m \<and> \<not> lm_class m \<and> \<not> lm_device m"

definition loaded :: "led_module \<Rightarrow> bool" where
  "loaded m \<longleftrightarrow> lm_gpio_owned m \<and> lm_chrdev m \<and> lm_class m \<and> lm_device m \<and> lm_gpio m \<in> {0, 1}"

text \<open>C31. A load that fails at any of its five steps has given back every resource it took; one that
  succeeds holds them all with the LED off, and unloading gives them back and leaves the LED off.\<close>

theorem led_load_all_or_nothing:
  assumes "unloaded m" and "hub_led_init e m = (r, m')" and "\<forall>err. lv_class e = Some err \<longrightarrow> err \<noteq> 0"
  shows "if r = 0 then loaded m' \<and> lm_gpio m' = 1 \<and> unloaded (hub_led_exit m') \<and> lm_gpio (hub_led_exit m') = 1
    else unloaded m'"
  using assms
  by (auto simp: hub_led_init_def hub_led_exit_def unloaded_def loaded_def gpio_free_def unregister_chrdev_def
      class_destroy_def device_destroy_def gpio_set_value_def Let_def ENODEV_def split: if_splits option.splits)

lemma led_read_value:
  "lm_gpio m \<in> {0, 1} \<Longrightarrow> hub_led_read True True m [0, v] = (2, [0, if lm_gpio m = 0 then 0 else 1])"
  by (simp add: hub_led_read_def HUB_LED_MAX_def Let_def)

lemma led_write_value:
  "hub_led_write True m [0, v] = (2, m\<lparr>lm_gpio := if v = 0 then 0 else 1\<rparr>)"
  by (simp add: hub_led_write_def HUB_LED_MAX_def gpio_set_value_def)

theorem led_load_all_or_nothing_witness:
  "let m = \<lparr>lm_gpio_owned = False, lm_chrdev = False, lm_class = False, lm_device = False, lm_gpio = 0, lm_major = 0\<rparr>
   in unloaded (snd (hub_led_init \<lparr>lv_request = 0, lv_direction = 0, lv_register = 240, lv_class = NULL,
                                   lv_device = False\<rparr> m)) \<and>
      loaded (snd (hub_led_init \<lparr>lv_request = 0, lv_direction = 0, lv_register = 240, lv_class = NULL,
                                 lv_device = True\<rparr> m))"
proof -
  define m where "m = \<lparr>lm_gpio_owned = False, lm_chrdev = False, lm_class = False, lm_device = False,
    lm_gpio = 0, lm_major = 0\<rparr>"
  have u: "unloaded m" by (simp add: m_def unloaded_def)
  define e where "e = (\<lambda>d. \<lparr>lv_request = 0, lv_direction = 0, lv_register = 240, lv_class = NULL, lv_device = d\<rparr>)"
  have r: "fst (hub_led_init (e False) m) \<noteq> 0" "fst (hub_led_init (e True) m) = 0"
    by (simp_all add: e_def hub_led_init_def ENODEV_def Let_def)
  have "\<forall>err. lv_class (e d) = Some err \<longrightarrow> err \<noteq> 0" for d by (simp add: e_def)
  from led_load_all_or_nothing [OF u prod.collapse [symmetric] this] r
  show ?thesis unfolding Let_def m_def [symmetric] e_def [symmetric]
    by (metis (full_types) e_def)
qed

end
