(* ===== verification/DeviceHal.thy ===== *)
theory DeviceHal
  imports HubConfig LedDriver Posix "HOL-Library.Multiset"
begin

text \<open>
  The hub's device layer, \<open>src/device/device_hal.c\<close>: three devices opened on demand, with fallback
  paths, and the LED and sensor commands over them. The kernel below it is the record \<open>dev_env\<close>:
  which paths open, and what a read and a write on an open device do to the state of the devices.
  The locale \<open>led_device\<close> is the contract of an LED device; the driver of \<open>LedDriver\<close> meets it.
\<close>

section \<open>State\<close>

definition HUB_DEVICE_LED :: int where [cmodel]: "HUB_DEVICE_LED = 0"
definition HUB_DEVICE_DHT11 :: int where [cmodel]: "HUB_DEVICE_DHT11 = 1"
definition HUB_DEVICE_CAMERA :: int where [cmodel]: "HUB_DEVICE_CAMERA = 2"
definition HUB_DEVICE_COUNT :: int where [cmodel]: "HUB_DEVICE_COUNT = 3"

definition HUB_IOCTL_LED_SET :: int where "HUB_IOCTL_LED_SET = 0x1001"
definition HUB_IOCTL_LED_GET :: int where "HUB_IOCTL_LED_GET = 0x1002"
definition HUB_IOCTL_DHT11_READ :: int where "HUB_IOCTL_DHT11_READ = 0x2001"

record device_handle =
  dh_fd :: int
  dh_path :: string

type_synonym device_hal = "device_handle list"

text \<open>What the process has: its descriptors and the devices behind them.\<close>

record 'd world =
  w_fds :: fd_table
  w_dev :: 'd

text \<open>\<open>de_open path nonblock\<close>: whether \<open>open\<close> succeeds. \<open>de_read path d buf\<close>: what \<open>read\<close> of the device
  behind \<open>path\<close> into \<open>buf\<close> returns, the buffer after it, and the devices after it.\<close>

record 'd dev_env =
  de_open :: "string \<Rightarrow> bool \<Rightarrow> bool"
  de_read :: "string \<Rightarrow> 'd \<Rightarrow> u8 list \<Rightarrow> int \<times> u8 list \<times> 'd"
  de_write :: "string \<Rightarrow> 'd \<Rightarrow> u8 list \<Rightarrow> int \<times> 'd"

text \<open>The text of a configuration field: its characters before the NUL.\<close>

definition field_text :: "char list \<Rightarrow> string" where
  "field_text buf = takeWhile (\<lambda>c. c \<noteq> NUL) buf"

definition valid_device :: "int \<Rightarrow> bool" where
  "valid_device dev \<longleftrightarrow> 0 \<le> dev \<and> dev < HUB_DEVICE_COUNT"

definition fallback_paths :: "int \<Rightarrow> string list" where
  "fallback_paths dev =
     (if dev = HUB_DEVICE_LED then [''/dev/hub_led'', ''/dev/100ask_led'']
      else if dev = HUB_DEVICE_DHT11 then [''/dev/mydht11'']
      else if dev = HUB_DEVICE_CAMERA then [''/dev/video0'', ''/dev/video1'']
      else [])"

section \<open>Opening and closing\<close>

text \<open>The loop over the fallback paths: the first that is not the configured one and opens.\<close>

fun first_fallback :: "(string \<Rightarrow> bool) \<Rightarrow> string \<Rightarrow> string list \<Rightarrow> string option" where
  "first_fallback opens path [] = None"
| "first_fallback opens path (f # fs) =
     (if path = f then first_fallback opens path fs
      else if opens f then Some f else first_fallback opens path fs)"

definition ensure_open :: "'d dev_env \<Rightarrow> 'd world \<Rightarrow> device_hal ptr \<Rightarrow> int \<Rightarrow> bool \<Rightarrow> int \<times> 'd world \<times> device_hal ptr" where
  "ensure_open env w halp dev nonblock =
     (case halp of
        None \<Rightarrow> (- 1, w, NULL)
      | Some hal \<Rightarrow>
          if \<not> valid_device dev then (- 1, w, halp)
          else let h = hal ! nat dev
          in if 0 \<le> dh_fd h then (0, w, halp)
          else let fd = fd_new (w_fds w);
                   w' = w\<lparr>w_fds := fd # w_fds w\<rparr>
          in if de_open env (dh_path h) nonblock then (0, w', Some (hal[nat dev := h\<lparr>dh_fd := fd\<rparr>]))
          else (case first_fallback (\<lambda>p. de_open env p nonblock) (dh_path h) (fallback_paths dev) of
                  Some path \<Rightarrow> (0, w', Some (hal[nat dev := \<lparr>dh_fd = fd, dh_path = snprintf_str 64 path\<rparr>]))
                | None \<Rightarrow> (- 1, w, Some (hal[nat dev := h\<lparr>dh_fd := - 1\<rparr>]))))"

definition hub_device_open :: "'d dev_env \<Rightarrow> 'd world \<Rightarrow> device_hal ptr \<Rightarrow> int \<Rightarrow> int \<times> 'd world \<times> device_hal ptr" where
  "hub_device_open env w halp dev =
     (if halp = NULL \<or> \<not> valid_device dev then (- 1, w, halp)
      else if dev = HUB_DEVICE_DHT11 then ensure_open env w halp dev True
      else ensure_open env w halp dev False)"

definition hub_device_close :: "'d world \<Rightarrow> device_hal ptr \<Rightarrow> int \<Rightarrow> 'd world \<times> device_hal ptr" where
  "hub_device_close w halp dev =
     (case halp of
        None \<Rightarrow> (w, NULL)
      | Some hal \<Rightarrow>
          if \<not> valid_device dev then (w, halp)
          else let h = hal ! nat dev
          in if 0 \<le> dh_fd h
             then (w\<lparr>w_fds := fd_close (dh_fd h) (w_fds w)\<rparr>, Some (hal[nat dev := h\<lparr>dh_fd := - 1\<rparr>]))
             else (w, halp))"

definition hub_device_hal_init ::
  "'d dev_env \<Rightarrow> 'd world \<Rightarrow> device_hal ptr \<Rightarrow> hub_config ptr \<Rightarrow> int \<times> 'd world \<times> device_hal ptr" where
  "hub_device_hal_init env w halp cfgp =
     (case (halp, cfgp) of
        (Some _, Some cfg) \<Rightarrow>
          let handle = (\<lambda>field. \<lparr>dh_fd = - 1, dh_path = snprintf_str 64 (field_text field)\<rparr>);
              hal = [handle (led_dev cfg), handle (dht11_dev cfg), handle (video_dev cfg)];
              (_, w1, h1) = hub_device_open env w (Some hal) HUB_DEVICE_LED;
              (_, w2, h2) = hub_device_open env w1 h1 HUB_DEVICE_DHT11
          in (0, w2, h2)
      | _ \<Rightarrow> (- 1, w, halp))"

definition hub_device_hal_deinit :: "'d world \<Rightarrow> device_hal ptr \<Rightarrow> 'd world \<times> device_hal ptr" where
  "hub_device_hal_deinit w halp =
     (case halp of
        None \<Rightarrow> (w, NULL)
      | Some _ \<Rightarrow>
          let (w1, h1) = hub_device_close w halp HUB_DEVICE_LED;
              (w2, h2) = hub_device_close w1 h1 HUB_DEVICE_DHT11
          in hub_device_close w2 h2 HUB_DEVICE_CAMERA)"

section \<open>Reading, writing and commands\<close>

definition hub_device_read ::
  "'d dev_env \<Rightarrow> 'd world \<Rightarrow> device_hal ptr \<Rightarrow> int \<Rightarrow> u8 list ptr \<Rightarrow> int \<times> u8 list ptr \<times> 'd world \<times> device_hal ptr" where
  "hub_device_read env w halp dev bufp =
     (case bufp of
        None \<Rightarrow> (- 1, NULL, w, halp)
      | Some buf \<Rightarrow>
          if halp = NULL \<or> buf = [] then (- 1, bufp, w, halp)
          else (case hub_device_open env w halp dev of
                  (r, w1, h1) \<Rightarrow>
                    if r \<noteq> 0 then (- 1, bufp, w1, h1)
                    else (case de_read env (dh_path (the h1 ! nat dev)) (w_dev w1) buf of
                            (n, buf', d) \<Rightarrow> (n, Some buf', w1\<lparr>w_dev := d\<rparr>, h1))))"

definition hub_device_write ::
  "'d dev_env \<Rightarrow> 'd world \<Rightarrow> device_hal ptr \<Rightarrow> int \<Rightarrow> u8 list ptr \<Rightarrow> int \<times> 'd world \<times> device_hal ptr" where
  "hub_device_write env w halp dev bufp =
     (case bufp of
        None \<Rightarrow> (- 1, w, halp)
      | Some buf \<Rightarrow>
          if halp = NULL \<or> buf = [] then (- 1, w, halp)
          else (case hub_device_open env w halp dev of
                  (r, w1, h1) \<Rightarrow>
                    if r \<noteq> 0 then (- 1, w1, h1)
                    else (case de_write env (dh_path (the h1 ! nat dev)) (w_dev w1) buf of
                            (n, d) \<Rightarrow> (n, w1\<lparr>w_dev := d\<rparr>, h1))))"

text \<open>\<open>arg\<close> points to the \<open>int\<close>s of the command; \<open>junk\<close> is what the uninitialised local buffers hold.\<close>

definition hub_device_ioctl ::
  "'d dev_env \<Rightarrow> u8 \<times> u8 \<Rightarrow> 'd world \<Rightarrow> device_hal ptr \<Rightarrow> int \<Rightarrow> int \<Rightarrow> int list ptr \<Rightarrow>
   int \<times> int list ptr \<times> 'd world \<times> device_hal ptr" where
  "hub_device_ioctl env junk w halp dev cmd arg =
     (if cmd = HUB_IOCTL_LED_SET then
        (let on = (case arg of None \<Rightarrow> 0 | Some a \<Rightarrow> a ! 0);
             led_buf = [0, if on \<noteq> 0 then 0 else 1]
         in case hub_device_write env w halp dev (Some led_buf) of
              (n, w1, h1) \<Rightarrow> (if n = 2 then 0 else - 1, arg, w1, h1))
      else if cmd = HUB_IOCTL_LED_GET then
        (case arg of
           None \<Rightarrow> (- 1, NULL, w, halp)
         | Some a \<Rightarrow>
             (case hub_device_read env w halp dev (Some [0, snd junk]) of
                (n, bp, w1, h1) \<Rightarrow>
                  if n \<noteq> 2 then (- 1, arg, w1, h1)
                  else (0, Some (a[0 := if the bp ! 1 = 0 then 1 else 0]), w1, h1)))
      else if cmd = HUB_IOCTL_DHT11_READ then
        (case arg of
           None \<Rightarrow> (- 1, NULL, w, halp)
         | Some a \<Rightarrow>
             (case hub_device_read env w halp dev (Some [fst junk, snd junk]) of
                (n, bp, w1, h1) \<Rightarrow>
                  if n \<noteq> 2 then (- 1, arg, w1, h1)
                  else (0, Some (a[0 := uint (the bp ! 0), 1 := uint (the bp ! 1)]), w1, h1)))
      else (- 1, arg, w, halp))"

definition hub_led_set :: "'d dev_env \<Rightarrow> 'd world \<Rightarrow> device_hal ptr \<Rightarrow> int \<Rightarrow> int \<times> 'd world \<times> device_hal ptr" where
  "hub_led_set env w halp on =
     (case hub_device_ioctl env (0, 0) w halp HUB_DEVICE_LED HUB_IOCTL_LED_SET (Some [on]) of
        (r, _, w1, h1) \<Rightarrow> (r, w1, h1))"

definition hub_led_get ::
  "'d dev_env \<Rightarrow> u8 \<times> u8 \<Rightarrow> 'd world \<Rightarrow> device_hal ptr \<Rightarrow> int ptr \<Rightarrow> int \<times> int ptr \<times> 'd world \<times> device_hal ptr" where
  "hub_led_get env junk w halp onp =
     (case hub_device_ioctl env junk w halp HUB_DEVICE_LED HUB_IOCTL_LED_GET (map_option (\<lambda>v. [v]) onp) of
        (r, a, w1, h1) \<Rightarrow> (r, map_option hd a, w1, h1))"

text \<open>The reading: the humidity and the temperature as the two pointers see them.\<close>

definition hub_dht11_read ::
  "'d dev_env \<Rightarrow> u8 \<times> u8 \<Rightarrow> int \<times> int \<Rightarrow> 'd world \<Rightarrow> device_hal ptr \<Rightarrow> int ptr \<Rightarrow> int ptr \<Rightarrow>
   int \<times> int ptr \<times> int ptr \<times> 'd world \<times> device_hal ptr" where
  "hub_dht11_read env junk values w halp humi temp =
     (if humi = NULL \<or> temp = NULL then (- 1, humi, temp, w, halp)
      else (case hub_device_ioctl env junk w halp HUB_DEVICE_DHT11 HUB_IOCTL_DHT11_READ
                   (Some [fst values, snd values]) of
              (r, a, w1, h1) \<Rightarrow>
                if r \<noteq> 0 then (- 1, humi, temp, w1, h1)
                else (0, Some (the a ! 0), Some (the a ! 1), w1, h1)))"

section \<open>Every descriptor is given back\<close>

text \<open>The descriptors of the open handles, and that the process has exactly these above \<open>base\<close>.\<close>

definition open_fds :: "device_hal \<Rightarrow> int multiset" where
  "open_fds hal = filter_mset (\<lambda>fd. 0 \<le> fd) (mset (map dh_fd hal))"

definition hal_owns :: "fd_table \<Rightarrow> fd_table \<Rightarrow> device_hal \<Rightarrow> bool" where
  "hal_owns base fds hal \<longleftrightarrow> length hal = 3 \<and> mset fds = mset base + open_fds hal \<and> distinct fds"

lemma valid_device_nat: "valid_device dev \<Longrightarrow> nat dev < 3"
  by (auto simp: valid_device_def HUB_DEVICE_COUNT_def nat_less_iff)

lemma open_fds_update:
  assumes "i < length hal"
  shows "open_fds (hal[i := h]) =
    open_fds hal - filter_mset (\<lambda>fd. 0 \<le> fd) {#dh_fd (hal ! i)#} + filter_mset (\<lambda>fd. 0 \<le> fd) {#dh_fd h#}"
  using assms unfolding open_fds_def map_update
  by (subst mset_update) (simp_all add: filter_diff_mset)

lemma owns_opened:
  assumes "hal_owns base (w_fds w) hal" "i < 3" "dh_fd (hal ! i) < 0" "dh_fd h = fd_new (w_fds w)"
  shows "hal_owns base (fd_new (w_fds w) # w_fds w) (hal[i := h])"
  using assms by (simp add: hal_owns_def open_fds_update)

lemma owns_not_opened:
  assumes "hal_owns base fds hal" "i < 3" "dh_fd (hal ! i) < 0" "dh_fd h < 0"
  shows "hal_owns base fds (hal[i := h])"
  using assms by (simp add: hal_owns_def open_fds_update)

lemma ensure_open_owns:
  assumes "hal_owns base (w_fds w) hal"
  shows "case ensure_open env w (Some hal) dev nb of
    (r, w', halp') \<Rightarrow> (\<exists>hal'. halp' = Some hal' \<and> hal_owns base (w_fds w') hal' \<and>
      (r = 0 \<longrightarrow> valid_device dev \<and> 0 \<le> dh_fd (hal' ! nat dev))) \<and> w_dev w' = w_dev w"
proof (cases "valid_device dev \<and> dh_fd (hal ! nat dev) < 0")
  case True
  note i = valid_device_nat [of dev] owns_opened [OF assms] owns_not_opened [OF assms]
  have "length hal = 3" using assms by (simp add: hal_owns_def)
  with True i show ?thesis
    by (auto simp: ensure_open_def Let_def split: option.split)
next
  case False
  with assms show ?thesis by (auto simp: ensure_open_def Let_def)
qed

lemma device_open_owns:
  assumes "hal_owns base (w_fds w) hal"
  shows "case hub_device_open env w (Some hal) dev of
    (r, w', halp') \<Rightarrow> (\<exists>hal'. halp' = Some hal' \<and> hal_owns base (w_fds w') hal' \<and>
      (r = 0 \<longrightarrow> valid_device dev \<and> 0 \<le> dh_fd (hal' ! nat dev))) \<and> w_dev w' = w_dev w"
proof (cases "valid_device dev")
  case True
  then have "hub_device_open env w (Some hal) dev = ensure_open env w (Some hal) dev (dev = HUB_DEVICE_DHT11)"
    by (simp add: hub_device_open_def)
  then show ?thesis
    using ensure_open_owns [OF assms, where env = env and dev = dev and nb = "dev = HUB_DEVICE_DHT11"] by simp
next
  case False
  with assms show ?thesis by (simp add: hub_device_open_def)
qed

lemma device_read_owns:
  assumes "hal_owns base (w_fds w) hal"
  shows "case hub_device_read env w (Some hal) dev bufp of
    (n, bp, w', halp') \<Rightarrow> \<exists>hal'. halp' = Some hal' \<and> hal_owns base (w_fds w') hal'"
  using device_open_owns [OF assms, where env = env and dev = dev] assms
  by (auto simp: hub_device_read_def split: option.split prod.splits)

lemma device_write_owns:
  assumes "hal_owns base (w_fds w) hal"
  shows "case hub_device_write env w (Some hal) dev bufp of
    (n, w', halp') \<Rightarrow> \<exists>hal'. halp' = Some hal' \<and> hal_owns base (w_fds w') hal'"
  using device_open_owns [OF assms, where env = env and dev = dev] assms
  by (auto simp: hub_device_write_def split: option.split prod.splits)

lemma device_ioctl_owns:
  assumes "hal_owns base (w_fds w) hal"
  shows "case hub_device_ioctl env junk w (Some hal) dev cmd arg of
    (n, a, w', halp') \<Rightarrow> \<exists>hal'. halp' = Some hal' \<and> hal_owns base (w_fds w') hal'"
proof -
  have r: "\<exists>n bp w' hal'. hub_device_read env w (Some hal) dev (Some buf) = (n, bp, w', Some hal') \<and>
      hal_owns base (w_fds w') hal'" for buf
    using device_read_owns [OF assms, where env = env and dev = dev and bufp = "Some buf"] by (auto split: prod.splits)
  have wr: "\<exists>n w' hal'. hub_device_write env w (Some hal) dev (Some buf) = (n, w', Some hal') \<and>
      hal_owns base (w_fds w') hal'" for buf
    using device_write_owns [OF assms, where env = env and dev = dev and bufp = "Some buf"] by (auto split: prod.splits)
  show ?thesis
    unfolding hub_device_ioctl_def Let_def
    using assms r [of "[0, snd junk]"] r [of "[fst junk, snd junk]"]
      wr [of "[0, if (case arg of None \<Rightarrow> 0 | Some a \<Rightarrow> a ! 0) \<noteq> 0 then 0 else 1]"]
    by (auto split: option.split if_splits)
qed

lemma device_close_owns:
  assumes "hal_owns base (w_fds w) hal"
  shows "case hub_device_close w (Some hal) dev of
    (w', halp') \<Rightarrow> \<exists>hal'. halp' = Some hal' \<and> hal_owns base (w_fds w') hal' \<and>
      (valid_device dev \<longrightarrow> dh_fd (hal' ! nat dev) < 0) \<and>
      (\<forall>j. j \<noteq> nat dev \<longrightarrow> hal' ! j = hal ! j)"
proof (cases "valid_device dev \<and> 0 \<le> dh_fd (hal ! nat dev)")
  case True
  let ?fd = "dh_fd (hal ! nat dev)"
  have i: "nat dev < length hal" using True assms valid_device_nat [of dev] by (simp add: hal_owns_def)
  have "?fd \<in># open_fds hal" using i True by (auto simp: open_fds_def)
  have d: "distinct (w_fds w)" using assms by (simp add: hal_owns_def)
  have "mset (fd_close ?fd (w_fds w)) = mset (w_fds w) - {#?fd#}"
    using d by (simp add: fd_close_def distinct_remove1_removeAll [symmetric])
  also have "\<dots> = mset base + (open_fds hal - {#?fd#})"
    using assms \<open>?fd \<in># open_fds hal\<close> by (simp add: hal_owns_def)
  finally have "hal_owns base (fd_close ?fd (w_fds w)) (hal[nat dev := (hal ! nat dev)\<lparr>dh_fd := - 1\<rparr>])"
    using assms i d True by (simp add: hal_owns_def open_fds_update fd_close_def distinct_removeAll)
  with True i show ?thesis by (simp add: hub_device_close_def Let_def)
next
  case False
  with assms show ?thesis by (auto simp: hub_device_close_def Let_def)
qed


datatype hal_call = HalOpen int | HalClose int | HalRead int "u8 list ptr" | HalWrite int "u8 list ptr" |
  HalIoctl int int "int list ptr"

fun hal_step :: "'d dev_env \<Rightarrow> u8 \<times> u8 \<Rightarrow> hal_call \<Rightarrow> 'd world \<Rightarrow> device_hal ptr \<Rightarrow> 'd world \<times> device_hal ptr" where
  "hal_step env junk (HalOpen dev) w halp = snd (hub_device_open env w halp dev)"
| "hal_step env junk (HalClose dev) w halp = hub_device_close w halp dev"
| "hal_step env junk (HalRead dev bufp) w halp = snd (snd (hub_device_read env w halp dev bufp))"
| "hal_step env junk (HalWrite dev bufp) w halp = snd (hub_device_write env w halp dev bufp)"
| "hal_step env junk (HalIoctl dev cmd arg) w halp = snd (snd (hub_device_ioctl env junk w halp dev cmd arg))"

fun hal_run :: "'d dev_env \<Rightarrow> u8 \<times> u8 \<Rightarrow> hal_call list \<Rightarrow> 'd world \<Rightarrow> device_hal ptr \<Rightarrow> 'd world \<times> device_hal ptr" where
  "hal_run env junk [] w halp = (w, halp)"
| "hal_run env junk (c # cs) w halp = (case hal_step env junk c w halp of (w', halp') \<Rightarrow> hal_run env junk cs w' halp')"

lemma hal_step_owns:
  assumes "hal_owns base (w_fds w) hal"
  shows "\<exists>w' hal'. hal_step env junk c w (Some hal) = (w', Some hal') \<and> hal_owns base (w_fds w') hal'"
proof (cases c)
  case (HalOpen dev)
  then show ?thesis using device_open_owns [OF assms, where env = env and dev = dev] by (auto split: prod.splits)
next
  case (HalClose dev)
  then show ?thesis using device_close_owns [OF assms, where dev = dev] by (auto split: prod.splits)
next
  case (HalRead dev bufp)
  then show ?thesis
    using device_read_owns [OF assms, where env = env and dev = dev and bufp = bufp] by (auto split: prod.splits)
next
  case (HalWrite dev bufp)
  then show ?thesis
    using device_write_owns [OF assms, where env = env and dev = dev and bufp = bufp] by (auto split: prod.splits)
next
  case (HalIoctl dev cmd arg)
  then show ?thesis
    using device_ioctl_owns [OF assms, where env = env and dev = dev and junk = junk and cmd = cmd and arg = arg]
    by (auto split: prod.splits)
qed

lemma hal_run_owns:
  "hal_owns base (w_fds w) hal \<Longrightarrow>
   \<exists>w' hal'. hal_run env junk cs w (Some hal) = (w', Some hal') \<and> hal_owns base (w_fds w') hal'"
proof (induction cs arbitrary: w hal)
  case (Cons c cs)
  obtain w' hal' where s: "hal_step env junk c w (Some hal) = (w', Some hal')" "hal_owns base (w_fds w') hal'"
    using hal_step_owns [OF Cons.prems, where env = env and junk = junk and c = c] by blast
  from Cons.IH [OF s(2)] s(1) show ?case by simp
qed simp

lemma led_set_owns:
  "hal_owns base (w_fds w) hal \<Longrightarrow> hub_led_set env w (Some hal) on = (r, w', halp) \<Longrightarrow>
   \<exists>hal'. halp = Some hal' \<and> hal_owns base (w_fds w') hal'"
  using device_ioctl_owns [where env = env and junk = "(0, 0)" and dev = HUB_DEVICE_LED and cmd = HUB_IOCTL_LED_SET
      and arg = "Some [on]" and base = base and w = w and hal = hal]
  by (auto simp: hub_led_set_def split: prod.splits)

lemma dht11_owns:
  "hal_owns base (w_fds w) hal \<Longrightarrow> hub_dht11_read env junk vals w (Some hal) (Some h) (Some t) = (r, hp, tp, w', halp) \<Longrightarrow>
   \<exists>hal'. halp = Some hal' \<and> hal_owns base (w_fds w') hal'"
  using device_ioctl_owns [where env = env and junk = junk and dev = HUB_DEVICE_DHT11 and cmd = HUB_IOCTL_DHT11_READ
      and arg = "Some [fst vals, snd vals]" and base = base and w = w and hal = hal]
  by (auto simp: hub_dht11_read_def split: prod.splits if_splits)

lemma led_get_owns:
  "hal_owns base (w_fds w) hal \<Longrightarrow> hub_led_get env junk w (Some hal) (Some v) = (r, vp, w', halp) \<Longrightarrow>
   \<exists>hal'. halp = Some hal' \<and> hal_owns base (w_fds w') hal'"
  using device_ioctl_owns [where env = env and junk = junk and dev = HUB_DEVICE_LED and cmd = HUB_IOCTL_LED_GET
      and arg = "Some [v]" and base = base and w = w and hal = hal]
  by (auto simp: hub_led_get_def split: prod.splits)

lemma hal_init_owns:
  assumes "distinct (w_fds w)"
  shows "\<exists>w' hal'. hub_device_hal_init env w (Some hal) (Some cfg) = (0, w', Some hal') \<and>
    hal_owns (w_fds w) (w_fds w') hal'"
proof -
  let ?handle = "\<lambda>field. \<lparr>dh_fd = - 1, dh_path = snprintf_str 64 (field_text field)\<rparr>"
  let ?hal = "[?handle (led_dev cfg), ?handle (dht11_dev cfg), ?handle (video_dev cfg)]"
  have 0: "hal_owns (w_fds w) (w_fds w) ?hal" using assms by (simp add: hal_owns_def open_fds_def)
  obtain r1 w1 hal1 where 1: "hub_device_open env w (Some ?hal) HUB_DEVICE_LED = (r1, w1, Some hal1)"
    "hal_owns (w_fds w) (w_fds w1) hal1"
    using device_open_owns [OF 0, where env = env and dev = HUB_DEVICE_LED] by (auto split: prod.splits)
  obtain r2 w2 hal2 where 2: "hub_device_open env w1 (Some hal1) HUB_DEVICE_DHT11 = (r2, w2, Some hal2)"
    "hal_owns (w_fds w) (w_fds w2) hal2"
    using device_open_owns [OF 1(2), where env = env and dev = HUB_DEVICE_DHT11] by (auto split: prod.splits)
  from 1 2 show ?thesis by (simp add: hub_device_hal_init_def Let_def)
qed

lemma hal_deinit_closes:
  assumes "hal_owns base (w_fds w) hal"
  shows "\<exists>w' hal'. hub_device_hal_deinit w (Some hal) = (w', Some hal') \<and> mset (w_fds w') = mset base"
proof -
  obtain w1 hal1 where 1: "hub_device_close w (Some hal) HUB_DEVICE_LED = (w1, Some hal1)"
    "hal_owns base (w_fds w1) hal1" "dh_fd (hal1 ! 0) < 0"
    using device_close_owns [OF assms, where dev = HUB_DEVICE_LED]
    by (auto simp: valid_device_def cmodel split: prod.splits)
  obtain w2 hal2 where 2: "hub_device_close w1 (Some hal1) HUB_DEVICE_DHT11 = (w2, Some hal2)"
    "hal_owns base (w_fds w2) hal2" "dh_fd (hal2 ! 1) < 0" "hal2 ! 0 = hal1 ! 0"
    using device_close_owns [OF 1(2), where dev = HUB_DEVICE_DHT11]
    by (auto simp: valid_device_def cmodel split: prod.splits)
  obtain w3 hal3 where 3: "hub_device_close w2 (Some hal2) HUB_DEVICE_CAMERA = (w3, Some hal3)"
    "hal_owns base (w_fds w3) hal3" "dh_fd (hal3 ! 2) < 0" "hal3 ! 0 = hal2 ! 0" "hal3 ! 1 = hal2 ! 1"
    using device_close_owns [OF 2(2), where dev = HUB_DEVICE_CAMERA]
    by (auto simp: valid_device_def cmodel split: prod.splits)
  have "length hal3 = 3" using 3(2) by (simp add: hal_owns_def)
  then obtain a b c where "hal3 = [a, b, c]" by (auto simp: numeral_3_eq_3 length_Suc_conv)
  then have "open_fds hal3 = {#}" using 1 2 3 by (simp add: open_fds_def)
  with 1 2 3 show ?thesis by (simp add: hub_device_hal_deinit_def hal_owns_def)
qed

text \<open>C32. From the initialisation on, whichever paths open and whatever the devices answer, through any
  opens, closes, reads, writes and commands, the process holds the descriptors of the open handles
  and no other; the shutdown gives all of them back.\<close>

theorem hal_returns_descriptors:
  assumes "distinct (w_fds w)" and "hub_device_hal_init env w (Some hal0) (Some cfg) = (0, w1, Some hal1)"
    and "hal_run env junk cs w1 (Some hal1) = (w2, Some hal2)"
  shows "hal_owns (w_fds w) (w_fds w2) hal2 \<and>
    (\<exists>w3 hal3. hub_device_hal_deinit w2 (Some hal2) = (w3, Some hal3) \<and> mset (w_fds w3) = mset (w_fds w))"
proof -
  have "hal_owns (w_fds w) (w_fds w1) hal1"
    using hal_init_owns [OF assms(1), where env = env and hal = hal0 and cfg = cfg] assms(2) by auto
  from hal_run_owns [OF this, where env = env and junk = junk and cs = cs] assms(3)
  have "hal_owns (w_fds w) (w_fds w2) hal2" by auto
  with hal_deinit_closes [OF this] show ?thesis by blast
qed


section \<open>The contract of an LED device\<close>

text \<open>\<open>wr\<close> and \<open>rd\<close> are its write and read system calls, \<open>lit\<close> says whether the LED is on. The board
  is active low: the byte 0 lights it.\<close>

locale led_device =
  fixes wr :: "'d \<Rightarrow> u8 list \<Rightarrow> int \<times> 'd"
    and rd :: "'d \<Rightarrow> u8 list \<Rightarrow> int \<times> u8 list \<times> 'd"
    and lit :: "'d \<Rightarrow> bool"
    and ready :: "'d \<Rightarrow> bool"
  assumes wr_level: "ready d \<Longrightarrow> \<exists>d'. wr d [0, v] = (2, d') \<and> ready d' \<and> lit d' = (v = 0)"
    and rd_level: "ready d \<Longrightarrow> \<exists>d'. rd d [0, v] = (2, [0, if lit d then 0 else 1], d') \<and> ready d' \<and> lit d' = lit d"
begin

lemma led_set:
  assumes "hub_device_open env w (Some hal) HUB_DEVICE_LED = (0, w1, Some hal1)" "w_dev w1 = w_dev w"
    and "de_write env (dh_path (hal1 ! 0)) = wr" "ready (w_dev w)"
  shows "\<exists>d'. hub_led_set env w (Some hal) on = (0, w1\<lparr>w_dev := d'\<rparr>, Some hal1) \<and> ready d' \<and> lit d' = (on \<noteq> 0)"
proof -
  let ?v = "if on \<noteq> 0 then 0 else 1 :: u8"
  obtain d' where d': "wr (w_dev w) [0, ?v] = (2, d')" "ready d'" "lit d' = (?v = 0)"
    using wr_level [OF assms(4)] by blast
  have "hub_device_write env w (Some hal) HUB_DEVICE_LED (Some [0, ?v]) = (2, w1\<lparr>w_dev := d'\<rparr>, Some hal1)"
    using assms d' by (simp add: hub_device_write_def HUB_DEVICE_LED_def)
  then show ?thesis
    using d' by (auto simp: hub_led_set_def hub_device_ioctl_def Let_def)
qed

lemma led_get:
  assumes "hub_device_open env w (Some hal) HUB_DEVICE_LED = (0, w1, Some hal1)" "w_dev w1 = w_dev w"
    and "de_read env (dh_path (hal1 ! 0)) = rd" "ready (w_dev w)"
  shows "\<exists>d'. hub_led_get env junk w (Some hal) (Some on) =
      (0, Some (if lit (w_dev w) then 1 else 0), w1\<lparr>w_dev := d'\<rparr>, Some hal1) \<and> ready d' \<and> lit d' = lit (w_dev w)"
proof -
  obtain d' where d': "rd (w_dev w) [0, snd junk] = (2, [0, if lit (w_dev w) then 0 else 1], d')" "ready d'"
    "lit d' = lit (w_dev w)"
    using rd_level [OF assms(4)] by blast
  have "hub_device_read env w (Some hal) HUB_DEVICE_LED (Some [0, snd junk]) =
      (2, Some [0, if lit (w_dev w) then 0 else 1], w1\<lparr>w_dev := d'\<rparr>, Some hal1)"
    using assms d' by (simp add: hub_device_read_def HUB_DEVICE_LED_def)
  then show ?thesis
    using d' by (auto simp: hub_led_get_def hub_device_ioctl_def HUB_IOCTL_LED_GET_def HUB_IOCTL_LED_SET_def)
qed

end

text \<open>The system calls on the driver of \<open>LedDriver\<close>: an error code becomes -1. The devices are the LED
  and whatever else the hub has.\<close>

definition sys_ret :: "int \<Rightarrow> int" where
  "sys_ret r = (if r < 0 then - 1 else r)"

definition led_sys_write :: "led_module \<times> 'x \<Rightarrow> u8 list \<Rightarrow> int \<times> led_module \<times> 'x" where
  "led_sys_write d buf = (case hub_led_write True (fst d) buf of (r, m) \<Rightarrow> (sys_ret r, m, snd d))"

definition led_sys_read :: "led_module \<times> 'x \<Rightarrow> u8 list \<Rightarrow> int \<times> u8 list \<times> led_module \<times> 'x" where
  "led_sys_read d buf = (case hub_led_read True True (fst d) buf of (r, buf') \<Rightarrow> (sys_ret r, buf', d))"

definition led_lit :: "led_module \<times> 'x \<Rightarrow> bool" where
  "led_lit d \<longleftrightarrow> lm_gpio (fst d) = 0"

interpretation driver: led_device led_sys_write led_sys_read led_lit "\<lambda>d. loaded (fst d)"
  by unfold_locales
     (auto simp: led_sys_write_def led_sys_read_def led_lit_def led_write_value led_read_value sys_ret_def loaded_def)

lemma opened_again:
  assumes "hub_device_open env w (Some hal) dev = (0, w1, Some hal1)" "hal_owns base (w_fds w) hal"
  shows "hub_device_open env (w1\<lparr>w_dev := d\<rparr>) (Some hal1) dev = (0, w1\<lparr>w_dev := d\<rparr>, Some hal1)"
    "w_dev w1 = w_dev w"
proof -
  have "valid_device dev" "0 \<le> dh_fd (hal1 ! nat dev)" "w_dev w1 = w_dev w"
    using device_open_owns [OF assms(2), where env = env and dev = dev] assms(1) by auto
  then show "w_dev w1 = w_dev w" "hub_device_open env (w1\<lparr>w_dev := d\<rparr>) (Some hal1) dev = (0, w1\<lparr>w_dev := d\<rparr>, Some hal1)"
    by (auto simp: hub_device_open_def ensure_open_def Let_def)
qed

text \<open>Through the hub's device layer and the driver down to the pin: once the LED device opens,
  setting it drives the pin, active low, and reading it back gives what was set.\<close>

theorem led_command_reaches_pin:
  assumes "hub_device_open env w (Some hal) HUB_DEVICE_LED = (0, w1, Some hal1)" "hal_owns base (w_fds w) hal"
    and "de_write env (dh_path (hal1 ! 0)) = led_sys_write" "de_read env (dh_path (hal1 ! 0)) = led_sys_read"
    and "loaded (fst (w_dev w))"
  shows "\<exists>w2 w3. hub_led_set env w (Some hal) on = (0, w2, Some hal1) \<and>
    lm_gpio (fst (w_dev w2)) = (if on \<noteq> 0 then 0 else 1) \<and>
    hub_led_get env junk w2 (Some hal1) (Some v) = (0, Some (if on \<noteq> 0 then 1 else 0), w3, Some hal1) \<and>
    w_fds w3 = w_fds w1"
proof -
  note dev = opened_again [OF assms(1,2)]
  obtain d2 where s: "hub_led_set env w (Some hal) on = (0, w1\<lparr>w_dev := d2\<rparr>, Some hal1)" "loaded (fst d2)"
      "led_lit d2 = (on \<noteq> 0)"
    using driver.led_set [OF assms(1) dev(2) assms(3,5), of on] by blast
  obtain d3 where g: "hub_led_get env junk (w1\<lparr>w_dev := d2\<rparr>) (Some hal1) (Some v) =
      (0, Some (if led_lit d2 then 1 else 0), w1\<lparr>w_dev := d3\<rparr>, Some hal1)"
    using driver.led_get [OF dev(1) [of d2] refl, where junk = junk and on = v] assms(4) s(2) by auto
  have "lm_gpio (fst d2) = (if on \<noteq> 0 then 0 else 1)"
    using s(2,3) by (auto simp: led_lit_def loaded_def)
  with s g show ?thesis by auto
qed


section \<open>An instance\<close>

definition demo_led :: led_module where
  "demo_led = \<lparr>lm_gpio_owned = True, lm_chrdev = True, lm_class = True, lm_device = True, lm_gpio = 1, lm_major = 240\<rparr>"

text \<open>Only \<open>/dev/hub_led\<close> opens.\<close>

definition demo_env :: "(led_module \<times> unit) dev_env" where
  "demo_env = \<lparr>de_open = (\<lambda>path _. path = ''/dev/hub_led''), de_read = (\<lambda>_. led_sys_read), de_write = (\<lambda>_. led_sys_write)\<rparr>"

definition demo_world :: "(led_module \<times> unit) world" where
  "demo_world = \<lparr>w_fds = [0, 1, 2], w_dev = (demo_led, ())\<rparr>"

definition demo_hal :: device_hal where
  "demo_hal = [\<lparr>dh_fd = - 1, dh_path = ''/dev/hub_led''\<rparr>, \<lparr>dh_fd = - 1, dh_path = ''/dev/mydht11''\<rparr>,
               \<lparr>dh_fd = - 1, dh_path = ''/dev/video0''\<rparr>]"

lemma demo_open:
  "\<exists>w1 hal1. hub_device_open demo_env demo_world (Some demo_hal) HUB_DEVICE_LED = (0, w1, Some hal1)"
  by (simp add: hub_device_open_def ensure_open_def demo_env_def demo_hal_def cmodel valid_device_def Let_def)

theorem led_command_reaches_pin_witness:
  "\<exists>w2 w3 hal1. hub_led_set demo_env demo_world (Some demo_hal) 1 = (0, w2, Some hal1) \<and>
     lm_gpio (fst (w_dev w2)) = 0 \<and>
     hub_led_get demo_env (0, 0) w2 (Some hal1) (Some 7) = (0, Some 1, w3, Some hal1)"
proof -
  obtain w1 hal1 where o: "hub_device_open demo_env demo_world (Some demo_hal) HUB_DEVICE_LED = (0, w1, Some hal1)"
    using demo_open by blast
  have own: "hal_owns [0, 1, 2] (w_fds demo_world) demo_hal"
    by (simp add: hal_owns_def open_fds_def demo_hal_def demo_world_def)
  have "loaded (fst (w_dev demo_world))" by (simp add: demo_world_def demo_led_def loaded_def)
  moreover have "de_write demo_env p = led_sys_write" "de_read demo_env p = led_sys_read" for p
    by (simp_all add: demo_env_def)
  ultimately show ?thesis
    using led_command_reaches_pin [OF o own, where on = 1 and junk = "(0, 0)" and v = 7] by auto
qed

theorem hal_returns_descriptors_witness:
  "\<exists>w1 hal1 w2 hal2. hub_device_hal_init demo_env demo_world (Some []) (Some hub_config_set_defaults) = (0, w1, Some hal1) \<and>
     hal_run demo_env (0, 0) [HalOpen 2, HalClose 0, HalIoctl 0 HUB_IOCTL_LED_GET (Some [0])] w1 (Some hal1) = (w2, Some hal2) \<and>
     (\<exists>w3 hal3. hub_device_hal_deinit w2 (Some hal2) = (w3, Some hal3) \<and> mset (w_fds w3) = {#0, 1, 2#})"
proof -
  have d: "distinct (w_fds demo_world)" by (simp add: demo_world_def)
  obtain w1 hal1 where i: "hub_device_hal_init demo_env demo_world (Some []) (Some hub_config_set_defaults) =
      (0, w1, Some hal1)" "hal_owns (w_fds demo_world) (w_fds w1) hal1"
    using hal_init_owns [OF d] by blast
  obtain w2 hal2 where r: "hal_run demo_env (0, 0) [HalOpen 2, HalClose 0, HalIoctl 0 HUB_IOCTL_LED_GET (Some [0])]
      w1 (Some hal1) = (w2, Some hal2)"
    using hal_run_owns [OF i(2)] by blast
  from hal_returns_descriptors [OF d i(1) r] i(1) r show ?thesis by (auto simp: demo_world_def)
qed

end
