(* ===== verification/MediaPlayer.thy ===== *)
theory MediaPlayer
  imports HubConfig
begin

text \<open>
  The hub's media player, \<open>src/media/media_player.c\<close>: one \<open>aplay\<close> child process at a time. The model
  keeps the process's children: those running, with the file they play, and those that have exited
  and are not yet reaped. Children may exit between any two calls.
\<close>

section \<open>State\<close>

record media_player =
  mp_pid :: int
  mp_default_file :: "char list"

record procs =
  pr_running :: "(int \<times> string) list"
  pr_exited :: "int list"

text \<open>\<open>waitpid (pid, &status, WNOHANG)\<close>: reaps an exited child, returns 0 for a running one.\<close>

definition waitpid_nohang :: "int \<Rightarrow> procs \<Rightarrow> int \<times> procs" where
  "waitpid_nohang pid ps =
     (if pid \<in> set (pr_exited ps) then (pid, ps\<lparr>pr_exited := removeAll pid (pr_exited ps)\<rparr>)
      else if pid \<in> fst ` set (pr_running ps) then (0, ps) else (- 1, ps))"

text \<open>\<open>kill (pid, SIGTERM)\<close>, then \<open>waitpid (pid, NULL, 0)\<close>, which blocks until the child is reaped.\<close>

definition kill_and_wait :: "int \<Rightarrow> procs \<Rightarrow> procs" where
  "kill_and_wait pid ps =
     ps\<lparr>pr_running := filter (\<lambda>(p, _). p \<noteq> pid) (pr_running ps), pr_exited := removeAll pid (pr_exited ps)\<rparr>"

section \<open>Operations\<close>

definition reap_if_exited :: "procs \<Rightarrow> media_player ptr \<Rightarrow> procs \<times> media_player ptr" where
  "reap_if_exited ps mpp =
     (case mpp of
        None \<Rightarrow> (ps, NULL)
      | Some mp \<Rightarrow>
          if mp_pid mp \<le> 0 then (ps, mpp)
          else (case waitpid_nohang (mp_pid mp) ps of
                  (ret, ps') \<Rightarrow> (ps', Some (if ret = mp_pid mp then mp\<lparr>mp_pid := - 1\<rparr> else mp))))"

definition hub_media_player_init :: "media_player ptr \<Rightarrow> string ptr \<Rightarrow> int \<times> media_player ptr" where
  "hub_media_player_init mpp default_file =
     (case mpp of
        None \<Rightarrow> (- 1, NULL)
      | Some _ \<Rightarrow>
          (0, Some \<lparr>mp_pid = - 1,
                    mp_default_file = (case default_file of
                       None \<Rightarrow> replicate 256 NUL
                     | Some f \<Rightarrow> if f = [] then replicate 256 NUL else text_field 256 f)\<rparr>))"

text \<open>What \<open>stop\<close> and \<open>play\<close> both begin with, under the lock.\<close>

definition end_current :: "procs \<Rightarrow> media_player \<Rightarrow> procs \<times> media_player" where
  "end_current ps mp =
     (case reap_if_exited ps (Some mp) of
        (ps1, mpp1) \<Rightarrow>
          let mp1 = the mpp1
          in if 0 < mp_pid mp1 then (kill_and_wait (mp_pid mp1) ps1, mp1\<lparr>mp_pid := - 1\<rparr>) else (ps1, mp1))"

definition hub_media_player_stop :: "procs \<Rightarrow> media_player ptr \<Rightarrow> int \<times> procs \<times> media_player ptr" where
  "hub_media_player_stop ps mpp =
     (case mpp of
        None \<Rightarrow> (- 1, ps, NULL)
      | Some mp \<Rightarrow> (case end_current ps mp of (ps', mp') \<Rightarrow> (0, ps', Some mp')))"

definition hub_media_player_deinit :: "procs \<Rightarrow> media_player ptr \<Rightarrow> procs \<times> media_player ptr" where
  "hub_media_player_deinit ps mpp =
     (case mpp of None \<Rightarrow> (ps, NULL) | Some _ \<Rightarrow> snd (hub_media_player_stop ps mpp))"

text \<open>The text in the array of the default file.\<close>

definition default_text :: "media_player \<Rightarrow> string" where
  "default_text mp = takeWhile (\<lambda>c. c \<noteq> NUL) (mp_default_file mp)"

text \<open>\<open>fork\<close>: what the system call returns to the parent. The child runs \<open>aplay\<close> on the file.\<close>

definition hub_media_player_play :: "int \<Rightarrow> procs \<Rightarrow> media_player ptr \<Rightarrow> string ptr \<Rightarrow> int \<times> procs \<times> media_player ptr" where
  "hub_media_player_play fork ps mpp file =
     (case mpp of
        None \<Rightarrow> (- 1, ps, NULL)
      | Some mp \<Rightarrow>
          let play_file = (case file of
                None \<Rightarrow> default_text mp
              | Some f \<Rightarrow> if f \<noteq> [] then f else default_text mp)
          in if play_file = [] then (- 1, ps, mpp)
             else (case end_current ps mp of
                     (ps1, mp1) \<Rightarrow>
                       if fork < 0 then (- 1, ps1, Some mp1)
                       else (0, ps1\<lparr>pr_running := (fork, play_file) # pr_running ps1\<rparr>,
                             Some (mp1\<lparr>mp_pid := fork\<rparr>))))"

section \<open>One child at a time\<close>

text \<open>A child that exits by itself.\<close>

definition child_exits :: "int \<Rightarrow> procs \<Rightarrow> procs" where
  "child_exits pid ps =
     (if pid \<in> fst ` set (pr_running ps)
      then ps\<lparr>pr_running := filter (\<lambda>(p, _). p \<noteq> pid) (pr_running ps), pr_exited := pid # pr_exited ps\<rparr>
      else ps)"

datatype media_call = Play int "string ptr" | Stop | ChildExits int

fun media_run :: "media_call list \<Rightarrow> procs \<Rightarrow> media_player \<Rightarrow> procs \<times> media_player" where
  "media_run [] ps mp = (ps, mp)"
| "media_run (Play fork file # cs) ps mp =
     (case hub_media_player_play fork ps (Some mp) file of (_, ps', mpp) \<Rightarrow> media_run cs ps' (the mpp))"
| "media_run (Stop # cs) ps mp =
     (case hub_media_player_stop ps (Some mp) of (_, ps', mpp) \<Rightarrow> media_run cs ps' (the mpp))"
| "media_run (ChildExits pid # cs) ps mp = media_run cs (child_exits pid ps) mp"

text \<open>The only child, running or exited, is the one whose pid the player keeps.\<close>

definition media_ok :: "procs \<Rightarrow> media_player \<Rightarrow> bool" where
  "media_ok ps mp \<longleftrightarrow>
     (if 0 < mp_pid mp
      then (\<exists>file. pr_running ps = [(mp_pid mp, file)]) \<and> pr_exited ps = [] \<or>
           pr_running ps = [] \<and> pr_exited ps = [mp_pid mp]
      else mp_pid mp = - 1 \<and> pr_running ps = [] \<and> pr_exited ps = [])"

lemma end_current_none:
  assumes "media_ok ps mp" "end_current ps mp = (ps', mp')"
  shows "pr_running ps' = [] \<and> pr_exited ps' = [] \<and> mp_pid mp' = - 1 \<and> mp_default_file mp' = mp_default_file mp"
  using assms
  by (auto simp: media_ok_def end_current_def reap_if_exited_def waitpid_nohang_def kill_and_wait_def Let_def
      split: if_splits)

lemma stop_none:
  assumes "media_ok ps mp"
  shows "\<exists>ps' mp'. hub_media_player_stop ps (Some mp) = (0, ps', Some mp') \<and> media_ok ps' mp' \<and>
    pr_running ps' = [] \<and> pr_exited ps' = [] \<and> mp_default_file mp' = mp_default_file mp"
proof -
  obtain ps' mp' where e: "end_current ps mp = (ps', mp')" by fastforce
  from end_current_none [OF assms e] e show ?thesis by (simp add: hub_media_player_stop_def media_ok_def)
qed

lemma play_ok:
  assumes "media_ok ps mp" "fork \<noteq> 0"
  shows "\<exists>r ps' mp'. hub_media_player_play fork ps (Some mp) file = (r, ps', Some mp') \<and> media_ok ps' mp' \<and>
    mp_default_file mp' = mp_default_file mp \<and>
    (r = 0 \<longrightarrow> pr_running ps' =
       [(fork, case file of Some (c # f) \<Rightarrow> c # f | _ \<Rightarrow> default_text mp)])"
proof -
  obtain ps' mp' where e: "end_current ps mp = (ps', mp')" by fastforce
  from end_current_none [OF assms(1) e] e assms show ?thesis
    by (auto simp: hub_media_player_play_def media_ok_def Let_def split: option.split list.split)
qed

lemma media_run_ok:
  "list_all (\<lambda>c. case c of Play fork _ \<Rightarrow> fork \<noteq> 0 | _ \<Rightarrow> True) cs \<Longrightarrow> media_ok ps mp \<Longrightarrow>
   media_run cs ps mp = (ps', mp') \<Longrightarrow> media_ok ps' mp'"
proof (induction cs ps mp rule: media_run.induct)
  case (2 fork f cs ps mp)
  obtain r ps1 mp1 where "hub_media_player_play fork ps (Some mp) f = (r, ps1, Some mp1)" "media_ok ps1 mp1"
    using play_ok [of ps mp fork f] 2 by auto
  with 2 show ?case by simp
next
  case (3 cs ps mp)
  obtain ps1 mp1 where "hub_media_player_stop ps (Some mp) = (0, ps1, Some mp1)" "media_ok ps1 mp1"
    using stop_none 3 by blast
  with 3 show ?case by simp
next
  case (4 pid cs ps mp)
  have "media_ok (child_exits pid ps) mp"
    using 4(3) by (auto simp: media_ok_def child_exits_def split: if_splits)
  with 4 show ?case by simp
qed simp

text \<open>C33. Through any plays, stops and exits of children the hub never has more than one player process,
  running or waiting to be reaped; a play that succeeds leaves exactly that file playing, and a stop
  or the shutdown leaves no process behind.\<close>

theorem media_one_player:
  assumes "list_all (\<lambda>c. case c of Play fork _ \<Rightarrow> fork \<noteq> 0 | _ \<Rightarrow> True) cs"
    and "hub_media_player_init (Some mp0) default_file = (0, Some mp1)"
    and "media_run cs \<lparr>pr_running = [], pr_exited = []\<rparr> mp1 = (ps, mp)"
  shows "length (pr_running ps) + length (pr_exited ps) \<le> 1 \<and>
    (fork \<noteq> 0 \<longrightarrow> (\<exists>r ps' mp'. hub_media_player_play fork ps (Some mp) (Some (c # file)) = (r, ps', Some mp') \<and>
       (r = 0 \<longrightarrow> pr_running ps' = [(fork, c # file)] \<and> pr_exited ps' = []))) \<and>
    (\<exists>mp'. hub_media_player_deinit ps (Some mp) = (\<lparr>pr_running = [], pr_exited = []\<rparr>, Some mp'))"
proof -
  have "mp_pid mp1 = - 1" using assms(2) by (auto simp: hub_media_player_init_def)
  then have "media_ok \<lparr>pr_running = [], pr_exited = []\<rparr> mp1" by (simp add: media_ok_def)
  from media_run_ok [OF assms(1) this assms(3)] have ok: "media_ok ps mp" .
  obtain ps' mp' where s: "hub_media_player_stop ps (Some mp) = (0, ps', Some mp')" "pr_running ps' = []"
      "pr_exited ps' = []"
    using stop_none [OF ok] by blast
  then have "ps' = \<lparr>pr_running = [], pr_exited = []\<rparr>" by simp
  then have "hub_media_player_deinit ps (Some mp) = (\<lparr>pr_running = [], pr_exited = []\<rparr>, Some mp')"
    using s(1) by (simp add: hub_media_player_deinit_def)
  moreover have "length (pr_running ps) + length (pr_exited ps) \<le> 1"
    using ok by (auto simp: media_ok_def split: if_splits)
  moreover have "\<exists>r ps' mp'. hub_media_player_play fork ps (Some mp) (Some (c # file)) = (r, ps', Some mp') \<and>
       (r = 0 \<longrightarrow> pr_running ps' = [(fork, c # file)] \<and> pr_exited ps' = [])" if f: "fork \<noteq> 0"
    using play_ok [OF ok f, of "Some (c # file)"] by (auto simp: media_ok_def split: if_splits)
  ultimately show ?thesis by blast
qed

theorem media_one_player_witness:
  "\<exists>mp1 ps mp. hub_media_player_init (Some \<lparr>mp_pid = 0, mp_default_file = []\<rparr>) (Some ''/root/a.wav'') = (0, Some mp1) \<and>
     media_run [Play 41 NULL, Play 42 (Some ''b.wav''), ChildExits 42] \<lparr>pr_running = [], pr_exited = []\<rparr> mp1 = (ps, mp) \<and>
     length (pr_running ps) + length (pr_exited ps) \<le> 1"
proof -
  obtain mp1 where i: "hub_media_player_init (Some \<lparr>mp_pid = 0, mp_default_file = []\<rparr>) (Some ''/root/a.wav'') = (0, Some mp1)"
    by (simp add: hub_media_player_init_def)
  obtain ps mp where r: "media_run [Play 41 NULL, Play 42 (Some ''b.wav''), ChildExits 42]
      \<lparr>pr_running = [], pr_exited = []\<rparr> mp1 = (ps, mp)" by fastforce
  have "list_all (\<lambda>c. case c of Play fork _ \<Rightarrow> fork \<noteq> 0 | _ \<Rightarrow> True) [Play 41 NULL, Play 42 (Some ''b.wav''), ChildExits 42]"
    by simp
  from media_one_player [OF this i r] i r show ?thesis by blast
qed

end
