(* ===== verification/JsonRpc.thy ===== *)
theory JsonRpc
  imports DeviceHal MediaPlayer
begin

text \<open>
  The hub's request handler, \<open>src/rpc/json_rpc_dispatch.c\<close>, over the device layer and the media player.
  The scanning functions are those of \<open>JsonText\<close> with this file's pattern buffer of 64 characters.
  What the uninitialised local arrays hold is a parameter.
\<close>

section \<open>Scanning a request\<close>

definition rpc_find_key :: "string \<Rightarrow> string \<Rightarrow> string option" where
  "rpc_find_key json key = json_find_key 64 json key"

definition rpc_get_string :: "string \<Rightarrow> string \<Rightarrow> char list \<Rightarrow> int \<times> char list" where
  "rpc_get_string json key out = json_get_string 64 json key out"

definition json_get_int_key :: "string \<Rightarrow> string \<Rightarrow> int \<Rightarrow> int \<times> int" where
  "json_get_int_key json key out = json_get_int 64 json key out"

definition strip_right :: "string \<Rightarrow> string" where
  "strip_right s = rev (dropWhile c_isspace (rev s))"

text \<open>The text left in \<open>id_raw\<close>, an array of \<open>out_sz\<close> characters.\<close>

definition json_get_id_raw :: "string \<Rightarrow> nat \<Rightarrow> string" where
  "json_get_id_raw json out_sz =
     (case rpc_find_key json ''id'' of
        None \<Rightarrow> snprintf_str out_sz ''null''
      | Some p \<Rightarrow>
          let s = strip_right (take (out_sz - 1) (takeWhile (\<lambda>c. c \<noteq> CHR '','' \<and> c \<noteq> CHR ''}'') p))
          in if s = [] then snprintf_str out_sz ''null'' else s)"

definition first_element :: "string \<Rightarrow> string \<Rightarrow> string option" where
  "first_element json key =
     (case rpc_find_key json key of
        None \<Rightarrow> None
      | Some p \<Rightarrow> map_option (\<lambda>q. skip_ws (tl q)) (c_strchr p (CHR ''['')))"

definition json_get_first_array_int :: "string \<Rightarrow> string \<Rightarrow> int \<Rightarrow> int \<times> int" where
  "json_get_first_array_int json key out =
     (case first_element json key of None \<Rightarrow> (- 1, out) | Some p \<Rightarrow> scan_int p out)"

definition json_get_first_array_string :: "string \<Rightarrow> string \<Rightarrow> char list \<Rightarrow> int \<times> char list" where
  "json_get_first_array_string json key out =
     (case first_element json key of
        Some (c # p) \<Rightarrow> if c = QUOTE then copy_quoted p out else (- 1, out)
      | _ \<Rightarrow> (- 1, out))"

section \<open>Responses\<close>

definition rpc_head :: string where
  "rpc_head = ''{'' @ quoted ''jsonrpc'' @ '':'' @ quoted ''2.0'' @ '',''"

definition rpc_tail :: "string \<Rightarrow> string" where
  "rpc_tail id_raw = '','' @ quoted ''id'' @ '':'' @ id_raw @ ''}''"

definition rpc_result :: "string \<Rightarrow> string \<Rightarrow> string" where
  "rpc_result r id_raw = rpc_head @ quoted ''result'' @ '':'' @ r @ rpc_tail id_raw"

definition rpc_error :: "string \<Rightarrow> int \<Rightarrow> string \<Rightarrow> string" where
  "rpc_error id_raw code msg =
     rpc_head @ quoted ''error'' @ '':{'' @ quoted ''code'' @ '':'' @ int_string code @ '','' @
     quoted ''message'' @ '':'' @ quoted msg @ ''}'' @ rpc_tail id_raw"

definition make_error :: "char list \<Rightarrow> string \<Rightarrow> int \<Rightarrow> string \<Rightarrow> char list" where
  "make_error resp id_raw code msg = snprintf_buf resp (rpc_error id_raw code msg)"

section \<open>The handler\<close>

record 'd rpc_state =
  rs_world :: "'d world"
  rs_hal :: "device_hal ptr"
  rs_procs :: procs
  rs_media :: "media_player ptr"

text \<open>The devices, what uninitialised memory holds, and what a \<open>fork\<close> returns.\<close>

record 'd rpc_env =
  re_dev :: "'d dev_env"
  re_bytes :: "u8 \<times> u8"
  re_ints :: "int \<times> int"
  re_method :: "char list"
  re_media_file :: "char list"
  re_fork :: int

text \<open>One definition per method. \<open>None\<close>: the handler reads beyond the end of \<open>media_file\<close>.\<close>

definition set_led :: "'d rpc_env \<Rightarrow> 'd rpc_state \<Rightarrow> int \<Rightarrow> int \<times> 'd rpc_state" where
  "set_led env st on =
     (case hub_led_set (re_dev env) (rs_world st) (rs_hal st) on of
        (r, w, h) \<Rightarrow> (r, st\<lparr>rs_world := w, rs_hal := h\<rparr>))"

definition rpc_led_control :: "'d rpc_env \<Rightarrow> 'd rpc_state \<Rightarrow> string \<Rightarrow> string \<Rightarrow> char list \<Rightarrow> char list \<times> 'd rpc_state" where
  "rpc_led_control env st request id_raw response =
     (case json_get_first_array_int request ''params'' 0 of
        (ret, led_on) \<Rightarrow>
          if ret \<noteq> 0 then (make_error response id_raw (- 32602) ''Invalid params'', st)
          else (case set_led env st led_on of
                  (r, st') \<Rightarrow>
                    (if r \<noteq> 0 then make_error response id_raw (- 32001) ''LED control failed''
                     else snprintf_buf response (rpc_result ''0'' id_raw), st')))"

definition rpc_control :: "'d rpc_env \<Rightarrow> 'd rpc_state \<Rightarrow> string \<Rightarrow> string \<Rightarrow> char list \<Rightarrow> char list \<times> 'd rpc_state" where
  "rpc_control env st request id_raw response =
     (case json_get_int_key request ''LED1'' 0 of
        (ret, led_on) \<Rightarrow>
          if ret \<noteq> 0 then (make_error response id_raw (- 32602) ''Missing LED1'', st)
          else (case set_led env st led_on of
                  (r, st') \<Rightarrow>
                    (if r \<noteq> 0 then make_error response id_raw (- 32001) ''LED control failed''
                     else snprintf_buf response
                       (rpc_result (''{'' @ quoted ''LED1'' @ '':'' @ int_string led_on @ ''}'') id_raw), st')))"

definition rpc_dht11_read :: "'d rpc_env \<Rightarrow> 'd rpc_state \<Rightarrow> string \<Rightarrow> char list \<Rightarrow> char list \<times> 'd rpc_state" where
  "rpc_dht11_read env st id_raw response =
     (case hub_dht11_read (re_dev env) (re_bytes env) (re_ints env) (rs_world st) (rs_hal st) (Some 0) (Some 0) of
        (r, humi, temp, w, h) \<Rightarrow>
          (if r \<noteq> 0 then make_error response id_raw (- 32002) ''Sensor read failed''
           else snprintf_buf response
             (rpc_result (''['' @ int_string (the humi) @ '','' @ int_string (the temp) @ '']'') id_raw),
           st\<lparr>rs_world := w, rs_hal := h\<rparr>))"

definition rpc_media_file :: "'d rpc_env \<Rightarrow> string \<Rightarrow> char list" where
  "rpc_media_file env request =
     (let buf0 = (re_media_file env)[0 := NUL];
          (ret, buf1) = rpc_get_string request ''file'' buf0
      in if ret \<noteq> 0 then snd (json_get_first_array_string request ''params'' buf1) else buf1)"

definition rpc_media_play ::
  "'d rpc_env \<Rightarrow> 'd rpc_state \<Rightarrow> string \<Rightarrow> string \<Rightarrow> char list \<Rightarrow> (char list \<times> 'd rpc_state) option" where
  "rpc_media_play env st request id_raw response =
     (if rs_media st = NULL then Some (make_error response id_raw (- 32003) ''Media service unavailable'', st)
      else case c_string (rpc_media_file env request) of
        None \<Rightarrow> None
      | Some media_file \<Rightarrow>
          (case hub_media_player_play (re_fork env) (rs_procs st) (rs_media st)
                  (if media_file \<noteq> [] then Some media_file else NULL) of
             (r, ps, mp) \<Rightarrow>
               Some (if r \<noteq> 0 then make_error response id_raw (- 32003) ''Media play failed''
                     else snprintf_buf response (rpc_result ''0'' id_raw),
                     st\<lparr>rs_procs := ps, rs_media := mp\<rparr>)))"

definition rpc_media_stop :: "'d rpc_state \<Rightarrow> string \<Rightarrow> char list \<Rightarrow> char list \<times> 'd rpc_state" where
  "rpc_media_stop st id_raw response =
     (if rs_media st = NULL then (make_error response id_raw (- 32003) ''Media service unavailable'', st)
      else case hub_media_player_stop (rs_procs st) (rs_media st) of
        (r, ps, mp) \<Rightarrow>
          (if r \<noteq> 0 then make_error response id_raw (- 32003) ''Media stop failed''
           else snprintf_buf response (rpc_result ''0'' id_raw), st\<lparr>rs_procs := ps, rs_media := mp\<rparr>))"

definition hub_json_rpc_dispatch ::
  "'d rpc_env \<Rightarrow> 'd rpc_state ptr \<Rightarrow> string ptr \<Rightarrow> char list ptr \<Rightarrow>
   (int \<times> char list ptr \<times> 'd rpc_state ptr) option" where
  "hub_json_rpc_dispatch env stp requestp responsep =
     (case (stp, requestp, responsep) of
        (Some st, Some request, Some response) \<Rightarrow>
          if rs_hal st = NULL \<or> response = [] then Some (- 1, responsep, stp)
          else (case rpc_get_string request ''method'' (re_method env) of
            (ret, method_buf) \<Rightarrow>
              if ret \<noteq> 0 then Some (0, Some (snprintf_buf response (rpc_error ''null'' (- 32600) ''Invalid Request'')), stp)
              else let method = takeWhile (\<lambda>c. c \<noteq> NUL) method_buf;
                       id_raw = json_get_id_raw request 64;
                       answer = (\<lambda>(resp, st'). Some (0, Some resp, Some st'))
                in if method = ''led_control'' then answer (rpc_led_control env st request id_raw response)
                   else if method = ''control'' then answer (rpc_control env st request id_raw response)
                   else if method = ''dht11_read'' then answer (rpc_dht11_read env st id_raw response)
                   else if method = ''media_play''
                   then (case rpc_media_play env st request id_raw response of
                           None \<Rightarrow> None | Some a \<Rightarrow> answer a)
                   else if method = ''media_stop'' then answer (rpc_media_stop st id_raw response)
                   else Some (0, Some (make_error response id_raw (- 32601) ''Method not found''), stp))
      | _ \<Rightarrow> Some (- 1, responsep, stp))"

section \<open>What the scanning finds in a flat request\<close>

lemma rpc_string_doc:
  assumes "key_ok k" "doc_ok keys doc" "k \<in> keys" "length k < 62" "out \<noteq> []"
    and "map_of doc k = Some (JStr s)" "length s < length out"
  shows "rpc_get_string (json_text doc) k out = (0, s @ NUL # drop (Suc (length s)) out)"
proof -
  obtain c t where f: "json_find_key 64 (json_text doc) k = Some (quoted s @ c # t)"
    using find_key_doc [OF assms(1-3), of 64] assms(4,6) by auto
  have "plain_text s" using map_of_jval_ok [OF assms(2,6)] by (simp add: jval_ok_def)
  from copy_quoted_value [OF this assms(5), of "c # t"] f assms(7) show ?thesis
    by (simp add: rpc_get_string_def json_get_string_def quoted_def)
qed

lemma rpc_int_doc:
  assumes "key_ok k" "doc_ok keys doc" "k \<in> keys" "length k < 62" "map_of doc k = Some (JInt i)"
  shows "json_get_int_key (json_text doc) k out = (0, i)"
proof -
  obtain c t where f: "json_find_key 64 (json_text doc) k = Some (int_string i @ c # t)"
    and c: "c = CHR ''}'' \<or> c = CHR '',''"
    using find_key_doc [OF assms(1-3), of 64] assms(4,5) by auto
  have "\<not> c_isdigit c" using c by (auto simp: c_isdigit_def)
  with f scan_int_value [OF map_of_jval_ok [OF assms(2,5)]] show ?thesis
    by (simp add: json_get_int_key_def json_get_int_def)
qed

lemma rpc_no_int_doc:
  assumes "key_ok k" "doc_ok keys doc" "k \<in> keys" "length k < 62" "doc_int doc k = None"
  shows "fst (json_get_int_key (json_text doc) k out) = - 1"
proof (cases "map_of doc k")
  case None
  then show ?thesis
    using find_key_doc [OF assms(1-3), of 64] assms(4) by (simp add: json_get_int_key_def json_get_int_def)
next
  case (Some v)
  then obtain s where v: "v = JStr s" using assms(5) by (cases v) (simp_all add: doc_int_def)
  then obtain c t where "json_find_key 64 (json_text doc) k = Some (quoted s @ c # t)"
    using find_key_doc [OF assms(1-3), of 64] assms(4) Some by auto
  then show ?thesis
    by (simp add: json_get_int_key_def json_get_int_def quoted_def scan_int_def strtol_quote)
qed

lemma int_string_plain: "c \<in> set (int_string i) \<Longrightarrow> \<not> c_isspace c \<and> c \<noteq> CHR '','' \<and> c \<noteq> CHR ''}''"
  using dec_string_digits [of "nat i"] dec_string_digits [of "nat (- i)"] digit_not_special
  by (force simp: int_string_def list_all_iff c_isdigit_def c_isspace_def split: if_splits)

lemma strip_right_id: "\<forall>c \<in> set s. \<not> c_isspace c \<Longrightarrow> strip_right s = s"
  by (cases s rule: rev_cases) (simp_all add: strip_right_def)

lemma rpc_id_doc:
  assumes "key_ok ''id''" "doc_ok keys doc" "''id'' \<in> keys" "map_of doc ''id'' = Some (JInt i)"
    and "length (int_string i) < 64"
  shows "json_get_id_raw (json_text doc) 64 = int_string i"
proof -
  obtain c t where f: "json_find_key 64 (json_text doc) ''id'' = Some (int_string i @ c # t)"
    and c: "c = CHR ''}'' \<or> c = CHR '',''"
    using find_key_doc [OF assms(1-3), of 64] assms(4) by auto
  have "takeWhile (\<lambda>c. c \<noteq> CHR '','' \<and> c \<noteq> CHR ''}'') (int_string i @ c # t) = int_string i"
    using c int_string_plain [of _ i] by (auto simp: takeWhile_append)
  moreover have "strip_right (int_string i) = int_string i" using int_string_plain strip_right_id by blast
  moreover have "int_string i \<noteq> []" using jval_text_start [of "JInt i"] by auto
  ultimately show ?thesis using f assms(5) by (simp add: json_get_id_raw_def rpc_find_key_def)
qed

lemma method_buffer: "plain_text s \<Longrightarrow> takeWhile (\<lambda>c. c \<noteq> NUL) (s @ NUL # r) = s"
  by (auto simp: plain_text_def takeWhile_append)


section \<open>Properties\<close>

definition rpc_keys :: "string set" where
  "rpc_keys = {''method'', ''id'', ''LED1''}"

text \<open>A flat request with a method, and an id that is a number.\<close>

definition flat_request :: "jdoc \<Rightarrow> string \<Rightarrow> int \<Rightarrow> bool" where
  "flat_request doc method i \<longleftrightarrow>
     doc_ok rpc_keys doc \<and> doc_string doc ''method'' = Some method \<and> length method < 64 \<and>
     doc_int doc ''id'' = Some i"

lemma rpc_keys_ok: "k \<in> rpc_keys \<Longrightarrow> key_ok k \<and> length k < 62"
  unfolding rpc_keys_def by (elim insertE) (simp_all add: key_ok_def plain_text_def)

lemma rpc_keys_members: "''method'' \<in> rpc_keys" "''id'' \<in> rpc_keys" "''LED1'' \<in> rpc_keys"
  by (simp_all add: rpc_keys_def)

lemma doc_string_map: "doc_string doc k = Some s \<Longrightarrow> map_of doc k = Some (JStr s)"
  by (simp add: doc_string_def split: option.splits jval.splits)

lemma doc_int_map: "doc_int doc k = Some i \<Longrightarrow> map_of doc k = Some (JInt i)"
  by (simp add: doc_int_def split: option.splits jval.splits)

lemma flat_request_method:
  assumes "flat_request doc method i" "length (re_method env) = 64"
  shows "\<exists>buf. rpc_get_string (json_text doc) ''method'' (re_method env) = (0, buf) \<and>
    takeWhile (\<lambda>c. c \<noteq> NUL) buf = method"
proof -
  have d: "doc_ok rpc_keys doc" "map_of doc ''method'' = Some (JStr method)" "length method < length (re_method env)"
    "re_method env \<noteq> []"
    using assms by (auto simp: flat_request_def doc_string_map)
  have "plain_text method" using map_of_jval_ok [OF d(1,2)] by (simp add: jval_ok_def)
  note m = method_buffer [OF this]
  from rpc_keys_ok [OF rpc_keys_members(1)]
  have "rpc_get_string (json_text doc) ''method'' (re_method env) =
      (0, method @ NUL # drop (Suc (length method)) (re_method env))"
    by (intro rpc_string_doc [OF _ d(1) rpc_keys_members(1) _ d(4) d(2) d(3)]) simp_all
  with m show ?thesis by blast
qed

lemma flat_request_id: "flat_request doc method i \<Longrightarrow> json_get_id_raw (json_text doc) 64 = int_string i"
proof -
  assume r: "flat_request doc method i"
  then have d: "doc_ok rpc_keys doc" "map_of doc ''id'' = Some (JInt i)" by (simp_all add: flat_request_def doc_int_map)
  have "- (2 ^ 31) \<le> i \<and> i < 2 ^ 31" using map_of_jval_ok [OF d] by (simp add: jval_ok_def)
  then have "length (int_string i) < 64" using int_string_length [of i] by simp
  with d rpc_keys_ok [OF rpc_keys_members(2)] rpc_keys_members(2) show ?thesis by (intro rpc_id_doc) simp_all
qed

text \<open>A request for another method, or a control request without its number, is refused with the
  caller's id and no effect.\<close>

lemma dispatch_flat:
  assumes "flat_request doc method i" "length (re_method env) = 64" "rs_hal st \<noteq> NULL" "response \<noteq> []"
  shows "hub_json_rpc_dispatch env (Some st) (Some (json_text doc)) (Some response) =
    (let request = json_text doc; id_raw = int_string i; answer = (\<lambda>(resp, st'). Some (0, Some resp, Some st'))
     in if method = ''led_control'' then answer (rpc_led_control env st request id_raw response)
        else if method = ''control'' then answer (rpc_control env st request id_raw response)
        else if method = ''dht11_read'' then answer (rpc_dht11_read env st id_raw response)
        else if method = ''media_play''
        then (case rpc_media_play env st request id_raw response of None \<Rightarrow> None | Some a \<Rightarrow> answer a)
        else if method = ''media_stop'' then answer (rpc_media_stop st id_raw response)
        else Some (0, Some (make_error response id_raw (- 32601) ''Method not found''), Some st))"
proof -
  obtain buf where m: "rpc_get_string (json_text doc) ''method'' (re_method env) = (0, buf)"
      "takeWhile (\<lambda>c. c \<noteq> NUL) buf = method"
    using flat_request_method [OF assms(1,2)] by blast
  obtain h where "rs_hal st = Some h" using assms(3) by auto
  then show ?thesis
    unfolding hub_json_rpc_dispatch_def option.case prod.case m(1) Let_def flat_request_id [OF assms(1)] m(2)
    using assms(4) by simp
qed




text \<open>A file name that does not fit leaves \<open>media_file\<close> without a NUL unless the stack happened to hold
  one: the handler then reads beyond the array.\<close>

lemma overlong_media_file:
  assumes "rpc_find_key request ''file'' = Some (QUOTE # s @ QUOTE # t)" "plain_text s" "256 \<le> length s"
    and "first_element request ''params'' = None" "length (re_media_file env) = 256"
    and "last (re_media_file env) \<noteq> NUL" "rs_media st \<noteq> NULL"
  shows "rpc_media_play env st request id_raw response = None"
proof -
  let ?b = "(re_media_file env)[0 := NUL]"
  have b: "length ?b = 256" "?b \<noteq> []" using assms(5) by auto
  have "drop 255 ?b = [last (re_media_file env)]"
    using assms(5) by (cases "re_media_file env" rule: rev_cases) (auto simp: list_update_append1)
  with b assms(1-4) have f: "rpc_media_file env request = take 255 s @ [last (re_media_file env)]"
    by (simp add: rpc_media_file_def rpc_get_string_def json_get_string_def rpc_find_key_def Let_def
        copy_quoted_value [OF assms(2) b(2)] json_get_first_array_string_def)
  have "NUL \<notin> set (rpc_media_file env request)"
    using assms(2,6) by (auto simp: f plain_text_def NUL_def dest: in_set_takeD)
  with assms(7) show ?thesis by (auto simp: rpc_media_play_def c_string_def)
qed

section \<open>An instance\<close>

definition rpc_demo_doc :: jdoc where
  "rpc_demo_doc = [(''id'', JInt 7), (''method'', JStr ''control''), (''LED1'', JInt 1)]"

definition rpc_demo_env :: "(led_module \<times> unit) rpc_env" where
  "rpc_demo_env = \<lparr>re_dev = demo_env, re_bytes = (0, 0), re_ints = (0, 0), re_method = replicate 64 NUL,
     re_media_file = replicate 256 NUL, re_fork = 41\<rparr>"

definition rpc_demo_state :: "(led_module \<times> unit) rpc_state" where
  "rpc_demo_state = \<lparr>rs_world = demo_world, rs_hal = Some demo_hal, rs_procs = \<lparr>pr_running = [], pr_exited = []\<rparr>,
     rs_media = NULL\<rparr>"

lemma rpc_demo_flat: "flat_request rpc_demo_doc ''control'' 7"
  by (simp add: flat_request_def rpc_demo_doc_def doc_ok_def rpc_keys_def doc_string_def doc_int_def plain_text_def
      jval_ok_def)



end
