(* ===== verification/MqttService.thy ===== *)
theory MqttService
  imports JsonRpc
begin

text \<open>
  The hub's MQTT service, \<open>src/mqtt/mqtt_service.c\<close>, in its build with the Paho client and, in a
  section of its own, without it: connecting with
  a growing delay, the periodic sensor report, requests and their responses. The client library is
  not part of the sources: the return code of each of its calls is a parameter, and the calls the
  service makes are a trace of events.
\<close>

section \<open>State\<close>

definition MQTTCLIENT_SUCCESS :: int where
  "MQTTCLIENT_SUCCESS = 0"

record mqtt_impl =
  mi_client_created :: int
  mi_connected :: int
  mi_reconnect_backoff :: int
  mi_last_report_ms :: u64

record mqtt_service =
  mq_config :: hub_config
  mq_thread :: bool
  mq_running :: int
  mq_impl :: "mqtt_impl ptr"

text \<open>The calls into the client library, with the arguments that matter, and the sleeps.\<close>

datatype mqtt_event =
  Create string string | SetCallbacks | Destroy
  | Connect int "string ptr" "string ptr" bool | Subscribe string int | Disconnect
  | Publish string string int | WaitCompletion | Yield | SleepSec int | SleepMs int

definition clamp_qos :: "int \<Rightarrow> int \<Rightarrow> int" where
  "clamp_qos qos fallback = (if qos < 0 \<or> 2 < qos then fallback else qos)"

text \<open>\<open>now_ms\<close>: from the seconds and nanoseconds of the monotonic clock.\<close>

definition now_ms :: "u64 \<times> u64 \<Rightarrow> u64" where
  "now_ms ts = fst ts * 1000 + snd ts div 1000000"

section \<open>Publishing\<close>

definition hub_mqtt_service_publish ::
  "int \<Rightarrow> mqtt_service ptr \<Rightarrow> string ptr \<Rightarrow> string ptr \<Rightarrow> int \<Rightarrow> int \<times> mqtt_service ptr \<times> mqtt_event list" where
  "hub_mqtt_service_publish rc svcp topicp payloadp qos =
     (case (svcp, topicp, payloadp) of
        (Some svc, Some topic, Some payload) \<Rightarrow>
          (case mq_impl svc of
             None \<Rightarrow> (- 1, svcp, [])
           | Some impl \<Rightarrow>
               if mi_connected impl = 0 then (- 1, svcp, [])
               else let q = (if qos < 0 then 0 else if 2 < qos then 2 else qos)
               in if rc \<noteq> MQTTCLIENT_SUCCESS
                  then (- 1, Some (svc\<lparr>mq_impl := Some (impl\<lparr>mi_connected := 0\<rparr>)\<rparr>), [Publish topic payload q])
                  else (0, svcp, [Publish topic payload q, WaitCompletion]))
      | _ \<Rightarrow> (- 1, svcp, []))"

text \<open>The text of a report, printed into an array of 256 characters.\<close>

definition report_text :: "int \<Rightarrow> int \<Rightarrow> u64 \<Rightarrow> string" where
  "report_text temp humi now =
     ''{'' @ quoted ''method'' @ '':'' @ quoted ''report'' @ '','' @ quoted ''params'' @ '':{'' @
     quoted ''temp_value'' @ '':'' @ int_string temp @ '','' @ quoted ''humi_value'' @ '':'' @ int_string humi @ ''},'' @
     quoted ''timestamp'' @ '':'' @ dec_string (unat now) @ ''}''"

text \<open>The sensor's result is ignored: after a failed read both values are still 0.\<close>

definition report_payload ::
  "'d rpc_env \<Rightarrow> u64 \<Rightarrow> 'd world \<Rightarrow> device_hal ptr \<Rightarrow> string \<times> 'd world \<times> device_hal ptr" where
  "report_payload env now w halp =
     (let (humi, temp, w1, h1) =
            (if halp \<noteq> NULL
             then (case hub_dht11_read (re_dev env) (re_bytes env) (re_ints env) w halp (Some 0) (Some 0) of
                     (_, hp, tp, w1, h1) \<Rightarrow> (the hp, the tp, w1, h1))
             else (0, 0, w, halp))
      in (snprintf_str 256 (report_text temp humi now), w1, h1))"

definition publish_sensor_report ::
  "'d rpc_env \<Rightarrow> int \<Rightarrow> u64 \<Rightarrow> mqtt_service \<Rightarrow> 'd world \<Rightarrow> device_hal ptr \<Rightarrow>
   mqtt_service \<times> 'd world \<times> device_hal ptr \<times> mqtt_event list" where
  "publish_sensor_report env rc now svc w halp =
     (let (payload, w1, h1) = report_payload env now w halp;
          (_, svcp, es) = hub_mqtt_service_publish rc (Some svc) (Some (field_text (mqtt_topic_up (mq_config svc))))
                            (Some payload) (clamp_qos (mqtt_qos_report (mq_config svc)) 0)
      in (the svcp, w1, h1, es))"

section \<open>Connecting\<close>

record connect_rcs =
  rc_create :: int
  rc_callbacks :: int
  rc_connect :: int
  rc_subscribe :: int

definition client_address :: "hub_config \<Rightarrow> string" where
  "client_address cfg = snprintf_str 256 (''tcp://'' @ field_text (mqtt_host cfg) @ '':'' @ int_string (mqtt_port cfg))"

definition paho_prepare_client :: "connect_rcs \<Rightarrow> hub_config \<Rightarrow> mqtt_impl ptr \<Rightarrow> int \<times> mqtt_impl ptr \<times> mqtt_event list" where
  "paho_prepare_client rcs cfg implp =
     (case implp of
        None \<Rightarrow> (- 1, NULL, [])
      | Some impl \<Rightarrow>
          if mi_client_created impl \<noteq> 0 then (0, implp, [])
          else let create = Create (client_address cfg) (field_text (mqtt_client_id cfg))
          in if rc_create rcs \<noteq> MQTTCLIENT_SUCCESS then (- 1, implp, [])
          else if rc_callbacks rcs \<noteq> MQTTCLIENT_SUCCESS then (- 1, implp, [create, Destroy])
          else (0, Some (impl\<lparr>mi_client_created := 1\<rparr>), [create, SetCallbacks]))"

definition optional_text :: "char list \<Rightarrow> string ptr" where
  "optional_text buf = (if field_text buf = [] then NULL else Some (field_text buf))"

definition paho_connect_once :: "connect_rcs \<Rightarrow> hub_config \<Rightarrow> mqtt_impl ptr \<Rightarrow> int \<times> mqtt_impl ptr \<times> mqtt_event list" where
  "paho_connect_once rcs cfg implp =
     (case paho_prepare_client rcs cfg implp of
        (r, ip, es) \<Rightarrow>
          if r \<noteq> 0 then (- 1, ip, es)
          else let connect = Connect (mqtt_keepalive_sec cfg) (optional_text (mqtt_username cfg))
                               (optional_text (mqtt_password cfg)) (rc_connect rcs = MQTTCLIENT_SUCCESS);
                   subscribe = Subscribe (field_text (mqtt_topic_down cfg)) (clamp_qos (mqtt_qos_control cfg) 1)
          in if rc_connect rcs \<noteq> MQTTCLIENT_SUCCESS then (- 1, ip, es @ [connect])
          else if rc_subscribe rcs \<noteq> MQTTCLIENT_SUCCESS then (- 1, ip, es @ [connect, subscribe, Disconnect])
          else (0, Some ((the ip)\<lparr>mi_connected := 1\<rparr>), es @ [connect, subscribe]))"

section \<open>The service thread\<close>

text \<open>One turn of the loop: the return codes, whether \<open>MQTTClient_isConnected\<close>, the clock at its two
  readings, the wall clock of a report, and whether the library reports a lost connection during the
  turn's final sleep.\<close>

record turn_env =
  tn_connect :: connect_rcs
  tn_is_connected :: bool
  tn_publish :: int
  tn_now :: u64
  tn_now_after :: u64
  tn_time :: u64
  tn_lost :: bool

definition retry_delay :: "int \<Rightarrow> int" where
  "retry_delay backoff =
     (let delay = (if 0 < backoff then backoff else 1) in if 60 < delay then 60 else delay)"

definition next_backoff :: "int \<Rightarrow> int" where
  "next_backoff delay = (if delay < 32 then delay * 2 else 32)"

definition report_ms :: "hub_config \<Rightarrow> int" where
  "report_ms cfg = (if 0 < report_interval_sec cfg then c_int (report_interval_sec cfg * 1000) else 5000)"

definition paho_connlost :: "mqtt_service \<Rightarrow> mqtt_service" where
  "paho_connlost svc = svc\<lparr>mq_impl := map_option (\<lambda>i. i\<lparr>mi_connected := 0\<rparr>) (mq_impl svc)\<rparr>"

type_synonym 'd turn_state = "mqtt_service \<times> 'd world \<times> device_hal ptr"

text \<open>What follows the connection part: the report when it is due, and the sleep.\<close>

definition report_turn :: "'d rpc_env \<Rightarrow> turn_env \<Rightarrow> 'd turn_state \<Rightarrow> 'd turn_state \<times> mqtt_event list" where
  "report_turn env t ts =
     (case ts of (svc, w, halp) \<Rightarrow>
        let impl = the (mq_impl svc);
            (svc1, w1, h1, es) =
              (if c_int (uint (tn_now t - mi_last_report_ms impl)) \<ge> report_ms (mq_config svc)
               then (case publish_sensor_report env (tn_publish t) (tn_time t) svc w halp of
                       (s, w', h', es) \<Rightarrow>
                         (s\<lparr>mq_impl := map_option (\<lambda>i. i\<lparr>mi_last_report_ms := tn_now_after t\<rparr>) (mq_impl s)\<rparr>, w', h', es))
               else (svc, w, halp, []));
            svc2 = (if tn_lost t then paho_connlost svc1 else svc1)
        in ((svc2, w1, h1), es @ [SleepMs 100]))"

definition mqtt_turn :: "'d rpc_env \<Rightarrow> turn_env \<Rightarrow> 'd turn_state \<Rightarrow> 'd turn_state \<times> mqtt_event list" where
  "mqtt_turn env t ts =
     (case ts of (svc, w, halp) \<Rightarrow>
        let impl = the (mq_impl svc)
        in if mi_connected impl = 0 then
             (case paho_connect_once (tn_connect t) (mq_config svc) (Some impl) of
                (r, ip, es) \<Rightarrow>
                  if r \<noteq> 0
                  then let delay = retry_delay (mi_reconnect_backoff (the ip))
                       in ((svc\<lparr>mq_impl := Some ((the ip)\<lparr>mi_reconnect_backoff := next_backoff delay\<rparr>)\<rparr>, w, halp),
                           es @ [SleepSec delay])
                  else let b = (if 0 < mqtt_reconnect_sec (mq_config svc) then mqtt_reconnect_sec (mq_config svc) else 1);
                           (ts', es') = report_turn env t
                              (svc\<lparr>mq_impl := Some ((the ip)\<lparr>mi_reconnect_backoff := b\<rparr>)\<rparr>, w, halp)
                       in (ts', es @ es'))
           else if \<not> tn_is_connected t
           then ((svc\<lparr>mq_impl := Some (impl\<lparr>mi_connected := 0\<rparr>)\<rparr>, w, halp), [Yield])
           else (case report_turn env t (svc, w, halp) of (ts', es') \<Rightarrow> (ts', Yield # es')))"

definition thread_end :: "mqtt_impl \<Rightarrow> mqtt_impl \<times> mqtt_event list" where
  "thread_end impl =
     (if mi_client_created impl \<noteq> 0
      then (impl\<lparr>mi_connected := 0, mi_client_created := 0\<rparr>,
            (if mi_connected impl \<noteq> 0 then [Disconnect] else []) @ [Destroy])
      else (impl, []))"

fun mqtt_turns :: "'d rpc_env \<Rightarrow> turn_env list \<Rightarrow> 'd turn_state \<Rightarrow> 'd turn_state \<times> mqtt_event list" where
  "mqtt_turns env [] ts = (ts, [])"
| "mqtt_turns env (t # rest) ts =
     (case mqtt_turn env t ts of
        (ts1, es1) \<Rightarrow> (case mqtt_turns env rest ts1 of (ts2, es2) \<Rightarrow> (ts2, es1 @ es2)))"

text \<open>The thread from \<open>start_ms\<close> on, for as many turns as the list has, until \<open>running\<close> is cleared.\<close>

definition mqtt_thread_main ::
  "'d rpc_env \<Rightarrow> u64 \<Rightarrow> turn_env list \<Rightarrow> 'd turn_state \<Rightarrow> 'd turn_state \<times> mqtt_event list" where
  "mqtt_thread_main env start_ms turns ts =
     (case ts of (svc, w, halp) \<Rightarrow>
        let svc0 = svc\<lparr>mq_impl := map_option (\<lambda>i. i\<lparr>mi_last_report_ms := start_ms\<rparr>) (mq_impl svc)\<rparr>
        in (case mqtt_turns env turns (svc0, w, halp) of
              ((svc1, w1, h1), es1) \<Rightarrow>
                (case thread_end (the (mq_impl svc1)) of
                   (impl, es2) \<Rightarrow> ((svc1\<lparr>mq_impl := Some impl\<rparr>, w1, h1), es1 @ es2))))"

section \<open>Start and stop\<close>

definition hub_mqtt_service_start :: "bool \<Rightarrow> bool \<Rightarrow> mqtt_service ptr \<Rightarrow> hub_config ptr \<Rightarrow> int \<times> mqtt_service ptr" where
  "hub_mqtt_service_start alloc_ok thread_ok svcp cfgp =
     (case (svcp, cfgp) of
        (Some _, Some cfg) \<Rightarrow>
          let svc = \<lparr>mq_config = cfg, mq_thread = False, mq_running = 0, mq_impl = NULL\<rparr>;
              impl = \<lparr>mi_client_created = 0, mi_connected = 0,
                      mi_reconnect_backoff = (if 0 < mqtt_reconnect_sec cfg then mqtt_reconnect_sec cfg else 1),
                      mi_last_report_ms = 0\<rparr>
          in if \<not> alloc_ok then (- 1, Some svc)
             else if \<not> thread_ok then (- 1, Some svc)
             else (0, Some (svc\<lparr>mq_impl := Some impl, mq_running := 1, mq_thread := True\<rparr>))
      | _ \<Rightarrow> (- 1, svcp))"

definition hub_mqtt_service_stop :: "mqtt_service ptr \<Rightarrow> mqtt_service ptr" where
  "hub_mqtt_service_stop svcp =
     (case svcp of
        None \<Rightarrow> NULL
      | Some svc \<Rightarrow>
          if mq_impl svc = NULL then svcp
          else Some (svc\<lparr>mq_running := 0, mq_thread := False, mq_impl := NULL\<rparr>))"

section \<open>A request arrives\<close>

text \<open>The callback of the library: \<open>cb\<close> is the service's message handler on its own state; \<open>None\<close> when
  it does not return. The payload is text up to its first NUL.\<close>

definition paho_msgarrvd ::
  "(string \<Rightarrow> string \<Rightarrow> char list \<Rightarrow> 's \<Rightarrow> (int \<times> char list \<times> 's) option) ptr \<Rightarrow> bool \<Rightarrow> int \<Rightarrow> mqtt_service \<Rightarrow> 's \<Rightarrow>
   string ptr \<Rightarrow> char list \<Rightarrow> (mqtt_service \<times> 's \<times> mqtt_event list) option" where
  "paho_msgarrvd cbp alloc_ok rc svc s topicName message =
     (case cbp of
        None \<Rightarrow> Some (svc, s, [])
      | Some cb \<Rightarrow>
          if \<not> alloc_ok then Some (svc, s, [])
          else (case cb (case topicName of None \<Rightarrow> [] | Some t \<Rightarrow> t) (takeWhile (\<lambda>c. c \<noteq> NUL) message)
                        (replicate 512 NUL) s of
             None \<Rightarrow> None
           | Some (response_len, response, s') \<Rightarrow>
               if 0 \<le> response_len \<and> response ! 0 \<noteq> NUL
               then (case hub_mqtt_service_publish rc (Some svc) (Some (field_text (mqtt_topic_resp (mq_config svc))))
                             (Some (field_text response)) (clamp_qos (mqtt_qos_response (mq_config svc)) 1) of
                       (_, svcp, es) \<Rightarrow> Some (the svcp, s', es))
               else Some (svc, s', [])))"


section \<open>The build without the client\<close>

text \<open>Without the library a publication is a line of the log: its topic and its payload.\<close>

definition mock_publish :: "mqtt_service ptr \<Rightarrow> string ptr \<Rightarrow> string ptr \<Rightarrow> int \<times> (string \<times> string) list" where
  "mock_publish svcp topicp payloadp =
     (case (svcp, topicp, payloadp) of
        (Some _, Some topic, Some payload) \<Rightarrow> (0, [(topic, payload)])
      | _ \<Rightarrow> (- 1, []))"

text \<open>A turn of its thread, which only reports.\<close>

definition mock_turn :: "'d rpc_env \<Rightarrow> turn_env \<Rightarrow> 'd turn_state \<Rightarrow> 'd turn_state \<times> (string \<times> string) list" where
  "mock_turn env t ts =
     (case ts of (svc, w, halp) \<Rightarrow>
        let impl = the (mq_impl svc)
        in if c_int (uint (tn_now t - mi_last_report_ms impl)) \<ge> report_ms (mq_config svc)
           then (case report_payload env (tn_time t) w halp of
                   (payload, w1, h1) \<Rightarrow>
                     ((svc\<lparr>mq_impl := Some (impl\<lparr>mi_last_report_ms := tn_now_after t\<rparr>)\<rparr>, w1, h1),
                      snd (mock_publish (Some svc) (Some (field_text (mqtt_topic_up (mq_config svc)))) (Some payload))))
           else (ts, []))"

text \<open>It logs what the other build publishes while it is connected.\<close>

definition published :: "mqtt_event list \<Rightarrow> (string \<times> string) list" where
  "published es = concat (map (\<lambda>e. case e of Publish topic payload _ \<Rightarrow> [(topic, payload)] | _ \<Rightarrow> []) es)"

lemma mock_same_reports:
  assumes "mq_impl svc = Some impl" "mi_connected impl \<noteq> 0" "tn_publish t = MQTTCLIENT_SUCCESS" "\<not> tn_lost t"
    and "report_turn env t (svc, w, halp) = (ts, es)"
  shows "mock_turn env t (svc, w, halp) = (ts, published es)"
  using assms
  by (auto simp: mock_turn_def report_turn_def publish_sensor_report_def hub_mqtt_service_publish_def mock_publish_def
      published_def Let_def split: prod.splits if_splits)

section \<open>The client is used as it must be\<close>

text \<open>Reading a trace with what a client must have before each call: whether it exists, and whether a
  connection was made and not ended. \<open>None\<close>: a call out of order.\<close>

fun client_trace :: "mqtt_event list \<Rightarrow> bool \<times> bool \<Rightarrow> (bool \<times> bool) option" where
  "client_trace [] st = Some st"
| "client_trace (e # es) (created, session) =
     (case e of
        Create _ _ \<Rightarrow> if created then None else client_trace es (True, False)
      | SetCallbacks \<Rightarrow> if created then client_trace es (created, session) else None
      | Destroy \<Rightarrow> if created then client_trace es (False, False) else None
      | Connect _ _ _ ok \<Rightarrow> if created then client_trace es (created, ok) else None
      | Subscribe _ _ \<Rightarrow> if session then client_trace es (created, session) else None
      | Disconnect \<Rightarrow> if session then client_trace es (created, False) else None
      | Publish _ _ _ \<Rightarrow> if session then client_trace es (created, session) else None
      | WaitCompletion \<Rightarrow> if session then client_trace es (created, session) else None
      | Yield \<Rightarrow> if created then client_trace es (created, session) else None
      | _ \<Rightarrow> client_trace es (created, session))"

lemma client_trace_append:
  "client_trace (xs @ ys) st = (case client_trace xs st of None \<Rightarrow> None | Some st' \<Rightarrow> client_trace ys st')"
proof (induction xs arbitrary: st)
  case (Cons x xs)
  then show ?case by (cases st) (simp split: mqtt_event.split)
qed simp

definition impl_state :: "mqtt_impl \<Rightarrow> bool \<times> bool \<Rightarrow> bool" where
  "impl_state impl st \<longleftrightarrow> fst st = (mi_client_created impl \<noteq> 0) \<and> (snd st \<longrightarrow> fst st) \<and>
     (mi_connected impl \<noteq> 0 \<longrightarrow> snd st)"

definition svc_state :: "mqtt_service \<Rightarrow> bool \<times> bool \<Rightarrow> bool" where
  "svc_state svc st \<longleftrightarrow> (\<exists>impl. mq_impl svc = Some impl \<and> impl_state impl st)"

lemma connect_trace:
  assumes "impl_state impl st" "paho_connect_once rcs cfg (Some impl) = (r, ip, es)"
  shows "\<exists>st' impl'. ip = Some impl' \<and> client_trace es st = Some st' \<and> fst st' = (mi_client_created impl' \<noteq> 0) \<and>
    (snd st' \<longrightarrow> fst st') \<and> mi_reconnect_backoff impl' = mi_reconnect_backoff impl \<and>
    (if r = 0 then mi_connected impl' \<noteq> 0 \<and> st' = (True, True) else mi_connected impl' = mi_connected impl)"
  using assms
  by (cases st)
     (auto simp: paho_connect_once_def paho_prepare_client_def impl_state_def Let_def split: if_splits)

lemma publish_trace:
  assumes "svc_state svc st"
    and "hub_mqtt_service_publish rc (Some svc) (Some topic) (Some payload) qos = (r, svcp, es)"
  shows "\<exists>svc'. svcp = Some svc' \<and> client_trace es st = Some st \<and> svc_state svc' st \<and> mq_config svc' = mq_config svc"
  using assms
  by (cases st) (auto simp: hub_mqtt_service_publish_def svc_state_def impl_state_def Let_def split: if_splits)

lemma report_trace:
  assumes "svc_state svc st" "report_turn env t (svc, w, halp) = ((svc', w', halp'), es)"
  shows "client_trace es st = Some st \<and> svc_state svc' st"
proof -
  define due where "due = (c_int (uint (tn_now t - mi_last_report_ms (the (mq_impl svc)))) \<ge> report_ms (mq_config svc))"
  have sleep: "client_trace (xs @ [SleepMs 100]) st = Some st" if "client_trace xs st = Some st" for xs
    using that by (cases st) (simp add: client_trace_append)
  have lost: "svc_state (paho_connlost s) st" if "svc_state s st" for s
    using that by (auto simp: svc_state_def impl_state_def paho_connlost_def)
  have stamp: "svc_state (s\<lparr>mq_impl := map_option (\<lambda>i. i\<lparr>mi_last_report_ms := n\<rparr>) (mq_impl s)\<rparr>) st"
    if "svc_state s st" for s n
    using that by (auto simp: svc_state_def impl_state_def)
  show ?thesis
  proof (cases due)
    case False
    then show ?thesis
      using assms lost [OF assms(1)] sleep [of "[]"]
      by (auto simp: report_turn_def due_def Let_def split: if_splits)
  next
    case True
    obtain s1 w1 h1 es1 where p: "publish_sensor_report env (tn_publish t) (tn_time t) svc w halp = (s1, w1, h1, es1)"
      by (metis prod_cases4)
    have pub: "client_trace es1 st = Some st \<and> svc_state s1 st"
      using p publish_trace [OF assms(1)]
      by (fastforce simp: publish_sensor_report_def report_payload_def Let_def split: prod.splits)
    show ?thesis
      using assms(2) True pub sleep stamp [of s1] lost
      by (auto simp: report_turn_def due_def [symmetric] p Let_def split: if_splits)
  qed
qed

lemma turn_trace:
  assumes "svc_state svc st" "mqtt_turn env t (svc, w, halp) = ((svc', w', halp'), es)"
  shows "\<exists>st'. client_trace es st = Some st' \<and> svc_state svc' st'"
proof -
  obtain impl where impl: "mq_impl svc = Some impl" "impl_state impl st" using assms(1) by (auto simp: svc_state_def)
  consider (off) "mi_connected impl = 0" | (gone) "mi_connected impl \<noteq> 0" "\<not> tn_is_connected t"
    | (on) "mi_connected impl \<noteq> 0" "tn_is_connected t" by blast
  then show ?thesis
  proof cases
    case off
    obtain r ip es1 where c: "paho_connect_once (tn_connect t) (mq_config svc) (Some impl) = (r, ip, es1)"
      by (metis prod_cases3)
    obtain st1 impl1 where c1: "ip = Some impl1" "client_trace es1 st = Some st1" "fst st1 = (mi_client_created impl1 \<noteq> 0)"
        "snd st1 \<longrightarrow> fst st1"
        "if r = 0 then mi_connected impl1 \<noteq> 0 \<and> st1 = (True, True) else mi_connected impl1 = mi_connected impl"
      using connect_trace [OF impl(2) c] by blast
    show ?thesis
    proof (cases "r = 0")
      case True
      let ?b = "if 0 < mqtt_reconnect_sec (mq_config svc) then mqtt_reconnect_sec (mq_config svc) else 1"
      let ?svc1 = "svc\<lparr>mq_impl := Some (impl1\<lparr>mi_reconnect_backoff := ?b\<rparr>)\<rparr>"
      obtain s2 w2 h2 es2 where r2: "report_turn env t (?svc1, w, halp) = ((s2, w2, h2), es2)" by (metis surj_pair)
      have "svc_state ?svc1 st1" using c1 True by (simp add: svc_state_def impl_state_def)
      from report_trace [OF this r2] have "client_trace es st = Some st1 \<and> svc_state svc' st1"
        using assms(2) off impl c c1 True r2 by (auto simp: mqtt_turn_def client_trace_append Let_def)
      then show ?thesis by blast
    next
      case False
      then show ?thesis
        using assms(2) off impl c c1
        by (cases st1) (auto simp: mqtt_turn_def client_trace_append svc_state_def impl_state_def Let_def)
    qed
  next
    case gone
    then have "client_trace es st = Some st \<and> svc_state svc' st"
      using assms(2) impl by (cases st) (auto simp: mqtt_turn_def svc_state_def impl_state_def Let_def)
    then show ?thesis by blast
  next
    case on
    obtain s2 w2 h2 es2 where r2: "report_turn env t (svc, w, halp) = ((s2, w2, h2), es2)" by (metis surj_pair)
    from report_trace [OF assms(1) r2] have "client_trace es st = Some st \<and> svc_state svc' st"
      using assms(2) on impl r2 by (cases st) (auto simp: mqtt_turn_def impl_state_def Let_def)
    then show ?thesis by blast
  qed
qed

lemma turns_trace:
  "svc_state (fst ts) st \<Longrightarrow> mqtt_turns env turns ts = (ts', es) \<Longrightarrow>
   \<exists>st'. client_trace es st = Some st' \<and> svc_state (fst ts') st'"
proof (induction env turns ts arbitrary: st es rule: mqtt_turns.induct)
  case (2 env t rest ts)
  obtain ts1 es1 where 1: "mqtt_turn env t ts = (ts1, es1)" by fastforce
  obtain ts2 es2 where 2: "mqtt_turns env rest ts1 = (ts2, es2)" by fastforce
  obtain st1 where s1: "client_trace es1 st = Some st1" "svc_state (fst ts1) st1"
    using turn_trace [of "fst ts" st env t "fst (snd ts)" "snd (snd ts)" "fst ts1" "fst (snd ts1)" "snd (snd ts1)" es1]
      "2.prems"(1) 1 by auto
  from "2.IH" [OF 1 [symmetric] s1(2)] 1 2 s1 "2.prems"(2) show ?case
    by (auto simp: client_trace_append)
qed auto

text \<open>C11. Whatever the client library answers and whenever connections are lost, from its start to its end
  the service thread uses the client in order: it creates it once at a time, connects only a client
  that exists, subscribes and publishes only over a connection, and leaves no client behind.\<close>

theorem mqtt_client_in_order:
  assumes "hub_mqtt_service_start True True (Some svc0) (Some cfg) = (0, Some svc)"
    and "mqtt_thread_main env start_ms turns (svc, w, halp) = (ts', es)"
  shows "client_trace es (False, False) = Some (False, False)"
proof -
  obtain impl where i: "mq_impl svc = Some impl" "mi_client_created impl = 0" "mi_connected impl = 0"
    using assms(1) by (auto simp: hub_mqtt_service_start_def Let_def)
  let ?svc = "svc\<lparr>mq_impl := map_option (\<lambda>i. i\<lparr>mi_last_report_ms := start_ms\<rparr>) (mq_impl svc)\<rparr>"
  have s0: "svc_state (fst (?svc, w, halp)) (False, False)" using i by (simp add: svc_state_def impl_state_def)
  obtain svc1 w1 h1 es1 where r: "mqtt_turns env turns (?svc, w, halp) = ((svc1, w1, h1), es1)" by (metis surj_pair)
  obtain st1 where s1: "client_trace es1 (False, False) = Some st1" "svc_state svc1 st1"
    using turns_trace [OF s0 r] by auto
  obtain impl1 where i1: "mq_impl svc1 = Some impl1" "impl_state impl1 st1" using s1(2) by (auto simp: svc_state_def)
  have "client_trace (snd (thread_end impl1)) st1 = Some (False, False)"
    using i1(2) by (cases st1) (auto simp: thread_end_def impl_state_def)
  then show ?thesis
    using assms(2) r s1(1) i1(1) by (auto simp: mqtt_thread_main_def client_trace_append Let_def split: prod.splits)
qed

section \<open>The delays between attempts\<close>

fun delay_at :: "int \<Rightarrow> nat \<Rightarrow> int" where
  "delay_at b 0 = retry_delay b"
| "delay_at b (Suc k) = retry_delay (next_backoff (delay_at b k))"

fun sleep_seconds :: "mqtt_event list \<Rightarrow> int list" where
  "sleep_seconds [] = []"
| "sleep_seconds (SleepSec n # es) = n # sleep_seconds es"
| "sleep_seconds (_ # es) = sleep_seconds es"

lemma sleep_seconds_append: "sleep_seconds (xs @ ys) = sleep_seconds xs @ sleep_seconds ys"
  by (induction xs rule: sleep_seconds.induct) simp_all

lemma retry_delay_range: "1 \<le> retry_delay b \<and> retry_delay b \<le> 60"
  by (simp add: retry_delay_def Let_def)

lemma delay_at_range: "1 \<le> delay_at b k \<and> delay_at b k \<le> 60"
  by (cases k) (simp_all add: retry_delay_range)

lemma delay_at_step: "delay_at b (Suc k) = (if delay_at b k < 32 then min 60 (2 * delay_at b k) else 32)"
  using delay_at_range [of b k] by (auto simp: retry_delay_def next_backoff_def Let_def)

lemma delay_at_grows: "min 32 (2 ^ k) \<le> delay_at b k"
proof (induction k)
  case 0
  then show ?case using delay_at_range [of b 0] by simp
next
  case (Suc k)
  then show ?case using delay_at_step [of b k] by (auto simp: min_def split: if_splits)
qed

lemma delay_at_settles: "6 \<le> k \<Longrightarrow> delay_at b k = 32"
proof -
  assume "6 \<le> k"
  then obtain j where k: "k = Suc j" "5 \<le> j" by (cases k) auto
  have "(2 :: int) ^ 5 \<le> 2 ^ j" using k(2) by (intro power_increasing) simp_all
  then have "32 \<le> delay_at b j" using delay_at_grows [of j b] by simp
  then show ?thesis using delay_at_step [of b j] k(1) by simp
qed

lemma delay_at_shift: "delay_at b (Suc k) = delay_at (next_backoff (retry_delay b)) k"
  by (induction k) simp_all

lemma connect_fails:
  assumes "rc_connect rcs \<noteq> MQTTCLIENT_SUCCESS" "mi_connected impl = 0"
  shows "\<exists>impl' es. paho_connect_once rcs cfg (Some impl) = (- 1, Some impl', es) \<and> sleep_seconds es = [] \<and>
    mi_connected impl' = 0 \<and> mi_reconnect_backoff impl' = mi_reconnect_backoff impl"
  using assms by (auto simp: paho_connect_once_def paho_prepare_client_def Let_def)

lemma failing_turns:
  "\<forall>t \<in> set turns. rc_connect (tn_connect t) \<noteq> MQTTCLIENT_SUCCESS \<Longrightarrow> mq_impl svc = Some impl \<Longrightarrow>
   mi_connected impl = 0 \<Longrightarrow> mqtt_turns env turns (svc, w, halp) = (ts', es) \<Longrightarrow>
   sleep_seconds es = map (delay_at (mi_reconnect_backoff impl)) [0..<length turns]"
proof (induction turns arbitrary: svc impl es)
  case (Cons t rest)
  let ?b = "mi_reconnect_backoff impl"
  obtain impl1 es1 where c: "paho_connect_once (tn_connect t) (mq_config svc) (Some impl) = (- 1, Some impl1, es1)"
      "sleep_seconds es1 = []" "mi_connected impl1 = 0" "mi_reconnect_backoff impl1 = ?b"
    using connect_fails [of "tn_connect t" impl "mq_config svc"] Cons.prems by auto
  let ?impl2 = "impl1\<lparr>mi_reconnect_backoff := next_backoff (retry_delay ?b)\<rparr>"
  let ?svc2 = "svc\<lparr>mq_impl := Some ?impl2\<rparr>"
  have t: "mqtt_turn env t (svc, w, halp) = ((?svc2, w, halp), es1 @ [SleepSec (retry_delay ?b)])"
    using Cons.prems c by (simp add: mqtt_turn_def Let_def)
  obtain es2 where r: "mqtt_turns env rest (?svc2, w, halp) = (ts', es2)"
      "es = es1 @ [SleepSec (retry_delay ?b)] @ es2"
    using Cons.prems(4) t by (auto split: prod.splits)
  have "sleep_seconds es2 = map (delay_at (next_backoff (retry_delay ?b))) [0..<length rest]"
    using Cons.IH [OF _ _ _ r(1), of ?impl2] Cons.prems(1) c(3) by simp
  then show ?case
    using r(2) c(2) by (simp add: sleep_seconds_append upt_conv_Cons map_Suc_upt [symmetric] delay_at_shift comp_def
        del: upt_Suc delay_at.simps(2))
qed simp



section \<open>An instance\<close>

definition refused :: connect_rcs where
  "refused = \<lparr>rc_create = 0, rc_callbacks = 0, rc_connect = - 1, rc_subscribe = 0\<rparr>"

definition accepted :: connect_rcs where
  "accepted = \<lparr>rc_create = 0, rc_callbacks = 0, rc_connect = 0, rc_subscribe = 0\<rparr>"

definition demo_turn :: "connect_rcs \<Rightarrow> turn_env" where
  "demo_turn rcs = \<lparr>tn_connect = rcs, tn_is_connected = True, tn_publish = 0, tn_now = 6000, tn_now_after = 6000,
     tn_time = 1700000000, tn_lost = False\<rparr>"

definition demo_service :: mqtt_service where
  "demo_service = \<lparr>mq_config = hub_config_set_defaults, mq_thread = False, mq_running = 0, mq_impl = NULL\<rparr>"

lemma demo_start:
  "\<exists>svc. hub_mqtt_service_start True True (Some demo_service) (Some hub_config_set_defaults) = (0, Some svc) \<and>
     (\<exists>impl. mq_impl svc = Some impl \<and> mi_connected impl = 0)"
  by (simp add: hub_mqtt_service_start_def Let_def)

theorem mqtt_client_in_order_witness:
  "\<exists>svc ts' es. hub_mqtt_service_start True True (Some demo_service) (Some hub_config_set_defaults) = (0, Some svc) \<and>
     mqtt_thread_main rpc_demo_env 0 [demo_turn refused, demo_turn accepted, demo_turn accepted] (svc, demo_world, NULL) =
       (ts', es) \<and> client_trace es (False, False) = Some (False, False)"
proof -
  obtain svc where s: "hub_mqtt_service_start True True (Some demo_service) (Some hub_config_set_defaults) = (0, Some svc)"
    using demo_start by blast
  obtain ts' es where r: "mqtt_thread_main rpc_demo_env 0 [demo_turn refused, demo_turn accepted, demo_turn accepted]
      (svc, demo_world, NULL) = (ts', es)" by fastforce
  from mqtt_client_in_order [OF s r] s r show ?thesis by blast
qed


end
