(* ===== verification/VideoColor.thy ===== *)
theory VideoColor
  imports Prelude
begin

text \<open>
  The colour conversion of \<open>src/video/video_pipeline.c\<close>: YUYV frames to RGB565 through lookup tables.
  The specification converts each group of two pixels by the formula; the theorem says the code's
  loop over the tables does exactly that.
\<close>

section \<open>The code\<close>

definition clip_0_255 :: "int \<Rightarrow> int" where
  "clip_0_255 v = (if v < 0 then 0 else if 255 < v then 255 else v)"

record yuv_lut =
  lut_rv :: "int list"
  lut_gu :: "int list"
  lut_gv :: "int list"
  lut_bu :: "int list"

definition init_yuv_lut :: yuv_lut where
  "init_yuv_lut =
     \<lparr>lut_rv = map (\<lambda>i. c_div ((int i - 128) * 1402) 1000) [0..<256],
      lut_gu = map (\<lambda>i. c_div ((128 - int i) * 344) 1000) [0..<256],
      lut_gv = map (\<lambda>i. c_div ((128 - int i) * 714) 1000) [0..<256],
      lut_bu = map (\<lambda>i. c_div ((int i - 128) * 1772) 1000) [0..<256]\<rparr>"

definition pack_rgb565 :: "int \<Rightarrow> int \<Rightarrow> int \<Rightarrow> u16" where
  "pack_rgb565 r g b =
     word_of_int (push_bit 11 (drop_bit 3 r) OR push_bit 5 (drop_bit 2 g) OR drop_bit 3 b)"

text \<open>The two bytes of a pixel of luminance \<open>y\<close> with the tables at \<open>u\<close> and \<open>v\<close>.\<close>

definition lut_pixel :: "yuv_lut \<Rightarrow> u8 \<Rightarrow> u8 \<Rightarrow> u8 \<Rightarrow> u8 list" where
  "lut_pixel L y u v =
     (let r = clip_0_255 (uint y + lut_rv L ! unat v);
          g = clip_0_255 (uint y + lut_gu L ! unat u + lut_gv L ! unat v);
          b = clip_0_255 (uint y + lut_bu L ! unat u);
          rgb565 = pack_rgb565 r g b
      in [ucast (rgb565 AND 0xFF), ucast (drop_bit 8 rgb565 AND 0xFF)])"

text \<open>The loop from \<open>i\<close> and \<open>pos\<close> on.\<close>

function convert_loop :: "yuv_lut \<Rightarrow> u8 list \<Rightarrow> nat \<Rightarrow> nat \<Rightarrow> nat \<Rightarrow> u8 list \<Rightarrow> u8 list" where
  "convert_loop L inp need i pos out =
     (if i + 3 < length inp \<and> pos + 3 < need
      then (let p0 = lut_pixel L (inp ! i) (inp ! (i + 1)) (inp ! (i + 3));
                p1 = lut_pixel L (inp ! (i + 2)) (inp ! (i + 1)) (inp ! (i + 3))
            in convert_loop L inp need (i + 4) (pos + 4)
                 (out[pos := p0 ! 0, pos + 1 := p0 ! 1, pos + 2 := p1 ! 0, pos + 3 := p1 ! 1]))
      else out)"
  by pat_completeness auto
termination by (relation "measure (\<lambda>(L, inp, need, i, pos, out). length inp - i)") auto

declare convert_loop.simps [simp del]

definition frame_bytes :: "int \<Rightarrow> int \<Rightarrow> csize" where
  "frame_bytes width height = word_of_int width * word_of_int height * 2"

definition yuyv_to_rgb565 :: "yuv_lut \<Rightarrow> u8 list \<Rightarrow> u8 list \<Rightarrow> csize \<Rightarrow> int \<Rightarrow> int \<Rightarrow> u8 list" where
  "yuyv_to_rgb565 L inp out out_cap width height =
     (let need = frame_bytes width height
      in if length inp < unat need \<or> out_cap < need then out
         else convert_loop L inp (unat need) 0 0 out)"

section \<open>The specification\<close>

text \<open>One pixel by the formula: no tables, the components clamped, the five, six and five leading bits of
  red, green and blue side by side in a 16-bit number, its low byte first.\<close>

definition clamp_byte :: "int \<Rightarrow> int" where
  "clamp_byte x = max 0 (min 255 x)"

definition yuv_pixel :: "u8 \<Rightarrow> u8 \<Rightarrow> u8 \<Rightarrow> u8 list" where
  "yuv_pixel y u v =
     (let r = clamp_byte (uint y + c_div ((uint v - 128) * 1402) 1000);
          g = clamp_byte (uint y + c_div ((128 - uint u) * 344) 1000 + c_div ((128 - uint v) * 714) 1000);
          b = clamp_byte (uint y + c_div ((uint u - 128) * 1772) 1000);
          n = r div 8 * 2048 + g div 4 * 32 + b div 8
      in [word_of_int (n mod 256), word_of_int (n div 256)])"

fun convert_groups :: "nat \<Rightarrow> u8 list \<Rightarrow> u8 list" where
  "convert_groups (Suc n) (y0 # u # y1 # v # rest) = yuv_pixel y0 u v @ yuv_pixel y1 u v @ convert_groups n rest"
| "convert_groups _ _ = []"

section \<open>The loop meets the specification\<close>

lemma lut_values:
  "lut_rv init_yuv_lut ! unat (w :: u8) = c_div ((uint w - 128) * 1402) 1000"
  "lut_gu init_yuv_lut ! unat w = c_div ((128 - uint w) * 344) 1000"
  "lut_gv init_yuv_lut ! unat w = c_div ((128 - uint w) * 714) 1000"
  "lut_bu init_yuv_lut ! unat w = c_div ((uint w - 128) * 1772) 1000"
proof -
  have "unat w < 256" using unsigned_less [of w] by simp
  then have n: "[0..<256] ! unat w = unat w" "unat w < length [0..<256]" by simp_all
  have i: "int (unat w) = uint w" by simp
  show "lut_rv init_yuv_lut ! unat w = c_div ((uint w - 128) * 1402) 1000"
    "lut_gu init_yuv_lut ! unat w = c_div ((128 - uint w) * 344) 1000"
    "lut_gv init_yuv_lut ! unat w = c_div ((128 - uint w) * 714) 1000"
    "lut_bu init_yuv_lut ! unat w = c_div ((uint w - 128) * 1772) 1000"
    unfolding init_yuv_lut_def yuv_lut.simps using n i by (simp_all del: upt_Suc)
qed

lemma low_byte: "(ucast (x AND 0xFF) :: u8) = ucast (x :: u16)"
proof -
  have m: "(0xFF :: u16) = mask 8" by (simp add: mask_eq_exp_minus_1)
  show ?thesis unfolding m by (auto intro!: bit_word_eqI simp: bit_simps)
qed

lemma or_fields:
  fixes x y z :: int
  assumes "0 \<le> y" "y < 64" "0 \<le> z" "z < 32"
  shows "push_bit 11 x OR push_bit 5 y OR z = x * 2048 + y * 32 + z"
proof -
  have y: "y = take_bit 6 y" and z: "z = take_bit 5 z" using assms by (simp_all add: take_bit_int_eq_self)
  have "push_bit 5 y OR z = push_bit 5 y + z"
    by (subst z, subst (2) z, rule disjunctive_add_eq_or [symmetric]) (auto intro!: bit_eqI simp: bit_simps)
  moreover have "push_bit 11 x OR (push_bit 5 (take_bit 6 y) OR take_bit 5 z) =
      push_bit 11 x + (push_bit 5 (take_bit 6 y) OR take_bit 5 z)"
    by (rule disjunctive_add_eq_or [symmetric]) (auto intro!: bit_eqI simp: bit_simps)
  ultimately show ?thesis using y z by (simp add: push_bit_eq_mult)
qed

lemma word16_bytes:
  assumes "0 \<le> n" "n < 65536"
  shows "(ucast (word_of_int n :: u16) :: u8) = word_of_int (n mod 256)"
    "(ucast (drop_bit 8 (word_of_int n :: u16)) :: u8) = word_of_int (n div 256)"
proof -
  have n: "take_bit 16 n = n" using assms by (simp add: take_bit_int_eq_self)
  have "n mod 256 = take_bit 8 n" by (simp add: take_bit_eq_mod)
  then show "(ucast (word_of_int n :: u16) :: u8) = word_of_int (n mod 256)"
    by (intro bit_word_eqI) (simp add: bit_simps)
  have "n div 256 = drop_bit 8 n" by (simp add: drop_bit_eq_div)
  then show "(ucast (drop_bit 8 (word_of_int n :: u16)) :: u8) = word_of_int (n div 256)"
    by (intro bit_word_eqI) (auto simp: bit_simps)
qed

lemma clip_clamp: "clip_0_255 x = clamp_byte x" "0 \<le> clamp_byte x" "clamp_byte x < 256"
  by (simp_all add: clip_0_255_def clamp_byte_def)

lemma lut_pixel_formula: "lut_pixel init_yuv_lut y u v = yuv_pixel y u v"
proof -
  have "[ucast (pack_rgb565 r g b AND 0xFF), ucast (drop_bit 8 (pack_rgb565 r g b) AND 0xFF)] =
      [word_of_int (n mod 256) :: u8, word_of_int (n div 256)]"
    if "0 \<le> r" "r < 256" "0 \<le> g" "g < 256" "0 \<le> b" "b < 256" "n = r div 8 * 2048 + g div 4 * 32 + b div 8" for r g b n
  proof -
    have "push_bit 11 (drop_bit 3 r) OR push_bit 5 (drop_bit 2 g) OR drop_bit 3 b = n"
      using that by (subst or_fields) (simp_all add: drop_bit_eq_div)
    moreover have "r div 8 < 32" "g div 4 < 64" "b div 8 < 32" "0 \<le> n" using that by simp_all
    then have "0 \<le> n" "n < 65536" using that(7) by linarith+
    ultimately show ?thesis by (simp add: pack_rgb565_def low_byte word16_bytes)
  qed
  note pack = this [OF clip_clamp(2,3) clip_clamp(2,3) clip_clamp(2,3) refl]
  show ?thesis
    unfolding lut_pixel_def yuv_pixel_def lut_values Let_def clip_clamp(1) by (rule pack)
qed

lemma length_yuv_pixel [simp]: "length (yuv_pixel y u v) = 2"
  by (simp add: yuv_pixel_def Let_def)

lemma length_convert_groups: "4 * n \<le> length inp \<Longrightarrow> length (convert_groups n inp) = 4 * n"
  by (induction n inp rule: convert_groups.induct) auto

lemma drop_group:
  "i + 3 < length xs \<Longrightarrow> drop i xs = xs ! i # xs ! (i + 1) # xs ! (i + 2) # xs ! (i + 3) # drop (i + 4) xs"
proof -
  assume a: "i + 3 < length xs"
  have "drop j xs = xs ! j # drop (Suc j) xs" if "j < length xs" for j using that by (simp add: Cons_nth_drop_Suc)
  from this [of i] this [of "i + 1"] this [of "i + 2"] this [of "i + 3"] a
  show ?thesis by (simp add: eval_nat_numeral)
qed

lemma update_group:
  "length done = pos \<Longrightarrow> 4 \<le> length out \<Longrightarrow>
   (done @ out)[pos := a, pos + 1 := b, pos + 2 := c, pos + 3 := d] = (done @ [a, b, c, d]) @ drop 4 out"
proof -
  assume "length done = pos" "4 \<le> length out"
  moreover then obtain w x y z r where "out = w # x # y # z # r"
    by (metis (no_types) Cons_nth_drop_Suc drop0 drop_group add_0 eval_nat_numeral(2) le_simps(3) numeral_3_eq_3 numeral_eq_Suc pred_numeral_simps(2) semiring_norm(26,27))
  ultimately show ?thesis by (simp add: list_update_append eval_nat_numeral)
qed


lemma convert_loop_groups:
  "need \<le> length inp \<Longrightarrow> length done = i \<Longrightarrow> need \<le> i + length out \<Longrightarrow> i + 4 * n \<le> need \<Longrightarrow> need < i + 4 * n + 4 \<Longrightarrow>
   convert_loop init_yuv_lut inp need i i (done @ out) =
     done @ convert_groups n (drop i inp) @ drop (4 * n) out"
proof (induction n arbitrary: i "done" out)
  case 0
  then show ?case by (simp add: convert_loop.simps [of _ inp need i i])
next
  case (Suc n)
  have i: "i + 3 < length inp" "i + 3 < need" "4 \<le> length out" using Suc.prems by simp_all
  let ?p0 = "yuv_pixel (inp ! i) (inp ! (i + 1)) (inp ! (i + 3))"
  let ?p1 = "yuv_pixel (inp ! (i + 2)) (inp ! (i + 1)) (inp ! (i + 3))"
  have two: "[p ! 0, p ! 1] = p" if "length p = 2" for p :: "u8 list"
    using that by (auto simp: numeral_2_eq_2 length_Suc_conv)
  have g: "[?p0 ! 0, ?p0 ! 1, ?p1 ! 0, ?p1 ! 1] = ?p0 @ ?p1"
    using two [of ?p0] two [of ?p1] by (metis append_Cons append_Nil length_yuv_pixel)
  have "convert_loop init_yuv_lut inp need i i (done @ out) =
      convert_loop init_yuv_lut inp need (i + 4) (i + 4)
        ((done @ out)[i := ?p0 ! 0, i + 1 := ?p0 ! 1, i + 2 := ?p1 ! 0, i + 3 := ?p1 ! 1])"
    using i by (subst convert_loop.simps) (simp add: lut_pixel_formula Let_def)
  also have "\<dots> = convert_loop init_yuv_lut inp need (i + 4) (i + 4) ((done @ ?p0 @ ?p1) @ drop 4 out)"
    by (simp only: update_group [OF Suc.prems(2) i(3)] g append_assoc)
  also have "\<dots> = (done @ ?p0 @ ?p1) @ convert_groups n (drop (i + 4) inp) @ drop (4 * n) (drop 4 out)"
    using Suc.prems by (intro Suc.IH) simp_all
  also have "\<dots> = done @ convert_groups (Suc n) (drop i inp) @ drop (4 * Suc n) out"
    using drop_group [OF i(1)] by (simp add: add.commute)
  finally show ?case .
qed

lemma unat_frame_bytes:
  assumes "0 \<le> width" "0 \<le> height" "width * height * 2 < 2 ^ 64"
  shows "unat (frame_bytes width height) = nat (width * height * 2)"
proof -
  have v: "uint (word_of_int v :: csize) = v" if "0 \<le> v" "v < 2 ^ 64" for v
    using that by (simp add: uint_word_of_int take_bit_int_eq_self)
  have f: "frame_bytes width height = word_of_int (width * height * 2)" by (simp add: frame_bytes_def)
  have "uint (frame_bytes width height) = width * height * 2"
    unfolding f using assms by (intro v) simp_all
  then show ?thesis by (metis unat_eq_nat_uint)
qed

text \<open>C37. The conversion through the tables is the conversion by the formula, group by group of two
  pixels; a frame that is too short, or a buffer that is too small, is left alone, and nothing is
  written behind the frame.\<close>

theorem conversion_meets_formula:
  assumes "0 \<le> width" "0 \<le> height" "width * height * 2 < 2 ^ 64" and "length out = unat out_cap"
  shows "let need = nat (width * height * 2); n = need div 4;
      result = yuyv_to_rgb565 init_yuv_lut inp out out_cap width height
    in length result = length out \<and>
       result = (if length inp < need \<or> length out < need then out
                 else convert_groups n inp @ drop (4 * n) out)"
proof -
  define need where "need = nat (width * height * 2)"
  define n where "n = need div 4"
  have need: "unat (frame_bytes width height) = need"
    using unat_frame_bytes [OF assms(1-3)] by (simp add: need_def)
  have n: "4 * n \<le> need" "need < 4 * n + 4"
    using div_mult_mod_eq [of need 4] mod_less_divisor [of 4 need] unfolding n_def by linarith+
  have loop: "convert_loop init_yuv_lut inp need 0 0 out = convert_groups n inp @ drop (4 * n) out"
    if "need \<le> length inp" "need \<le> length out"
    using convert_loop_groups [of need inp "[]" 0 out n] that n by simp
  have len: "length (convert_groups n inp @ drop (4 * n) out) = length out"
    if "need \<le> length inp" "need \<le> length out"
    using that n length_convert_groups [of n inp] by simp
  have "yuyv_to_rgb565 init_yuv_lut inp out out_cap width height =
      (if length inp < need \<or> length out < need then out else convert_groups n inp @ drop (4 * n) out)"
    using loop need by (auto simp: yuyv_to_rgb565_def Let_def word_less_nat_alt assms(4))
  then show ?thesis
    using len by (simp add: need_def [symmetric] n_def [symmetric] Let_def)
qed

theorem conversion_meets_formula_witness:
  "yuyv_to_rgb565 init_yuv_lut [235, 128, 16, 128] [0, 0, 0, 0, 7] 5 2 1 =
     convert_groups 1 [235, 128, 16, 128] @ [7]"
  using conversion_meets_formula [of 2 1 "[0, 0, 0, 0, 7]" 5 "[235, 128, 16, 128]"] by (simp add: Let_def)

end
