(* ===== verification/VideoPipeline.thy ===== *)
theory VideoPipeline
  imports MemoryPool HubConfig VideoColor Posix
begin

text \<open>
  The hub's video pipeline, \<open>src/video/video_pipeline.c\<close>: a capture thread that fills blocks of the
  memory pool and queues them, a render thread that takes them off the queue, and the camera they
  come from. A block is its index in the pool; the answers of the camera are parameters. Each
  operation on the queue is one step, as the queue's lock makes it.
\<close>

section \<open>State\<close>

definition HUB_VIDEO_QUEUE_DEPTH :: nat where
  "HUB_VIDEO_QUEUE_DEPTH = 8"

definition HUB_V4L2_BUF_COUNT :: nat where
  "HUB_V4L2_BUF_COUNT = 4"

definition HUB_PIXEL_FMT_RGB565 :: int where
  "HUB_PIXEL_FMT_RGB565 = 1"

text \<open>The start of a camera buffer: NULL, \<open>MAP_FAILED\<close>, or a mapping.\<close>

datatype mapping = NotMapped | MapFailed | Mapped

record video_priv =
  vq_queue :: "nat ptr list"
  q_head :: nat
  q_tail :: nat
  q_count :: nat
  vp_seq :: u64
  vp_width :: int
  vp_height :: int
  stat_window_start_ms :: u64
  stat_rendered_frames :: u64
  stat_captured_frames :: u64
  stat_drop_pool :: u64
  stat_drop_queue :: u64
  vp_lut :: yuv_lut
  v4_fd :: int
  v4_bufs :: "(mapping \<times> csize) list"
  v4_buf_count :: nat

record video_pipeline =
  pl_config :: hub_config
  pl_default_sink :: bool
  pl_capture_thread :: bool
  pl_render_thread :: bool
  pl_running :: int
  pl_priv :: "video_priv ptr"

record video_frame =
  fr_data :: "u8 list"
  fr_size :: csize
  fr_width :: int
  fr_height :: int
  fr_format :: int
  fr_seq :: u64
  fr_timestamp_ms :: u64

definition video_now_ms :: "u64 \<times> u64 \<Rightarrow> u64" where
  "video_now_ms ts = fst ts * 1000 + snd ts div 1000000"

section \<open>The queue\<close>

text \<open>The part of a push under the lock: the block dropped, if the queue was full.\<close>

definition queue_put :: "nat ptr \<Rightarrow> video_priv \<Rightarrow> nat ptr \<times> video_priv" where
  "queue_put block priv =
     (let (dropped, p1) =
            (if q_count priv \<ge> HUB_VIDEO_QUEUE_DEPTH
             then (vq_queue priv ! q_head priv,
                   priv\<lparr>q_head := (q_head priv + 1) mod HUB_VIDEO_QUEUE_DEPTH, q_count := q_count priv - 1\<rparr>)
             else (NULL, priv))
      in (dropped, p1\<lparr>vq_queue := (vq_queue p1)[q_tail p1 := block],
                   q_tail := (q_tail p1 + 1) mod HUB_VIDEO_QUEUE_DEPTH, q_count := q_count p1 + 1\<rparr>))"

definition queue_push :: "nat ptr \<Rightarrow> video_priv \<Rightarrow> mem_pool \<Rightarrow> video_priv \<times> mem_pool" where
  "queue_push block priv pool =
     (case queue_put block priv of
        (dropped, p1) \<Rightarrow>
          (case dropped of
             None \<Rightarrow> (p1, pool)
           | Some d \<Rightarrow> (p1\<lparr>stat_drop_queue := stat_drop_queue p1 + 1\<rparr>, pool_release d pool)))"

definition queue_take :: "video_priv \<Rightarrow> nat ptr \<times> video_priv" where
  "queue_take priv =
     (if 0 < q_count priv
      then (vq_queue priv ! q_head priv,
            priv\<lparr>q_head := (q_head priv + 1) mod HUB_VIDEO_QUEUE_DEPTH, q_count := q_count priv - 1\<rparr>)
      else (NULL, priv))"

text \<open>A wait of the render thread: the clock, whether it ends by its deadline, whether the pipeline still
  runs, and the blocks pushed meanwhile. \<open>None\<close>: still waiting.\<close>

record queue_wait =
  qw_now :: "int \<times> int"
  qw_timeout :: "int \<times> int \<Rightarrow> bool"
  qw_running :: bool
  qw_pushed :: "nat list"

fun queue_pop :: "queue_wait list \<Rightarrow> int \<Rightarrow> bool \<Rightarrow> video_priv \<Rightarrow> (nat ptr \<times> video_priv) option" where
  "queue_pop waits wait_ms running priv =
     (if running \<and> q_count priv = 0
      then (case waits of
              [] \<Rightarrow> None
            | w # ws \<Rightarrow>
                let p1 = fold (\<lambda>b p. snd (queue_put (Some b) p)) (qw_pushed w) priv
                in if 0 \<le> wait_ms \<and> qw_timeout w (wait_deadline (qw_now w) wait_ms) then Some (queue_take p1)
                   else queue_pop ws wait_ms (qw_running w) p1)
      else Some (queue_take priv))"

declare queue_pop.simps [simp del]

section \<open>The frame sink\<close>

text \<open>The text of the statistics file.\<close>

definition json_number :: "string \<Rightarrow> string \<Rightarrow> string" where
  "json_number k v = quoted k @ '':'' @ v"

definition stats_text :: "video_frame \<Rightarrow> video_priv \<Rightarrow> string" where
  "stats_text frame priv =
     ''{'' @ json_number ''fps'' (dec_string (unat (stat_rendered_frames priv))) @ '','' @
     json_number ''width'' (int_string (fr_width frame)) @ '','' @
     json_number ''height'' (int_string (fr_height frame)) @ '','' @
     json_number ''seq'' (dec_string (unat (fr_seq frame))) @ '','' @
     json_number ''timestamp_ms'' (dec_string (unat (fr_timestamp_ms frame))) @ '','' @
     json_number ''captured'' (dec_string (unat (stat_captured_frames priv))) @ '','' @
     json_number ''drop_pool'' (dec_string (unat (stat_drop_pool priv))) @ '','' @
     json_number ''drop_queue'' (dec_string (unat (stat_drop_queue priv))) @ ''}'' @ [CHR 0x0A]"

text \<open>The second part of the result: the text written to the statistics file, when it is written.\<close>

definition default_frame_sink :: "u64 \<Rightarrow> bool \<Rightarrow> video_frame \<Rightarrow> video_priv ptr \<Rightarrow> video_priv ptr \<times> string option" where
  "default_frame_sink now fopen_ok frame user =
     (case user of
        None \<Rightarrow> (NULL, None)
      | Some priv \<Rightarrow>
          let p1 = (if stat_window_start_ms priv = 0 then priv\<lparr>stat_window_start_ms := now\<rparr> else priv);
              p2 = p1\<lparr>stat_rendered_frames := stat_rendered_frames p1 + 1\<rparr>
          in if now - stat_window_start_ms p2 \<ge> 1000
             then (Some (p2\<lparr>stat_window_start_ms := now, stat_rendered_frames := 0\<rparr>),
                   if fopen_ok then Some (stats_text frame p2) else None)
             else (Some p2, None))"

section \<open>The camera\<close>

text \<open>Whether each call of the opening succeeds: the format it sets, the buffers it grants, and per buffer
  its length, mapping and queueing.\<close>

record camera_env =
  ca_open :: bool
  ca_querycap :: bool
  ca_format :: "(u32 \<times> u32) option"
  ca_reqbufs :: "u32 option"
  ca_query :: "nat \<Rightarrow> csize option"
  ca_mmap :: "nat \<Rightarrow> bool"
  ca_qbuf :: "nat \<Rightarrow> bool"
  ca_streamon :: bool

text \<open>The process's side: its descriptors, and the number of its mappings.\<close>

record cam_proc =
  cp_fds :: fd_table
  cp_maps :: int

definition is_mapped :: "mapping \<times> csize \<Rightarrow> bool" where
  "is_mapped b \<longleftrightarrow> fst b = Mapped"

definition unmap :: "mapping \<times> csize \<Rightarrow> mapping \<times> csize" where
  "unmap b = (if is_mapped b then (NotMapped, snd b) else b)"

definition close_v4l2 :: "cam_proc \<Rightarrow> video_priv \<Rightarrow> cam_proc \<times> video_priv" where
  "close_v4l2 cp priv =
     (if v4_fd priv < 0 then (cp, priv)
      else let n = v4_buf_count priv; bufs = v4_bufs priv
      in (cp\<lparr>cp_maps := cp_maps cp - int (length (filter is_mapped (take n bufs))),
             cp_fds := fd_close (v4_fd priv) (cp_fds cp)\<rparr>,
          priv\<lparr>v4_bufs := map unmap (take n bufs) @ drop n bufs, v4_fd := - 1\<rparr>))"

text \<open>The loop over the buffers from \<open>i\<close> on: whether it came through, the mappings made, the buffers.\<close>

fun map_buffers :: "camera_env \<Rightarrow> nat \<Rightarrow> nat \<Rightarrow> int \<Rightarrow> (mapping \<times> csize) list \<Rightarrow> bool \<times> int \<times> (mapping \<times> csize) list" where
  "map_buffers env 0 i maps bufs = (True, maps, bufs)"
| "map_buffers env (Suc n) i maps bufs =
     (case ca_query env i of
        None \<Rightarrow> (False, maps, bufs)
      | Some len \<Rightarrow>
          if \<not> ca_mmap env i then (False, maps, bufs[i := (MapFailed, len)])
          else if \<not> ca_qbuf env i then (False, maps + 1, bufs[i := (Mapped, len)])
          else map_buffers env n (Suc i) (maps + 1) (bufs[i := (Mapped, len)]))"

definition open_v4l2 :: "camera_env \<Rightarrow> cam_proc \<Rightarrow> video_priv \<Rightarrow> int \<times> cam_proc \<times> video_priv" where
  "open_v4l2 env cp priv =
     (if \<not> ca_open env then (- 1, cp, priv\<lparr>v4_fd := - 1\<rparr>)
      else let fd = fd_new (cp_fds cp);
               cp1 = cp\<lparr>cp_fds := fd # cp_fds cp\<rparr>;
               p1 = priv\<lparr>v4_fd := fd\<rparr>;
               err_out = (\<lambda>c p. case close_v4l2 c p of (c', p') \<Rightarrow> (- 1, c', p'))
      in if \<not> ca_querycap env then err_out cp1 p1
      else case ca_format env of
        None \<Rightarrow> err_out cp1 p1
      | Some (w, h) \<Rightarrow>
          let p2 = p1\<lparr>vp_width := c_int (uint w), vp_height := c_int (uint h)\<rparr>
          in (case ca_reqbufs env of
                None \<Rightarrow> err_out cp1 p2
              | Some granted \<Rightarrow>
                  if granted < 2 then err_out cp1 p2
                  else let n = (if granted > 4 then HUB_V4L2_BUF_COUNT else unat granted);
                           (ok, maps, bufs) = map_buffers env n 0 (cp_maps cp1) (v4_bufs p2);
                           cp2 = cp1\<lparr>cp_maps := maps\<rparr>;
                           p3 = p2\<lparr>v4_buf_count := n, v4_bufs := bufs\<rparr>
                  in if \<not> ok then err_out cp2 p3
                     else if \<not> ca_streamon env then err_out cp2 p3
                     else (0, cp2, p3)))"

section \<open>The two threads\<close>

text \<open>What a turn of the capture thread meets: the poll, the dequeued buffer with its index and bytes, the
  waits for a free block, the clock.\<close>

record capture_turn =
  ct_poll :: bool
  ct_dequeue :: bool
  ct_index :: nat
  ct_bytes :: "u8 list"
  ct_wakes :: "wake list"
  ct_now :: u64

text \<open>The fields of a block that hold a frame.\<close>

definition fill_block :: "csize \<Rightarrow> u8 list \<Rightarrow> video_priv \<Rightarrow> u64 \<Rightarrow> mem_block \<Rightarrow> mem_block" where
  "fill_block bytes data priv now b =
     b\<lparr>mb_data := Some data, mb_used := bytes, mb_width := vp_width priv, mb_height := vp_height priv,
       mb_format := HUB_PIXEL_FMT_RGB565, mb_seq := vp_seq priv, mb_timestamp_ms := now\<rparr>"

definition block_at :: "mem_pool \<Rightarrow> nat \<Rightarrow> mem_block" where
  "block_at pool i = pool_blocks pool ! i"

text \<open>A captured frame goes into block \<open>i\<close> and onto the queue.\<close>

definition queue_frame :: "csize \<Rightarrow> u8 list \<Rightarrow> u64 \<Rightarrow> nat \<Rightarrow> video_priv \<Rightarrow> mem_pool \<Rightarrow> video_priv \<times> mem_pool" where
  "queue_frame bytes data now i priv pool =
     (let p1 = priv\<lparr>vp_seq := vp_seq priv + 1\<rparr>
      in queue_push (Some i) p1 (update_block i (fill_block bytes data p1 now) pool))"

definition camera_frame_turn :: "capture_turn \<Rightarrow> video_priv \<Rightarrow> mem_pool \<Rightarrow> (video_priv \<times> mem_pool) option" where
  "camera_frame_turn t priv pool =
     (let p1 = priv\<lparr>stat_captured_frames := stat_captured_frames priv + 1\<rparr>
      in case hub_mem_pool_acquire (ct_wakes t) (Some pool) 20 of
           None \<Rightarrow> None
         | Some (None, poolp) \<Rightarrow> Some (p1\<lparr>stat_drop_pool := stat_drop_pool p1 + 1\<rparr>, the poolp)
         | Some (Some i, poolp) \<Rightarrow>
             let b = block_at (the poolp) i;
                 data = yuyv_to_rgb565 (vp_lut p1) (ct_bytes t) (the (mb_data b)) (mb_capacity b)
                          (vp_width p1) (vp_height p1)
             in Some (queue_frame (frame_bytes (vp_width p1) (vp_height p1)) data (ct_now t) i p1 (the poolp)))"

definition synthetic_turn :: "capture_turn \<Rightarrow> video_priv \<Rightarrow> mem_pool \<Rightarrow> (video_priv \<times> mem_pool) option" where
  "synthetic_turn t priv pool =
     (case hub_mem_pool_acquire (ct_wakes t) (Some pool) 50 of
        None \<Rightarrow> None
      | Some (None, poolp) \<Rightarrow> Some (priv\<lparr>stat_drop_pool := stat_drop_pool priv + 1\<rparr>, the poolp)
      | Some (Some i, poolp) \<Rightarrow>
          let b = block_at (the poolp) i
          in Some (queue_frame (mb_capacity b) (replicate (unat (mb_capacity b)) 0) (ct_now t) i
                     (priv\<lparr>stat_captured_frames := stat_captured_frames priv + 1\<rparr>) (the poolp)))"

text \<open>A turn of the capture thread, by the camera when it is open. \<open>None\<close>: still waiting for a block.\<close>

definition capture_thread_turn :: "capture_turn \<Rightarrow> video_priv \<Rightarrow> mem_pool \<Rightarrow> (video_priv \<times> mem_pool) option" where
  "capture_thread_turn t priv pool =
     (if 0 \<le> v4_fd priv
      then (if \<not> ct_poll t \<or> \<not> ct_dequeue t then Some (priv, pool)
            else if ct_index t < v4_buf_count priv \<and> ct_bytes t \<noteq> [] then camera_frame_turn t priv pool
            else Some (priv, pool))
      else synthetic_turn t priv pool)"

text \<open>Several turns; one that is still waiting changes nothing.\<close>

fun capture_turns :: "capture_turn list \<Rightarrow> video_priv \<Rightarrow> mem_pool \<Rightarrow> video_priv \<times> mem_pool" where
  "capture_turns [] priv pool = (priv, pool)"
| "capture_turns (t # ts) priv pool =
     (case capture_thread_turn t priv pool of
        None \<Rightarrow> capture_turns ts priv pool
      | Some (p1, m1) \<Rightarrow> capture_turns ts p1 m1)"

text \<open>The pause between synthetic frames, in microseconds.\<close>

definition interval_us :: "hub_config \<Rightarrow> int" where
  "interval_us cfg = 1000000 div (if 0 < video_fps cfg then video_fps cfg else 25)"

definition frame_of :: "mem_block \<Rightarrow> video_frame" where
  "frame_of b = \<lparr>fr_data = the (mb_data b), fr_size = mb_used b, fr_width = mb_width b, fr_height = mb_height b,
     fr_format = mb_format b, fr_seq = mb_seq b, fr_timestamp_ms = mb_timestamp_ms b\<rparr>"

text \<open>A turn of the render thread: \<open>sink\<close> is the frame callback. The frame shown is the second result.\<close>

definition render_thread_turn ::
  "queue_wait list \<Rightarrow> (video_frame \<Rightarrow> video_priv \<Rightarrow> video_priv) ptr \<Rightarrow> bool \<Rightarrow> video_priv \<Rightarrow> mem_pool \<Rightarrow>
   (video_priv \<times> video_frame option \<times> mem_pool) option" where
  "render_thread_turn waits on_frame running priv pool =
     (case queue_pop waits 200 running priv of
        None \<Rightarrow> None
      | Some (None, p1) \<Rightarrow> Some (p1, None, pool)
      | Some (Some i, p1) \<Rightarrow>
          let frame = frame_of (block_at pool i);
              p2 = (case on_frame of None \<Rightarrow> p1 | Some sink \<Rightarrow> sink frame p1)
          in Some (p2, Some frame, pool_release i pool))"

section \<open>Start and stop\<close>

definition priv_zero :: video_priv where
  "priv_zero = \<lparr>vq_queue = replicate HUB_VIDEO_QUEUE_DEPTH NULL, q_head = 0, q_tail = 0, q_count = 0, vp_seq = 0,
     vp_width = 0, vp_height = 0, stat_window_start_ms = 0, stat_rendered_frames = 0, stat_captured_frames = 0,
     stat_drop_pool = 0, stat_drop_queue = 0,
     vp_lut = \<lparr>lut_rv = replicate 256 0, lut_gu = replicate 256 0, lut_gv = replicate 256 0, lut_bu = replicate 256 0\<rparr>,
     v4_fd = 0, v4_bufs = replicate HUB_V4L2_BUF_COUNT (NotMapped, 0), v4_buf_count = 0\<rparr>"

text \<open>The sweep over the queue's slots, and what is left of the pipeline.\<close>

definition hub_video_pipeline_stop ::
  "cam_proc \<Rightarrow> video_pipeline ptr \<Rightarrow> mem_pool \<Rightarrow> cam_proc \<times> video_pipeline ptr \<times> mem_pool" where
  "hub_video_pipeline_stop cp plp pool =
     (case plp of
        None \<Rightarrow> (cp, NULL, pool)
      | Some pl \<Rightarrow>
          (case pl_priv pl of
             None \<Rightarrow> (cp, plp, pool)
           | Some priv \<Rightarrow>
               let pool' = fold (\<lambda>slot p. case slot of None \<Rightarrow> p | Some i \<Rightarrow> pool_release i p) (vq_queue priv) pool;
                   (cp', _) = close_v4l2 cp (priv\<lparr>vq_queue := map (\<lambda>_. NULL) (vq_queue priv)\<rparr>)
               in (cp', Some (pl\<lparr>pl_running := 0, pl_capture_thread := False, pl_render_thread := False, pl_priv := NULL\<rparr>),
                   pool')))"

text \<open>\<open>early\<close>: what the capture thread does before the start of the render thread fails.\<close>

definition hub_video_pipeline_start ::
  "bool \<Rightarrow> camera_env \<Rightarrow> bool \<Rightarrow> bool \<Rightarrow> capture_turn list \<Rightarrow> cam_proc \<Rightarrow> video_pipeline ptr \<Rightarrow> hub_config ptr \<Rightarrow> mem_pool ptr \<Rightarrow> bool \<Rightarrow>
   int \<times> cam_proc \<times> video_pipeline ptr \<times> mem_pool ptr" where
  "hub_video_pipeline_start alloc_ok camera thread1_ok thread2_ok early cp plp cfgp poolp has_cb =
     (case (plp, cfgp, poolp) of
        (Some _, Some cfg, Some pool) \<Rightarrow>
          let pl = \<lparr>pl_config = cfg, pl_default_sink = (\<not> has_cb), pl_capture_thread = False,
                    pl_render_thread = False, pl_running = 0, pl_priv = NULL\<rparr>
          in if \<not> alloc_ok then (- 1, cp, Some pl, poolp)
          else let p0 = priv_zero\<lparr>vp_width := video_width cfg, vp_height := video_height cfg,
                                  vp_lut := init_yuv_lut, v4_fd := - 1\<rparr>;
                   (_, cp1, p1) = open_v4l2 camera cp p0;
                   pl1 = pl\<lparr>pl_priv := Some p1\<rparr>
          in if \<not> thread1_ok
             then (case hub_video_pipeline_stop cp1 (Some pl1) pool of (c, q, m) \<Rightarrow> (- 1, c, q, Some m))
             else if \<not> thread2_ok
             then (case capture_turns early p1 pool of
                     (p2, pool2) \<Rightarrow>
                       (case hub_video_pipeline_stop cp1
                               (Some (pl1\<lparr>pl_capture_thread := True, pl_priv := Some p2\<rparr>)) pool2 of
                          (c, q, m) \<Rightarrow> (- 1, c, q, Some m)))
             else (0, cp1, Some (pl1\<lparr>pl_running := 1, pl_capture_thread := True, pl_render_thread := True\<rparr>), poolp)
      | _ \<Rightarrow> (- 1, cp, plp, poolp))"

end
