(* ===== verification/VideoFrames.thy ===== *)
theory VideoFrames
  imports VideoPipeline
begin

text \<open>
  What the video pipeline guarantees: the queue is a bounded first-in first-out queue that drops its
  oldest block, no block is in two places at once, frames are shown in the order of their capture,
  and what the start takes the stop gives back.
\<close>

section \<open>The queue as a list\<close>

definition slot_blocks :: "nat ptr list \<Rightarrow> nat list" where
  "slot_blocks slots = concat (map (\<lambda>s. case s of None \<Rightarrow> [] | Some i \<Rightarrow> [i]) slots)"

definition queued :: "video_priv \<Rightarrow> nat list" where
  "queued priv = slot_blocks (take (q_count priv) (rotate (q_head priv) (vq_queue priv)))"

definition queue_wf :: "video_priv \<Rightarrow> bool" where
  "queue_wf priv \<longleftrightarrow> length (vq_queue priv) = 8 \<and> q_head priv < 8 \<and> q_count priv \<le> 8 \<and>
     q_tail priv = (q_head priv + q_count priv) mod 8 \<and>
     (\<forall>s \<in> set (take (q_count priv) (rotate (q_head priv) (vq_queue priv))). s \<noteq> NULL)"

lemma slot_blocks_append [simp]: "slot_blocks (xs @ ys) = slot_blocks xs @ slot_blocks ys"
  by (simp add: slot_blocks_def)

lemma slot_blocks_simps [simp]:
  "slot_blocks [] = []" "slot_blocks (None # xs) = slot_blocks xs" "slot_blocks (Some i # xs) = i # slot_blocks xs"
  by (simp_all add: slot_blocks_def)

lemma length_slot_blocks: "\<forall>s \<in> set xs. s \<noteq> NULL \<Longrightarrow> length (slot_blocks xs) = length xs"
  by (induction xs) auto

lemma length_queued: "queue_wf priv \<Longrightarrow> length (queued priv) = q_count priv"
  unfolding queue_wf_def queued_def by (subst length_slot_blocks) auto

lemma rotate_update:
  assumes "k < length xs"
  shows "rotate h (xs[(h + k) mod length xs := b]) = (rotate h xs)[k := b]"
proof (rule nth_equalityI)
  fix j assume j: "j < length (rotate h (xs[(h + k) mod length xs := b]))"
  have n: "0 < length xs" using assms by linarith
  have "(h + j) mod length xs = (h + k) mod length xs \<longleftrightarrow> j = k"
    using ring_slot_inj [of j "length xs" k h] j assms by auto
  then show "rotate h (xs[(h + k) mod length xs := b]) ! j = (rotate h xs)[k := b] ! j"
    using j assms n by (auto simp: nth_rotate nth_list_update)
qed simp

lemma put_room:
  assumes "length q = 8" "h < 8" "c < 8"
  shows "take (c + 1) (rotate h (q[(h + c) mod 8 := b])) = take c (rotate h q) @ [b]"
proof -
  have "take (c + 1) ((rotate h q)[c := b]) = take c (rotate h q) @ [b]"
    using assms by (simp add: take_Suc_conv_app_nth)
  with rotate_update [of c q h b] assms show ?thesis by simp
qed

lemma rotate_next:
  assumes "length q = 8" "h < 8" "0 < c" "c \<le> 8"
  shows "take (c - 1) (rotate ((h + 1) mod 8) q) = tl (take c (rotate h q))"
    "take c (rotate h q) = q ! h # tl (take c (rotate h q))"
proof -
  obtain x xs where r: "rotate h q = x # xs" using assms(1) by (cases "rotate h q") auto
  have "rotate ((h + 1) mod 8) q = rotate (Suc h) q" using rotate_conv_mod [of "Suc h" q] assms(1) by simp
  also have "\<dots> = xs @ [x]" by (simp add: r)
  finally have "rotate ((h + 1) mod 8) q = xs @ [x]" .
  moreover have "length xs = 7" using r assms(1) by (metis length_rotate length_Cons Suc_inject numeral_eq_Suc pred_numeral_simps(2) semiring_norm(26,27))
  ultimately show "take (c - 1) (rotate ((h + 1) mod 8) q) = tl (take c (rotate h q))"
    using assms r by (cases c) simp_all
  have "q ! h = x" using nth_rotate [of 0 q h] assms r by simp
  then show "take c (rotate h q) = q ! h # tl (take c (rotate h q))" using assms r by (cases c) simp_all
qed

lemma queue_take_ok:
  assumes "queue_wf priv" "queue_take priv = (r, p')"
  shows "queue_wf p' \<and> (case queued priv of [] \<Rightarrow> r = NULL \<and> p' = priv | i # rest \<Rightarrow> r = Some i \<and> queued p' = rest)"
proof (cases "q_count priv = 0")
  case True
  then show ?thesis using assms by (auto simp: queue_take_def queued_def)
next
  case False
  let ?q = "vq_queue priv" let ?h = "q_head priv" let ?c = "q_count priv"
  have w: "length ?q = 8" "?h < 8" "0 < ?c" "?c \<le> 8" using assms(1) False by (auto simp: queue_wf_def)
  note n = rotate_next [OF w]
  obtain i where i: "?q ! ?h = Some i"
    using assms(1) n(2) by (metis list.set_intros(1) not_None_eq queue_wf_def)
  have r: "r = Some i" and p': "p' = priv\<lparr>q_head := (?h + 1) mod 8, q_count := ?c - 1\<rparr>"
    using assms(2) False i by (auto simp: queue_take_def HUB_VIDEO_QUEUE_DEPTH_def)
  have "set (tl (take ?c (rotate ?h ?q))) \<subseteq> set (take ?c (rotate ?h ?q))" by (metis list.set_sel(2) n(2) list.sel(2) subsetI)
  moreover obtain d where d: "?c = Suc d" using False by (cases ?c) auto
  then have "(Suc ?h mod 8 + ?c - Suc 0) mod 8 = (?h + ?c) mod 8" by (simp add: mod_add_left_eq)
  ultimately have "queue_wf p'"
    using assms(1) False n(1) by (auto simp: queue_wf_def p')
  moreover have "queued priv = i # slot_blocks (tl (take ?c (rotate ?h ?q)))"
    unfolding queued_def by (subst n(2)) (simp add: i)
  moreover have "queued p' = slot_blocks (tl (take ?c (rotate ?h ?q)))"
    using n(1) by (simp add: queued_def p')
  ultimately show ?thesis using r by simp
qed

lemma queue_put_ok:
  assumes "queue_wf priv" "queue_put (Some b) priv = (dropped, p')"
  shows "queue_wf p' \<and>
    (if length (queued priv) < 8 then dropped = NULL \<and> queued p' = queued priv @ [b]
     else dropped = Some (hd (queued priv)) \<and> queued p' = tl (queued priv) @ [b])"
proof -
  have put: "queue_wf q' \<and> queued q' = queued q @ [b]"
    if "queue_wf q" "q_count q < 8"
      "q' = q\<lparr>vq_queue := (vq_queue q)[q_tail q := Some b], q_tail := (q_tail q + 1) mod 8, q_count := q_count q + 1\<rparr>" for q q'
    using that put_room [of "vq_queue q" "q_head q" "q_count q" "Some b"]
    by (auto simp: queue_wf_def queued_def mod_simps)
  show ?thesis
  proof (cases "q_count priv \<ge> 8")
    case False
    then show ?thesis
      using assms(2) put [OF assms(1)] length_queued [OF assms(1)]
      by (auto simp: queue_put_def HUB_VIDEO_QUEUE_DEPTH_def)
  next
    case True
    let ?p1 = "priv\<lparr>q_head := (q_head priv + 1) mod 8, q_count := q_count priv - 1\<rparr>"
    have c: "q_count priv = 8" using True assms(1) by (simp add: queue_wf_def)
    have t: "queue_take priv = (vq_queue priv ! q_head priv, ?p1)"
      using c by (simp add: queue_take_def HUB_VIDEO_QUEUE_DEPTH_def)
    have len: "length (queued priv) = 8" using length_queued [OF assms(1)] c by simp
    then obtain i rest where q: "queued priv = i # rest" by (cases "queued priv") auto
    have p1: "queue_wf ?p1" "vq_queue priv ! q_head priv = Some i" "queued ?p1 = rest"
      using queue_take_ok [OF assms(1) t] q by auto
    have "dropped = vq_queue priv ! q_head priv"
      "p' = ?p1\<lparr>vq_queue := (vq_queue ?p1)[q_tail ?p1 := Some b], q_tail := (q_tail ?p1 + 1) mod 8,
                q_count := q_count ?p1 + 1\<rparr>"
      using assms(2) True by (auto simp: queue_put_def HUB_VIDEO_QUEUE_DEPTH_def Let_def)
    with put [OF p1(1) _ this(2)] p1 q len c show ?thesis by simp
  qed
qed


section \<open>Steps of the two threads\<close>

text \<open>The render thread's turn in its two steps: taking a block off the queue and showing it, and giving it
  back. \<open>vs_hand\<close> is the block in between, \<open>vs_shown\<close> the sequence numbers of the frames shown.\<close>

record video_state =
  vs_priv :: video_priv
  vs_pool :: mem_pool
  vs_hand :: "nat option"
  vs_shown :: "u64 list"

datatype video_step = CaptureStep capture_turn | PopStep u64 | FinishStep

text \<open>Showing a frame at time \<open>now\<close>: the default sink counts it, a callback of the caller has no access to
  the pipeline's own state.\<close>

definition show_frame :: "bool \<Rightarrow> u64 \<Rightarrow> video_frame \<Rightarrow> video_priv \<Rightarrow> video_priv" where
  "show_frame dflt now frame p = (if dflt then the (fst (default_frame_sink now True frame (Some p))) else p)"

fun apply_step :: "bool \<Rightarrow> video_step \<Rightarrow> video_state \<Rightarrow> video_state" where
  "apply_step dflt (CaptureStep t) s =
     (case capture_thread_turn t (vs_priv s) (vs_pool s) of
        None \<Rightarrow> s
      | Some (p, m) \<Rightarrow> s\<lparr>vs_priv := p, vs_pool := m\<rparr>)"
| "apply_step dflt (PopStep now) s =
     (case vs_hand s of
        Some _ \<Rightarrow> s
      | None \<Rightarrow>
          (case queue_take (vs_priv s) of
             (None, p) \<Rightarrow> s\<lparr>vs_priv := p\<rparr>
           | (Some i, p) \<Rightarrow>
               let frame = frame_of (block_at (vs_pool s) i)
               in s\<lparr>vs_priv := show_frame dflt now frame p, vs_hand := Some i, vs_shown := vs_shown s @ [fr_seq frame]\<rparr>))"
| "apply_step dflt FinishStep s =
     (case vs_hand s of
        None \<Rightarrow> s
      | Some i \<Rightarrow> s\<lparr>vs_pool := pool_release i (vs_pool s), vs_hand := None\<rparr>)"

lemma show_frame_frame [simp]:
  "vq_queue (show_frame dflt now f p) = vq_queue p" "q_head (show_frame dflt now f p) = q_head p"
  "q_tail (show_frame dflt now f p) = q_tail p" "q_count (show_frame dflt now f p) = q_count p"
  "vp_seq (show_frame dflt now f p) = vp_seq p" "v4_fd (show_frame dflt now f p) = v4_fd p"
  "v4_bufs (show_frame dflt now f p) = v4_bufs p" "v4_buf_count (show_frame dflt now f p) = v4_buf_count p"
  by (simp_all add: show_frame_def default_frame_sink_def Let_def)

lemma queue_show_frame [simp]:
  "queue_wf (show_frame dflt now f p) = queue_wf p" "queued (show_frame dflt now f p) = queued p"
  by (simp_all add: queue_wf_def queued_def)

text \<open>The two steps one after the other are a turn of the render thread.\<close>

lemma render_turn_steps:
  assumes "q_count priv \<noteq> 0 \<or> \<not> running"
  shows "render_thread_turn waits (Some (show_frame dflt now)) running priv pool =
    (let s = apply_step dflt FinishStep (apply_step dflt (PopStep now)
               \<lparr>vs_priv = priv, vs_pool = pool, vs_hand = None, vs_shown = []\<rparr>)
     in Some (vs_priv s, map_option (\<lambda>i. frame_of (block_at pool i)) (fst (queue_take priv)), vs_pool s))"
proof -
  have "queue_pop waits 200 running priv = Some (queue_take priv)"
    using assms by (subst queue_pop.simps) auto
  then show ?thesis
    by (cases "queue_take priv") (auto simp: render_thread_turn_def Let_def split: option.split)
qed

text \<open>What the other thread does while a capture waits is a step of its own.\<close>

definition quiet :: "video_step \<Rightarrow> bool" where
  "quiet st = (case st of CaptureStep t \<Rightarrow> \<forall>w \<in> set (ct_wakes t). wk_ops w = [] | _ \<Rightarrow> True)"

lemma acquire_quiet:
  "pool_ok p \<Longrightarrow> \<forall>w \<in> set wakes. wk_ops w = [] \<Longrightarrow> hub_mem_pool_acquire wakes (Some p) ms = Some (r, pp) \<Longrightarrow>
   (case r of None \<Rightarrow> pp = Some p
    | Some i \<Rightarrow> pp = Some (take_block i p) \<and> first_free (pool_blocks p) = Some i)"
proof -
  assume ok: "pool_ok p" and "\<forall>w \<in> set wakes. wk_ops w = []"
    and a: "hub_mem_pool_acquire wakes (Some p) ms = Some (r, pp)"
  have "case acquire_loop wakes ms p of None \<Rightarrow> True | Some (None, p') \<Rightarrow> p' = p
      | Some (Some i, p') \<Rightarrow> p' = take_block i p \<and> first_free (pool_blocks p) = Some i"
    using \<open>\<forall>w \<in> set wakes. wk_ops w = []\<close>
  proof (induction wakes)
    case Nil
    then show ?case by (subst acquire_loop_ok [OF ok]) (auto split: option.split)
  next
    case (Cons w ws)
    then show ?case by (subst acquire_loop_ok [OF ok]) (auto split: option.split)
  qed
  moreover obtain bs where "mp_blocks p = Some bs" using ok by (auto simp: pool_ok_def)
  ultimately show ?thesis
    using a by (auto simp: hub_mem_pool_acquire_def split: option.splits)
qed

lemma block_at_update [simp]:
  "block_at (update_block j f p) i = (if i = j \<and> j < length (pool_blocks p) then f (block_at p j) else block_at p i)"
  by (auto simp: block_at_def)

lemma seq_release [simp]: "mb_seq (block_at (pool_release d p) j) = mb_seq (block_at p j)"
  by (simp add: pool_release_def hub_mem_pool_release_def release_sub_def release_store_def set_refs_def)

lemma length_pool_release [simp]: "length (pool_blocks (pool_release d p)) = length (pool_blocks p)"
  by (simp add: pool_release_def)

text \<open>The invariant: the blocks in the queue and in the render thread's hand are the references in
  circulation, each once; the sequence numbers rise from the frames shown through the queue to the
  counter.\<close>

definition seq_of :: "mem_pool \<Rightarrow> nat \<Rightarrow> nat" where
  "seq_of pool i = unat (mb_seq (block_at pool i))"

definition in_use :: "video_state \<Rightarrow> nat list" where
  "in_use s = queued (vs_priv s) @ (case vs_hand s of None \<Rightarrow> [] | Some i \<Rightarrow> [i])"

definition rising :: "nat list \<Rightarrow> nat \<Rightarrow> bool" where
  "rising xs n \<longleftrightarrow> sorted_wrt (<) xs \<and> (\<forall>x \<in> set xs. x \<le> n)"

definition video_inv :: "nat \<Rightarrow> video_state \<Rightarrow> bool" where
  "video_inv room s \<longleftrightarrow> queue_wf (vs_priv s) \<and> pool_counts (mset (in_use s)) (vs_pool s) \<and> distinct (in_use s) \<and>
     rising (map unat (vs_shown s) @ map (seq_of (vs_pool s)) (queued (vs_priv s))) (unat (vp_seq (vs_priv s))) \<and>
     unat (vp_seq (vs_priv s)) + room < 2 ^ 64"

lemma rising_tl: "rising (xs @ ys) n \<Longrightarrow> rising (xs @ tl ys) n"
  by (cases ys) (auto simp: rising_def sorted_wrt_append)

lemma rising_snoc: "rising xs n \<Longrightarrow> rising (xs @ [Suc n]) (Suc n)"
  by (auto simp: rising_def sorted_wrt_append)

lemma fill_block_refs [simp]: "mb_refs (fill_block n d priv now b) = mb_refs b"
  by (simp add: fill_block_def)

lemma counts_fill:
  assumes "pool_counts H p"
  shows "pool_counts H (update_block i (fill_block n d priv now) p)"
  using assms by (auto simp: pool_counts_def counts_held_def nth_list_update)

lemma queue_frame_inv:
  assumes "video_inv (Suc room) s" "first_free (pool_blocks (vs_pool s)) = Some i"
    and "priv' = (vs_priv s)\<lparr>stat_captured_frames := c\<rparr>"
    and "queue_frame n d now i priv' (take_block i (vs_pool s)) = (p2, m2)"
  shows "video_inv room (s\<lparr>vs_priv := p2, vs_pool := m2\<rparr>)"
proof -
  let ?priv = "vs_priv s" let ?pool = "vs_pool s"
  let ?hand = "case vs_hand s of None \<Rightarrow> [] | Some i \<Rightarrow> [i]"
  have inv: "queue_wf ?priv" "pool_counts (mset (queued ?priv @ ?hand)) ?pool" "distinct (queued ?priv @ ?hand)"
    "rising (map unat (vs_shown s) @ map (seq_of ?pool) (queued ?priv)) (unat (vp_seq ?priv))"
    "unat (vp_seq ?priv) + Suc room < 2 ^ 64"
    using assms(1) unfolding video_inv_def in_use_def by blast+
  have free: "i < length (pool_blocks ?pool)" "mb_refs (pool_blocks ?pool ! i) = 0"
    using first_free_Some [OF assms(2)] by simp_all
  have small: "size (mset (queued ?priv @ ?hand)) + 1 < 2 ^ 31"
    using length_queued [OF inv(1)] inv(1) by (simp add: queue_wf_def split: option.split)
  have held: "counts_held (mset (queued ?priv @ ?hand)) ?pool" "pool_ok ?pool"
    using inv(2) by (simp_all add: pool_counts_def)
  have new: "i \<notin> set (queued ?priv @ ?hand)"
    using take_block_held(2) [OF held(1) free small] by (metis set_mset_mset)
  define p1 where "p1 = priv'\<lparr>vp_seq := vp_seq priv' + 1\<rparr>"
  define m1 where "m1 = update_block i (fill_block n d p1 now) (take_block i ?pool)"
  have seq1: "unat (vp_seq p1) = Suc (unat (vp_seq ?priv))"
    using inv(5) by (simp add: p1_def assms(3) unat_word_ariths)
  have m1: "pool_counts (add_mset i (mset (queued ?priv @ ?hand))) m1"
    unfolding m1_def using take_block_held(1) [OF held(1) free small] held(2)
    by (intro counts_fill) (simp add: pool_counts_def)
  have seqs: "seq_of m1 i = Suc (unat (vp_seq ?priv))" "j \<noteq> i \<Longrightarrow> seq_of m1 j = seq_of ?pool j" for j
    using free seq1 by (simp_all add: seq_of_def m1_def fill_block_def take_block_def)
  have wf1: "queue_wf p1" "queued p1 = queued ?priv"
    using inv(1) by (simp_all add: p1_def assms(3) queue_wf_def queued_def)
  obtain dropped p' where put: "queue_put (Some i) p1 = (dropped, p')" by fastforce
  note ok = queue_put_ok [OF wf1(1) put]
  have frame: "vp_seq p' = vp_seq p1" using put by (auto simp: queue_put_def Let_def split: if_splits)
  have qf: "(p2, m2) = (case dropped of None \<Rightarrow> (p', m1)
      | Some d \<Rightarrow> (p'\<lparr>stat_drop_queue := stat_drop_queue p' + 1\<rparr>, pool_release d m1))"
    unfolding m1_def using assms(4) put by (simp add: queue_frame_def queue_push_def p1_def [symmetric] Let_def)
  define rest where "rest = (if length (queued ?priv) < 8 then queued ?priv else tl (queued ?priv))"
  have p2: "queue_wf p2" "queued p2 = rest @ [i]" "vp_seq p2 = vp_seq p1"
    using ok qf wf1 frame by (auto simp: rest_def queue_wf_def queued_def split: if_splits)
  have sub: "set rest \<subseteq> set (queued ?priv)" by (cases "queued ?priv") (auto simp: rest_def)
  have m2: "pool_counts (mset (rest @ [i] @ ?hand)) m2" "seq_of m2 = seq_of m1"
  proof -
    show "seq_of m2 = seq_of m1" using qf by (auto simp: seq_of_def split: option.splits)
    show "pool_counts (mset (rest @ [i] @ ?hand)) m2"
    proof (cases "length (queued ?priv) < 8")
      case True
      then show ?thesis using ok qf wf1 m1 by (simp add: rest_def)
    next
      case False
      then obtain q qs where q: "queued ?priv = q # qs" by (cases "queued ?priv") auto
      have "pool_counts (add_mset i (mset (queued ?priv @ ?hand)) - {#q#}) (pool_release q m1)"
        using m1 q by (intro frames.rel_held) simp_all
      then show ?thesis using ok qf wf1 False q by (simp add: rest_def add_mset_commute)
    qed
  qed
  have d: "distinct (rest @ [i] @ ?hand)"
    using inv(3) new sub by (auto simp: rest_def distinct_tl)
  have "i \<notin> set rest" using new sub by auto
  then have "map (seq_of m2) rest = map (seq_of ?pool) rest"
    unfolding m2(2) by (intro map_cong refl seqs(2)) auto
  then have seqs2: "map (seq_of m2) (rest @ [i]) = map (seq_of ?pool) rest @ [Suc (unat (vp_seq ?priv))]"
    using seqs(1) m2(2) by (simp only: map_append list.map)
  have "rising (map unat (vs_shown s) @ map (seq_of ?pool) rest) (unat (vp_seq ?priv))"
    using inv(4) rising_tl [of "map unat (vs_shown s)" "map (seq_of ?pool) (queued ?priv)"]
    by (simp add: rest_def map_tl)
  from rising_snoc [OF this]
  have "rising (map unat (vs_shown s) @ map (seq_of m2) (rest @ [i])) (unat (vp_seq p2))"
    unfolding seqs2 p2(3) seq1 by simp
  with p2 m2(1) d inv(5) seq1 show ?thesis
    by (simp add: video_inv_def in_use_def)
qed


lemma camera_frame_inv:
  assumes "video_inv (Suc room) s" "quiet (CaptureStep t)"
    and "acq = hub_mem_pool_acquire (ct_wakes t) (Some (vs_pool s)) ms"
  shows "case acq of
      None \<Rightarrow> True
    | Some (None, pp) \<Rightarrow> pp = Some (vs_pool s)
    | Some (Some i, pp) \<Rightarrow> pp = Some (take_block i (vs_pool s)) \<and> first_free (pool_blocks (vs_pool s)) = Some i"
proof -
  have "pool_ok (vs_pool s)" using assms(1) by (simp add: video_inv_def pool_counts_def)
  from acquire_quiet [OF this, of "ct_wakes t" ms] assms(2,3) show ?thesis
    by (simp add: quiet_def split: option.split prod.split)
qed

lemma inv_counters:
  assumes "video_inv (Suc room) s"
    and "priv' = (vs_priv s)\<lparr>stat_captured_frames := c, stat_drop_pool := d\<rparr>"
  shows "video_inv room (s\<lparr>vs_priv := priv', vs_pool := vs_pool s\<rparr>)"
  using assms(1) by (simp add: assms(2) video_inv_def in_use_def queue_wf_def queued_def)

lemma capture_step_inv:
  assumes "video_inv (Suc room) s" "quiet (CaptureStep t)"
  shows "video_inv room (apply_step dflt (CaptureStep t) s)"
proof -
  have same: "video_inv room s" using assms(1) by (simp add: video_inv_def)
  have "case turn of None \<Rightarrow> True | Some (p, m) \<Rightarrow> video_inv room (s\<lparr>vs_priv := p, vs_pool := m\<rparr>)"
    if turn: "turn = camera_frame_turn t (vs_priv s) (vs_pool s) \<or> turn = synthetic_turn t (vs_priv s) (vs_pool s)" for turn
  proof -
    obtain ms where ms: "turn = camera_frame_turn t (vs_priv s) (vs_pool s) \<and> ms = 20 \<or>
        turn = synthetic_turn t (vs_priv s) (vs_pool s) \<and> ms = (50 :: int)" using turn by blast
    let ?acq = "hub_mem_pool_acquire (ct_wakes t) (Some (vs_pool s)) ms"
    note acq = camera_frame_inv [OF assms refl, of ms]
    consider (wait) "?acq = None" | (none) "?acq = Some (None, Some (vs_pool s))"
      | (block) i where "?acq = Some (Some i, Some (take_block i (vs_pool s)))"
          "first_free (pool_blocks (vs_pool s)) = Some i"
    proof (cases ?acq)
      case None
      then show ?thesis by (rule wait)
    next
      case (Some a)
      obtain r pp where a: "a = (r, pp)" by fastforce
      note eq = Some [unfolded a]
      show ?thesis
        using acq none block unfolding eq by (cases r) auto
    qed
    then show ?thesis
    proof cases
      case wait
      with ms show ?thesis by (auto simp: camera_frame_turn_def synthetic_turn_def Let_def)
    next
      case none
      have s1: "(vs_priv s)\<lparr>stat_captured_frames := x, stat_drop_pool := y\<rparr> =
          (vs_priv s)\<lparr>stat_drop_pool := y, stat_captured_frames := x\<rparr>" for x y by simp
      have s2: "(vs_priv s)\<lparr>stat_drop_pool := y\<rparr> =
          (vs_priv s)\<lparr>stat_captured_frames := stat_captured_frames (vs_priv s), stat_drop_pool := y\<rparr>" for y by simp
      from none ms show ?thesis
        using inv_counters [OF assms(1) refl, where c = "stat_captured_frames (vs_priv s) + 1" and d = "stat_drop_pool (vs_priv s) + 1"]
          inv_counters [OF assms(1) s2, of "stat_drop_pool (vs_priv s) + 1"]
        by (auto simp: camera_frame_turn_def synthetic_turn_def Let_def)
    next
      case block
      then obtain n d where "turn = Some (queue_frame n d (ct_now t) i
          ((vs_priv s)\<lparr>stat_captured_frames := stat_captured_frames (vs_priv s) + 1\<rparr>) (take_block i (vs_pool s)))"
        using ms by (auto simp: camera_frame_turn_def synthetic_turn_def Let_def)
      with queue_frame_inv [OF assms(1) block(2) refl] show ?thesis
        by (auto split: prod.split)
    qed
  qed
  note turn = this
  have "s\<lparr>vs_priv := vs_priv s, vs_pool := vs_pool s\<rparr> = s" by simp
  with same turn [of "camera_frame_turn t (vs_priv s) (vs_pool s)"]
    turn [of "synthetic_turn t (vs_priv s) (vs_pool s)"]
  show ?thesis
    by (auto simp: capture_thread_turn_def split: option.splits)
qed

lemma pop_step_inv:
  assumes "video_inv room s"
  shows "video_inv room (apply_step dflt (PopStep now) s)"
proof (cases "vs_hand s")
  case (Some i)
  with assms show ?thesis by simp
next
  case None
  obtain r p' where t: "queue_take (vs_priv s) = (r, p')" by fastforce
  have wf: "queue_wf (vs_priv s)" using assms by (simp add: video_inv_def)
  note ok = queue_take_ok [OF wf t]
  have seq: "vp_seq p' = vp_seq (vs_priv s)" using t by (auto simp: queue_take_def split: if_splits)
  show ?thesis
  proof (cases "queued (vs_priv s)")
    case Nil
    then have "r = NULL" "p' = vs_priv s" using ok by auto
    with None t assms show ?thesis by simp
  next
    case (Cons i rest)
    then have "r = Some i" "queued p' = rest" "queue_wf p'" using ok by auto
    with None t assms Cons seq show ?thesis
      by (simp add: video_inv_def in_use_def frame_of_def seq_of_def)
  qed
qed

lemma finish_step_inv:
  assumes "video_inv room s"
  shows "video_inv room (apply_step dflt FinishStep s)"
proof (cases "vs_hand s")
  case None
  with assms show ?thesis by simp
next
  case (Some i)
  have "seq_of (pool_release i (vs_pool s)) = seq_of (vs_pool s)" by (auto simp: seq_of_def)
  moreover have "pool_counts (mset (in_use s) - {#i#}) (pool_release i (vs_pool s))"
    using assms Some by (intro frames.rel_held) (simp_all add: video_inv_def in_use_def)
  ultimately show ?thesis using assms Some by (simp add: video_inv_def in_use_def)
qed

lemma run_inv:
  "list_all quiet steps \<Longrightarrow> video_inv (length steps) s \<Longrightarrow> video_inv 0 (fold (apply_step dflt) steps s)"
proof (induction steps arbitrary: s)
  case (Cons st steps)
  have weak: "video_inv (length steps) s" using Cons.prems(2) by (simp add: video_inv_def)
  have "video_inv (length steps) (apply_step dflt st s)"
  proof (cases st)
    case (CaptureStep t)
    then show ?thesis using capture_step_inv [of "length steps" s t] Cons.prems by simp
  next
    case (PopStep now)
    then show ?thesis using pop_step_inv [OF weak] by simp
  next
    case FinishStep
    then show ?thesis using finish_step_inv [OF weak] by simp
  qed
  then show ?case using Cons by simp
qed simp

section \<open>From the start\<close>

definition video_begin :: "video_priv \<Rightarrow> mem_pool \<Rightarrow> video_state" where
  "video_begin priv pool = \<lparr>vs_priv = priv, vs_pool = pool, vs_hand = None, vs_shown = []\<rparr>"

lemma close_frame:
  "close_v4l2 cp priv = (cp', p') \<Longrightarrow>
   vq_queue p' = vq_queue priv \<and> q_head p' = q_head priv \<and> q_count p' = q_count priv \<and> q_tail p' = q_tail priv \<and>
   vp_seq p' = vp_seq priv"
  by (auto simp: close_v4l2_def Let_def split: if_splits)

lemma open_frame:
  "open_v4l2 env cp priv = (r, cp', p') \<Longrightarrow>
   vq_queue p' = vq_queue priv \<and> q_head p' = q_head priv \<and> q_count p' = q_count priv \<and> q_tail p' = q_tail priv \<and>
   vp_seq p' = vp_seq priv"
  by (auto simp: open_v4l2_def Let_def split: if_splits option.splits prod.splits dest!: close_frame)

lemma start_state:
  assumes "hub_video_pipeline_start alloc_ok camera True True early cp plp (Some cfg) (Some pool) cb = (0, cp1, Some pl, poolp)"
  shows "\<exists>priv. pl_priv pl = Some priv \<and> poolp = Some pool \<and> queue_wf priv \<and> queued priv = [] \<and> vp_seq priv = 0 \<and>
    (\<exists>r p0. open_v4l2 camera cp p0 = (r, cp1, priv) \<and> v4_fd p0 = - 1 \<and> v4_bufs p0 = v4_bufs priv_zero \<and>
       v4_buf_count p0 = 0)"
proof -
  let ?p0 = "priv_zero\<lparr>vp_width := video_width cfg, vp_height := video_height cfg, vp_lut := init_yuv_lut, v4_fd := - 1\<rparr>"
  obtain r cp2 p1 where o: "open_v4l2 camera cp ?p0 = (r, cp2, p1)" by (metis prod_cases3)
  then have "alloc_ok" "pl_priv pl = Some p1" "poolp = Some pool" "cp1 = cp2"
    using assms by (auto simp: hub_video_pipeline_start_def Let_def split: option.splits if_splits)
  moreover have "queue_wf p1 \<and> queued p1 = [] \<and> vp_seq p1 = 0"
    using open_frame [OF o] by (simp add: queue_wf_def queued_def priv_zero_def HUB_VIDEO_QUEUE_DEPTH_def)
  moreover have "v4_fd ?p0 = - 1" "v4_bufs ?p0 = v4_bufs priv_zero" "v4_buf_count ?p0 = 0" by (simp_all add: priv_zero_def)
  ultimately show ?thesis using o by blast
qed

lemma begin_inv:
  assumes "queue_wf priv" "queued priv = []" "vp_seq priv = 0" "pool_counts {#} pool" "n < 2 ^ 64"
  shows "video_inv n (video_begin priv pool)"
  using assms by (simp add: video_inv_def video_begin_def in_use_def rising_def)


section \<open>What the stop gives back\<close>

lemma stop_sweep:
  "fold (\<lambda>slot p. case slot of None \<Rightarrow> p | Some i \<Rightarrow> pool_release i p) slots pool = fold pool_release (slot_blocks slots) pool"
  by (induction slots arbitrary: pool) (auto split: option.split)

lemma queued_in_slots: "mset (queued priv) \<subseteq># mset (slot_blocks (vq_queue priv))"
proof -
  have "mset (slot_blocks (rotate h q)) = mset (slot_blocks q)" for h q
  proof -
    have one: "mset (slot_blocks (rotate1 xs)) = mset (slot_blocks xs)" for xs
      by (cases xs) (simp_all add: slot_blocks_def)
    show ?thesis by (induction h) (simp_all add: one)
  qed
  moreover have "mset (slot_blocks (take c xs)) \<subseteq># mset (slot_blocks xs)" for c xs
    by (metis append_take_drop_id mset_append mset_subset_eq_add_left slot_blocks_append)
  ultimately show ?thesis unfolding queued_def by metis
qed

lemma step_frame:
  "v4_fd (vs_priv (apply_step dflt st s)) = v4_fd (vs_priv s) \<and> v4_bufs (vs_priv (apply_step dflt st s)) = v4_bufs (vs_priv s) \<and>
   v4_buf_count (vs_priv (apply_step dflt st s)) = v4_buf_count (vs_priv s)"
proof -
  have put: "v4_fd p' = v4_fd p \<and> v4_bufs p' = v4_bufs p \<and> v4_buf_count p' = v4_buf_count p"
    if "queue_frame n d now i p m = (p', m')" for n d now i p p' m m'
    using that by (auto simp: queue_frame_def queue_push_def queue_put_def Let_def split: if_splits option.splits prod.splits)
  show ?thesis
  proof (cases st)
    case (CaptureStep t)
    then show ?thesis
      by (auto simp: capture_thread_turn_def camera_frame_turn_def synthetic_turn_def Let_def
          split: option.splits prod.splits if_splits dest!: put sym [of "(_, _)" "queue_frame _ _ _ _ _ _"])
  next
    case (PopStep now)
    then show ?thesis
      by (auto simp: queue_take_def Let_def split: option.splits prod.splits if_splits)
  next
    case FinishStep
    then show ?thesis by (auto split: option.splits)
  qed
qed

lemma run_frame:
  "v4_fd (vs_priv (fold (apply_step dflt) steps s)) = v4_fd (vs_priv s) \<and>
   v4_bufs (vs_priv (fold (apply_step dflt) steps s)) = v4_bufs (vs_priv s) \<and>
   v4_buf_count (vs_priv (fold (apply_step dflt) steps s)) = v4_buf_count (vs_priv s)"
  by (induction steps arbitrary: s) (simp_all add: step_frame)

lemma filter_update:
  "i < length xs \<Longrightarrow> length (filter P (xs[i := x])) + (if P (xs ! i) then 1 else 0) =
     length (filter P xs) + (if P x then 1 else 0)"
proof (induction xs arbitrary: i)
  case (Cons y ys)
  then show ?case by (cases i) auto
qed simp

text \<open>The mappings counted are those the buffers hold.\<close>

lemma map_buffers_counted:
  assumes "map_buffers env n i maps bufs = (ok, maps', bufs')" "i + n \<le> length bufs"
    and "\<forall>j \<ge> i. j < length bufs \<longrightarrow> \<not> is_mapped (bufs ! j)"
  shows "maps' - int (length (filter is_mapped bufs')) = maps - int (length (filter is_mapped bufs)) \<and>
    length bufs' = length bufs \<and> (\<forall>j \<ge> i + n. j < length bufs \<longrightarrow> \<not> is_mapped (bufs' ! j))"
  using assms
proof (induction n arbitrary: i maps bufs)
  case (Suc n)
  have i: "i < length bufs" "\<not> is_mapped (bufs ! i)" using Suc.prems(2,3) by simp_all
  have upd: "length (filter is_mapped (bufs[i := b])) = length (filter is_mapped bufs) + (if is_mapped b then 1 else 0)" for b
    using filter_update [OF i(1), of is_mapped b] i(2) by simp
  have rest: "\<forall>j \<ge> Suc i. j < length (bufs[i := b]) \<longrightarrow> \<not> is_mapped (bufs[i := b] ! j)" for b
    using Suc.prems(3) by simp
  have m: "\<not> is_mapped (MapFailed, len)" "is_mapped (Mapped, len)" for len by (simp_all add: is_mapped_def)
  show ?case
  proof (cases "ca_query env i")
    case None
    then show ?thesis using Suc.prems by auto
  next
    case (Some len)
    consider "\<not> ca_mmap env i" | "ca_mmap env i" "\<not> ca_qbuf env i" | "ca_mmap env i" "ca_qbuf env i" by blast
    then show ?thesis
    proof cases
      case 3
      then have "map_buffers env n (Suc i) (maps + 1) (bufs[i := (Mapped, len)]) = (ok, maps', bufs')"
        using Some Suc.prems(1) by simp
      from Suc.IH [OF this] Suc.prems(2) rest upd m show ?thesis by simp
    qed (use Some Suc.prems upd m in auto)
  qed
qed simp

lemma filter_drop_none:
  assumes "k \<le> length xs" "\<forall>j \<ge> k. j < length xs \<longrightarrow> \<not> P (xs ! j)"
  shows "filter P (drop k xs) = []"
proof -
  have "\<not> P (drop k xs ! i)" if "i < length (drop k xs)" for i
    using assms that by simp
  then show ?thesis by (metis filter_empty_conv in_set_conv_nth)
qed

lemma open_camera_balanced:
  assumes "open_v4l2 env cp p0 = (r, cp1, p1)" and "v4_bufs p0 = replicate 4 (NotMapped, 0)" and "v4_buf_count p0 = 0"
  shows "fst (close_v4l2 cp1 p1) = cp \<and> (r \<noteq> 0 \<longrightarrow> cp1 = cp \<and> v4_fd p1 = - 1)"
proof -
  let ?fd = "fd_new (cp_fds cp)"
  have fd: "(?fd < 0) = False" using fd_new_free(2) [of "cp_fds cp"] by (simp add: not_less)
  have closes: "fst (close_v4l2 (cp\<lparr>cp_fds := ?fd # cp_fds cp, cp_maps := m\<rparr>) p) = cp \<and>
      v4_fd (snd (close_v4l2 (cp\<lparr>cp_fds := ?fd # cp_fds cp, cp_maps := m\<rparr>) p)) = - 1"
    if "v4_fd p = ?fd" "m = cp_maps cp + int (length (filter is_mapped (take (v4_buf_count p) (v4_bufs p))))" for p m
    using that fd by (simp add: close_v4l2_def Let_def)
  have fresh: "fst (close_v4l2 (cp\<lparr>cp_fds := ?fd # cp_fds cp\<rparr>) p) = cp \<and>
      v4_fd (snd (close_v4l2 (cp\<lparr>cp_fds := ?fd # cp_fds cp\<rparr>) p)) = - 1"
    if "v4_fd p = ?fd" "v4_buf_count p = 0" for p
    using closes [of p "cp_maps cp"] that by simp
  show ?thesis
  proof (cases "ca_open env \<and> ca_querycap env \<and> ca_format env \<noteq> None \<and> ca_reqbufs env \<noteq> None \<and> 2 \<le> the (ca_reqbufs env)")
    case False
    then show ?thesis
      using assms fresh fd
      by (auto simp: open_v4l2_def Let_def close_v4l2_def split: if_splits option.splits prod.splits)
  next
    case True
    then obtain w h granted where c: "ca_format env = Some (w, h)" "ca_reqbufs env = Some granted" "2 \<le> granted" by auto
    let ?n = "if granted > 4 then HUB_V4L2_BUF_COUNT else unat granted"
    have n: "?n \<le> 4" by (simp add: HUB_V4L2_BUF_COUNT_def linorder_not_less word_le_nat_alt)
    obtain ok m bufs where mb: "map_buffers env ?n 0 (cp_maps cp) (v4_bufs p0) = (ok, m, bufs)" by (metis prod_cases3)
    from map_buffers_counted [OF mb] assms(2) n
    have counted: "m = cp_maps cp + int (length (filter is_mapped bufs))" "length bufs = 4"
        "\<forall>j \<ge> ?n. j < 4 \<longrightarrow> \<not> is_mapped (bufs ! j)"
      by (simp_all add: is_mapped_def)
    have "filter is_mapped (drop ?n bufs) = []"
      using counted(2,3) n by (intro filter_drop_none) simp_all
    then have "filter is_mapped bufs = filter is_mapped (take ?n bufs)"
      by (metis append_Nil2 append_take_drop_id filter_append)
    then have cl: "fst (close_v4l2 (cp\<lparr>cp_fds := ?fd # cp_fds cp, cp_maps := m\<rparr>) p) = cp \<and>
        v4_fd (snd (close_v4l2 (cp\<lparr>cp_fds := ?fd # cp_fds cp, cp_maps := m\<rparr>) p)) = - 1"
      if "v4_fd p = ?fd" "v4_buf_count p = ?n" "v4_bufs p = bufs" for p
      using closes [of p m] that counted(1) by simp
    let ?p3 = "p0\<lparr>v4_fd := ?fd, vp_width := c_int (uint w), vp_height := c_int (uint h), v4_buf_count := ?n, v4_bufs := bufs\<rparr>"
    let ?cp2 = "cp\<lparr>cp_fds := ?fd # cp_fds cp, cp_maps := m\<rparr>"
    have run: "open_v4l2 env cp p0 = (if ok \<and> ca_streamon env then (0, ?cp2, ?p3)
        else (- 1, fst (close_v4l2 ?cp2 ?p3), snd (close_v4l2 ?cp2 ?p3)))"
      using True c mb by (simp add: open_v4l2_def Let_def not_le [symmetric] case_prod_unfold)
    have cl3: "fst (close_v4l2 ?cp2 ?p3) = cp" "v4_fd (snd (close_v4l2 ?cp2 ?p3)) = - 1"
      using cl [of ?p3] by simp_all
    have again: "fst (close_v4l2 cp p) = cp" if "v4_fd p = - 1" for p using that by (simp add: close_v4l2_def)
    show ?thesis
    proof (cases "ok \<and> ca_streamon env")
      case True
      then have "r = 0" "cp1 = ?cp2" "p1 = ?p3" using assms(1) unfolding run by simp_all
      then show ?thesis using cl3 by simp
    next
      case False
      then have "r = - 1" "cp1 = fst (close_v4l2 ?cp2 ?p3)" "p1 = snd (close_v4l2 ?cp2 ?p3)"
        using assms(1) unfolding run by (simp_all only: if_False prod.inject)
      then show ?thesis using cl3 again by simp
    qed
  qed
qed

text \<open>When both threads have ended, the stop returns what the start and every frame took: the
  references of the blocks still queued, the camera's descriptor and its mapped buffers; so the pool
  is whole and the process holds what it held before the start.\<close>

theorem video_stop_gives_back:
  assumes "hub_video_pipeline_start alloc_ok camera True True early cp plp (Some cfg) (Some pool) cb =
      (0, cp1, Some pl, Some pool1)" and "pl_priv pl = Some priv"
    and "pool_counts {#} pool" and "list_all quiet steps" and "length steps < 2 ^ 64"
    and "s = fold (apply_step dflt) steps (video_begin priv pool1)" and "vs_hand s = None"
    and "hub_video_pipeline_stop cp1 (Some (pl\<lparr>pl_priv := Some (vs_priv s)\<rparr>)) (vs_pool s) = (cp2, plp2, pool2)"
  shows "cp2 = cp \<and> pool_counts {#} pool2 \<and>
    plp2 = Some (pl\<lparr>pl_running := 0, pl_capture_thread := False, pl_render_thread := False, pl_priv := NULL\<rparr>)"
proof -
  have "video_inv (length steps) (video_begin priv pool1)"
    using start_state [OF assms(1)] assms(2,3,5) by (intro begin_inv) auto
  from run_inv [OF assms(4) this, of dflt] have "pool_counts (mset (queued (vs_priv s))) (vs_pool s)"
    using assms(7) by (simp add: assms(6) [symmetric] video_inv_def in_use_def)
  from frames.sweep [OF this queued_in_slots]
  have pool: "pool_counts {#} (fold pool_release (slot_blocks (vq_queue (vs_priv s))) (vs_pool s))" .
  obtain r p0 where "open_v4l2 camera cp p0 = (r, cp1, priv)" "v4_bufs p0 = replicate 4 (NotMapped, 0)" "v4_buf_count p0 = 0"
    using start_state [OF assms(1)] assms(2) by (auto simp: priv_zero_def HUB_V4L2_BUF_COUNT_def)
  from open_camera_balanced [OF this] have cam: "fst (close_v4l2 cp1 priv) = cp" by simp
  have same: "fst (close_v4l2 cp1 ((vs_priv s)\<lparr>vq_queue := q\<rparr>)) = fst (close_v4l2 cp1 priv)" for q
    using run_frame [of dflt steps "video_begin priv pool1"]
    by (simp only: assms(6) [symmetric]) (simp add: close_v4l2_def Let_def video_begin_def)
  obtain p2 where "close_v4l2 cp1 ((vs_priv s)\<lparr>vq_queue := map (\<lambda>_. NULL) (vq_queue (vs_priv s))\<rparr>) = (cp, p2)"
    using same cam by (metis prod.collapse)
  with pool assms(8) show ?thesis
    by (simp add: hub_video_pipeline_stop_def Let_def stop_sweep)
qed

section \<open>An instance\<close>

definition demo_camera :: camera_env where
  "demo_camera = \<lparr>ca_open = True, ca_querycap = True, ca_format = Some (2, 1), ca_reqbufs = Some 2,
     ca_query = (\<lambda>_. Some 4), ca_mmap = (\<lambda>_. True), ca_qbuf = (\<lambda>_. True), ca_streamon = True\<rparr>"

definition demo_cam_proc :: cam_proc where
  "demo_cam_proc = \<lparr>cp_fds = [0, 1, 2], cp_maps = 0\<rparr>"

definition demo_pipeline :: video_pipeline where
  "demo_pipeline = \<lparr>pl_config = hub_config_set_defaults, pl_default_sink = False, pl_capture_thread = False,
     pl_render_thread = False, pl_running = 0, pl_priv = NULL\<rparr>"

definition demo_capture :: capture_turn where
  "demo_capture = \<lparr>ct_poll = True, ct_dequeue = True, ct_index = 1, ct_bytes = [16, 128, 235, 128],
     ct_wakes = [\<lparr>wk_now = (0, 0), wk_timeout = (\<lambda>_. True), wk_ops = []\<rparr>], ct_now = 7\<rparr>"

definition demo_steps :: "video_step list" where
  "demo_steps = [CaptureStep demo_capture, PopStep 7, CaptureStep demo_capture, CaptureStep demo_capture, FinishStep]"

lemma demo_started:
  "\<exists>cp1 pl priv. hub_video_pipeline_start True demo_camera True True [] demo_cam_proc (Some demo_pipeline)
       (Some hub_config_set_defaults) (Some pool_demo) False = (0, cp1, Some pl, Some pool_demo) \<and> pl_priv pl = Some priv"
proof -
  let ?p0 = "priv_zero\<lparr>vp_width := video_width hub_config_set_defaults, vp_height := video_height hub_config_set_defaults,
      vp_lut := init_yuv_lut, v4_fd := - 1\<rparr>"
  obtain r cp1 p1 where "open_v4l2 demo_camera demo_cam_proc ?p0 = (r, cp1, p1)" by (metis prod_cases3)
  then show ?thesis by (simp add: hub_video_pipeline_start_def Let_def)
qed

lemma demo_quiet: "list_all quiet demo_steps" "length demo_steps < 2 ^ 64"
  by (simp_all add: demo_steps_def quiet_def demo_capture_def)

lemma demo_pool_whole: "pool_counts {#} pool_demo"
  by (simp add: pool_counts_def pool_ok_def counts_held_def pool_blocks_def pool_demo_def demo_block_def block_zero_def
      nth_Cons' less_Suc_eq)

lemma demo_hand: "vs_hand (fold (apply_step True) demo_steps s) = None"
  by (simp add: demo_steps_def split: option.split)


theorem video_stop_gives_back_witness:
  "\<exists>cp1 pl priv s pool2 plp2. hub_video_pipeline_start True demo_camera True True [] demo_cam_proc (Some demo_pipeline)
       (Some hub_config_set_defaults) (Some pool_demo) False = (0, cp1, Some pl, Some pool_demo) \<and>
     pl_priv pl = Some priv \<and> s = fold (apply_step True) demo_steps (video_begin priv pool_demo) \<and>
     hub_video_pipeline_stop cp1 (Some (pl\<lparr>pl_priv := Some (vs_priv s)\<rparr>)) (vs_pool s) = (demo_cam_proc, plp2, pool2) \<and>
     pool_counts {#} pool2"
proof -
  obtain cp1 pl priv where st: "hub_video_pipeline_start True demo_camera True True [] demo_cam_proc (Some demo_pipeline)
       (Some hub_config_set_defaults) (Some pool_demo) False = (0, cp1, Some pl, Some pool_demo)" "pl_priv pl = Some priv"
    using demo_started by blast
  let ?s = "fold (apply_step True) demo_steps (video_begin priv pool_demo)"
  obtain cp2 plp2 pool2 where stop:
    "hub_video_pipeline_stop cp1 (Some (pl\<lparr>pl_priv := Some (vs_priv ?s)\<rparr>)) (vs_pool ?s) = (cp2, plp2, pool2)"
    by (metis prod_cases3)
  from video_stop_gives_back [OF st demo_pool_whole demo_quiet refl demo_hand stop] st stop show ?thesis by blast
qed

end
