(* ===== verification/HubMain.thy ===== *)
theory HubMain
  imports VideoFrames MqttService
begin

text \<open>
  The hub's main program, \<open>src/main.c\<close>: it starts the parts of the hub one after the other, lets their
  threads run, and ends them. The running hub is a sequence of events, each one step of a thread, of
  the MQTT client library or of a child process.
\<close>

section \<open>State\<close>

text \<open>The runtime with the process around it. \<open>hs_hand\<close> and \<open>hs_shown\<close> are those of the render thread,
  \<open>hs_trace\<close> the calls into the MQTT client library.\<close>

record 'd hub_state =
  hs_cfg :: hub_config
  hs_world :: "'d world"
  hs_hal :: device_hal
  hs_pool :: mem_pool
  hs_heap :: int
  hs_video :: video_pipeline
  hs_maps :: int
  hs_hand :: "nat option"
  hs_shown :: "u64 list"
  hs_procs :: procs
  hs_media :: media_player
  hs_mqtt :: mqtt_service
  hs_trace :: "mqtt_event list"

text \<open>The zeroed runtime.\<close>

definition config_zero :: hub_config where
  "config_zero =
     \<lparr>mqtt_host = replicate 128 NUL, mqtt_port = 0, mqtt_client_id = replicate 128 NUL,
      mqtt_username = replicate 128 NUL, mqtt_password = replicate 128 NUL, mqtt_topic_up = replicate 128 NUL,
      mqtt_topic_down = replicate 128 NUL, mqtt_topic_resp = replicate 128 NUL,
      mqtt_qos_report = 0, mqtt_qos_control = 0, mqtt_qos_response = 0, mqtt_keepalive_sec = 0,
      mqtt_reconnect_sec = 0, report_interval_sec = 0, led_dev = replicate 64 NUL, dht11_dev = replicate 64 NUL,
      video_dev = replicate 64 NUL, video_width = 0, video_height = 0, video_fps = 0, pool_block_count = 0,
      pool_block_size = 0, media_default_file = replicate 256 NUL\<rparr>"

definition hub_zero :: "'d world \<Rightarrow> int \<Rightarrow> int \<Rightarrow> 'd hub_state" where
  "hub_zero w maps heap =
     \<lparr>hs_cfg = config_zero, hs_world = w, hs_hal = replicate 3 \<lparr>dh_fd = 0, dh_path = []\<rparr>, hs_pool = pool_zero,
      hs_heap = heap,
      hs_video = \<lparr>pl_config = config_zero, pl_default_sink = False, pl_capture_thread = False,
                  pl_render_thread = False, pl_running = 0, pl_priv = NULL\<rparr>,
      hs_maps = maps, hs_hand = None, hs_shown = [], hs_procs = \<lparr>pr_running = [], pr_exited = []\<rparr>,
      hs_media = \<lparr>mp_pid = 0, mp_default_file = replicate 256 NUL\<rparr>,
      hs_mqtt = \<lparr>mq_config = config_zero, mq_thread = False, mq_running = 0, mq_impl = NULL\<rparr>, hs_trace = []\<rparr>"

text \<open>The pipeline sees the descriptors and mappings of the process, the render thread its own state.\<close>

definition cam_side :: "'d hub_state \<Rightarrow> cam_proc" where
  "cam_side s = \<lparr>cp_fds = w_fds (hs_world s), cp_maps = hs_maps s\<rparr>"

definition set_cam :: "cam_proc \<Rightarrow> 'd hub_state \<Rightarrow> 'd hub_state" where
  "set_cam cp s = s\<lparr>hs_world := (hs_world s)\<lparr>w_fds := cp_fds cp\<rparr>, hs_maps := cp_maps cp\<rparr>"

definition video_view :: "video_priv \<Rightarrow> 'd hub_state \<Rightarrow> video_state" where
  "video_view priv s = \<lparr>vs_priv = priv, vs_pool = hs_pool s, vs_hand = hs_hand s, vs_shown = hs_shown s\<rparr>"

section \<open>The parts are ended\<close>

definition end_hal :: "'d hub_state \<Rightarrow> 'd hub_state" where
  "end_hal s = (case hub_device_hal_deinit (hs_world s) (Some (hs_hal s)) of
     (w, halp) \<Rightarrow> s\<lparr>hs_world := w, hs_hal := the halp\<rparr>)"

definition end_pool :: "'d hub_state \<Rightarrow> 'd hub_state" where
  "end_pool s = (case hub_mem_pool_destroy (hs_heap s) (Some (hs_pool s)) of
     (heap, poolp) \<Rightarrow> s\<lparr>hs_heap := heap, hs_pool := the poolp\<rparr>)"

definition end_media :: "'d hub_state \<Rightarrow> 'd hub_state" where
  "end_media s = (case hub_media_player_deinit (hs_procs s) (Some (hs_media s)) of
     (ps, mpp) \<Rightarrow> s\<lparr>hs_procs := ps, hs_media := the mpp\<rparr>)"

text \<open>A step of a pipeline thread, when the pipeline runs.\<close>

definition video_event :: "video_step \<Rightarrow> 'd hub_state \<Rightarrow> 'd hub_state" where
  "video_event st s =
     (case pl_priv (hs_video s) of
        None \<Rightarrow> s
      | Some priv \<Rightarrow>
          let v = apply_step (pl_default_sink (hs_video s)) st (video_view priv s)
          in s\<lparr>hs_video := (hs_video s)\<lparr>pl_priv := Some (vs_priv v)\<rparr>, hs_pool := vs_pool v, hs_hand := vs_hand v,
               hs_shown := vs_shown v\<rparr>)"

text \<open>The stop waits for the threads: the render thread gives back the frame it shows.\<close>

definition end_video :: "'d hub_state \<Rightarrow> 'd hub_state" where
  "end_video s0 =
     (let s = video_event FinishStep s0
      in case hub_video_pipeline_stop (cam_side s) (Some (hs_video s)) (hs_pool s) of
           (cp, plp, pool) \<Rightarrow> set_cam cp (s\<lparr>hs_video := the plp, hs_pool := pool\<rparr>))"

definition end_mqtt :: "'d hub_state \<Rightarrow> 'd hub_state" where
  "end_mqtt s =
     (case mq_impl (hs_mqtt s) of
        None \<Rightarrow> s
      | Some impl \<Rightarrow>
          (case thread_end impl of
             (impl', es) \<Rightarrow>
               s\<lparr>hs_mqtt := the (hub_mqtt_service_stop (Some ((hs_mqtt s)\<lparr>mq_impl := Some impl'\<rparr>))),
                 hs_trace := hs_trace s @ es\<rparr>))"

section \<open>The start\<close>

text \<open>What each step of the start meets; \<open>se_early\<close> are turns of the capture thread before a failing
  start of the render thread, \<open>se_steps\<close> steps of the pipeline before a failing start of the MQTT
  service.\<close>

record 'd hub_env =
  se_dev :: "'d dev_env"
  se_file :: "config_file ptr"
  se_blocks :: bool
  se_block :: "nat \<Rightarrow> bool"
  se_priv :: bool
  se_camera :: camera_env
  se_capture :: bool
  se_render :: bool
  se_early :: "capture_turn list"
  se_mqtt_alloc :: bool
  se_mqtt_thread :: bool
  se_steps :: "video_step list"

definition start_hal :: "'d hub_env \<Rightarrow> 'd hub_state \<Rightarrow> int \<times> 'd hub_state" where
  "start_hal e s = (case hub_device_hal_init (se_dev e) (hs_world s) (Some (hs_hal s)) (Some (hs_cfg s)) of
     (r, w, halp) \<Rightarrow> (r, s\<lparr>hs_world := w, hs_hal := the halp\<rparr>))"

definition start_pool :: "'d hub_env \<Rightarrow> 'd hub_state \<Rightarrow> int \<times> 'd hub_state" where
  "start_pool e s = (case hub_mem_pool_init (se_blocks e) (se_block e) (hs_heap s) (Some (hs_pool s))
       (word_of_int (pool_block_size (hs_cfg s))) (pool_block_count (hs_cfg s)) of
     (r, heap, poolp) \<Rightarrow> (r, s\<lparr>hs_heap := heap, hs_pool := the poolp\<rparr>))"

definition start_media :: "'d hub_state \<Rightarrow> int \<times> 'd hub_state" where
  "start_media s = (case hub_media_player_init (Some (hs_media s)) (Some (field_text (media_default_file (hs_cfg s)))) of
     (r, mpp) \<Rightarrow> (r, s\<lparr>hs_media := the mpp\<rparr>))"

definition start_video :: "'d hub_env \<Rightarrow> 'd hub_state \<Rightarrow> int \<times> 'd hub_state" where
  "start_video e s = (case hub_video_pipeline_start (se_priv e) (se_camera e) (se_capture e) (se_render e) (se_early e)
       (cam_side s) (Some (hs_video s)) (Some (hs_cfg s)) (Some (hs_pool s)) False of
     (r, cp, plp, poolp) \<Rightarrow> (r, set_cam cp (s\<lparr>hs_video := the plp, hs_pool := the poolp\<rparr>)))"

definition start_mqtt :: "'d hub_env \<Rightarrow> 'd hub_state \<Rightarrow> int \<times> 'd hub_state" where
  "start_mqtt e s = (case hub_mqtt_service_start (se_mqtt_alloc e) (se_mqtt_thread e) (Some (hs_mqtt s)) (Some (hs_cfg s)) of
     (r, mqp) \<Rightarrow> (r, s\<lparr>hs_mqtt := the mqp\<rparr>))"

text \<open>The start up to the waiting loop: 1 is the exit code of a failed start, 0 means that the hub runs.\<close>

definition hub_start :: "'d hub_env \<Rightarrow> 'd hub_state \<Rightarrow> int \<times> 'd hub_state" where
  "hub_start e s0 =
     (case hub_config_load (se_file e) (Some (hs_cfg s0)) of
        (r0, cfgp) \<Rightarrow>
          let s1 = s0\<lparr>hs_cfg := the cfgp\<rparr>
          in if r0 \<noteq> 0 then (1, s1) else (case start_hal e s1 of
        (r1, s2) \<Rightarrow> if r1 \<noteq> 0 then (1, s2) else (case start_pool e s2 of
        (r2, s3) \<Rightarrow> if r2 \<noteq> 0 then (1, end_hal s3) else (case start_media s3 of
        (r3, s4) \<Rightarrow> if r3 \<noteq> 0 then (1, end_hal (end_pool s4)) else (case start_video e s4 of
        (_, s5) \<Rightarrow> (case start_mqtt e s5 of
        (r5, s6) \<Rightarrow>
          if r5 \<noteq> 0 then (1, end_hal (end_pool (end_media (end_video (fold video_event (se_steps e) s6)))))
          else (0, s6)))))))"

section \<open>The running hub\<close>

definition on_mqtt_message ::
  "'d rpc_env \<Rightarrow> string \<Rightarrow> string \<Rightarrow> char list \<Rightarrow> 'd rpc_state \<Rightarrow> (int \<times> char list \<times> 'd rpc_state) option" where
  "on_mqtt_message env topic payload response st =
     (case hub_json_rpc_dispatch env (Some st) (Some payload) (Some response) of
        None \<Rightarrow> None
      | Some (r, resp, stp) \<Rightarrow> Some (r, the resp, the stp))"

definition rpc_view :: "'d hub_state \<Rightarrow> 'd rpc_state" where
  "rpc_view s = \<lparr>rs_world = hs_world s, rs_hal = Some (hs_hal s), rs_procs = hs_procs s, rs_media = Some (hs_media s)\<rparr>"

definition set_rpc :: "'d rpc_state \<Rightarrow> 'd hub_state \<Rightarrow> 'd hub_state" where
  "set_rpc r s = s\<lparr>hs_world := rs_world r, hs_hal := the (rs_hal r), hs_procs := rs_procs r, hs_media := the (rs_media r)\<rparr>"

text \<open>A step of a pipeline thread; a turn of the MQTT thread; a message the client library delivers, with
  the return code of a publish; the end of a child. \<open>None\<close>: the program reads beyond an array.\<close>

datatype 'd hub_event =
  VideoEvent video_step
| MqttTurn "'d rpc_env" turn_env
| Message "'d rpc_env" bool int "string ptr" "char list"
| ConnLost
| ChildExit int

fun hub_event_step :: "'d hub_event \<Rightarrow> 'd hub_state \<Rightarrow> 'd hub_state option" where
  "hub_event_step (VideoEvent st) s = Some (video_event st s)"
| "hub_event_step (MqttTurn env t) s =
     (case mqtt_turn env t (hs_mqtt s, hs_world s, Some (hs_hal s)) of
        ((svc, w, halp), es) \<Rightarrow>
          Some (s\<lparr>hs_mqtt := svc, hs_world := w, hs_hal := the halp, hs_trace := hs_trace s @ es\<rparr>))"
| "hub_event_step (Message env alloc_ok rc topic payload) s =
     (case paho_msgarrvd (Some (on_mqtt_message env)) alloc_ok rc (hs_mqtt s) (rpc_view s) topic payload of
        None \<Rightarrow> None
      | Some (svc, r, es) \<Rightarrow> Some ((set_rpc r s)\<lparr>hs_mqtt := svc, hs_trace := hs_trace s @ es\<rparr>))"
| "hub_event_step ConnLost s = Some (s\<lparr>hs_mqtt := paho_connlost (hs_mqtt s)\<rparr>)"
| "hub_event_step (ChildExit pid) s = Some (s\<lparr>hs_procs := child_exits pid (hs_procs s)\<rparr>)"

fun hub_events :: "'d hub_event list \<Rightarrow> 'd hub_state \<Rightarrow> 'd hub_state option" where
  "hub_events [] s = Some s"
| "hub_events (ev # evs) s = (case hub_event_step ev s of None \<Rightarrow> None | Some s' \<Rightarrow> hub_events evs s')"

section \<open>The end\<close>

text \<open>The end up to the shutdown of the pool; \<open>late\<close> are steps of the pipeline while the MQTT service ends.\<close>

definition hub_quiesce :: "video_step list \<Rightarrow> 'd hub_state \<Rightarrow> 'd hub_state" where
  "hub_quiesce late s =
     (let s1 = end_media (end_video (fold video_event late (end_mqtt s)))
      in s1\<lparr>hs_pool := the (hub_mem_pool_shutdown (Some (hs_pool s1)))\<rparr>)"

definition hub_stop :: "video_step list \<Rightarrow> 'd hub_state \<Rightarrow> 'd hub_state" where
  "hub_stop late s = end_hal (end_pool (hub_quiesce late s))"

text \<open>The program: its exit code and the process it leaves.\<close>

definition hub_main ::
  "'d hub_env \<Rightarrow> 'd hub_event list \<Rightarrow> video_step list \<Rightarrow> 'd world \<Rightarrow> int \<Rightarrow> int \<Rightarrow> (int \<times> 'd hub_state) option" where
  "hub_main e evs late w maps heap =
     (case hub_start e (hub_zero w maps heap) of
        (r, s) \<Rightarrow>
          if r \<noteq> 0 then Some (r, s)
          else map_option (\<lambda>s'. (0, hub_stop late s')) (hub_events evs s))"

end
