(* ===== verification/HubTools.thy ===== *)
theory HubTools
  imports DeviceHal "HOL-Library.Sublist"
begin

text \<open>
  What surrounds the hub's core: the level filter of \<open>src/utils/hub_log.c\<close>, and the two command line
  programs that reach the devices without the hub, \<open>tools/hal_demo/hal_demo.c\<close> over the device layer
  and \<open>drivers/led_char_safe/led_test.c\<close> over the driver's file.
\<close>

section \<open>Logging\<close>

datatype hub_log_level = HUB_LOG_ERROR | HUB_LOG_WARN | HUB_LOG_INFO | HUB_LOG_DEBUG

definition log_level :: "hub_log_level \<Rightarrow> nat" where
  "log_level l = (case l of HUB_LOG_ERROR \<Rightarrow> 0 | HUB_LOG_WARN \<Rightarrow> 1 | HUB_LOG_INFO \<Rightarrow> 2 | HUB_LOG_DEBUG \<Rightarrow> 3)"

text \<open>The order of the C enumeration.\<close>

instantiation hub_log_level :: linorder
begin

definition less_eq_hub_log_level :: "hub_log_level \<Rightarrow> hub_log_level \<Rightarrow> bool" where
  "l \<le> m \<longleftrightarrow> log_level l \<le> log_level m"

definition less_hub_log_level :: "hub_log_level \<Rightarrow> hub_log_level \<Rightarrow> bool" where
  "l < m \<longleftrightarrow> log_level l < log_level m"

instance
proof
  fix l m n :: hub_log_level
  show "l \<le> m \<Longrightarrow> m \<le> l \<Longrightarrow> l = m"
    by (cases l; cases m) (simp_all add: less_eq_hub_log_level_def log_level_def)
qed (auto simp: less_eq_hub_log_level_def less_hub_log_level_def)

end

definition level_text :: "hub_log_level \<Rightarrow> string" where
  "level_text l = (case l of HUB_LOG_ERROR \<Rightarrow> ''E'' | HUB_LOG_WARN \<Rightarrow> ''W'' | HUB_LOG_INFO \<Rightarrow> ''I'' | HUB_LOG_DEBUG \<Rightarrow> ''D'')"

text \<open>The lines of the standard error; \<open>now\<close> is the formatted time, \<open>msg\<close> the formatted message.\<close>

definition hub_vlog :: "hub_log_level \<Rightarrow> hub_log_level \<Rightarrow> string \<Rightarrow> string \<Rightarrow> string list \<Rightarrow> string list" where
  "hub_vlog g_level level now msg err =
     (if level > g_level then err else err @ [''['' @ now @ '']['' @ level_text level @ ''] '' @ msg])"

fun log_run :: "hub_log_level \<Rightarrow> (hub_log_level \<times> string \<times> string) list \<Rightarrow> string list \<Rightarrow> string list" where
  "log_run g [] err = err"
| "log_run g ((l, now, msg) # ms) err = log_run g ms (hub_vlog g l now msg err)"

text \<open>A higher level adds lines between those of a lower one and drops or reorders none.\<close>

lemma log_more: "g \<le> g' \<Longrightarrow> subseq err err' \<Longrightarrow> subseq (log_run g ms err) (log_run g' ms err')"
proof (induction ms arbitrary: err err')
  case (Cons m ms)
  obtain l now msg where m: "m = (l, now, msg)" by (cases m)
  have "subseq (hub_vlog g l now msg err) (hub_vlog g' l now msg err')"
    using Cons.prems by (auto simp: hub_vlog_def intro: list_emb_append_mono subseq_rev_drop_many)
  with Cons.IH Cons.prems show ?case by (simp add: m)
qed simp

section \<open>The demo of the device layer\<close>

definition demo_usage :: "string \<Rightarrow> string list" where
  "demo_usage prog = [''Usage:'', ''  '' @ prog @ '' [config.json] led on|off|get'', ''  '' @ prog @ '' [config.json] dht'']"

text \<open>A command on initialised handles: the lines it prints, the world and the handles after it.\<close>

definition demo_led_command ::
  "'d dev_env \<Rightarrow> u8 \<times> u8 \<Rightarrow> string \<Rightarrow> 'd world \<Rightarrow> device_hal ptr \<Rightarrow> string \<Rightarrow> string list \<times> 'd world \<times> device_hal ptr" where
  "demo_led_command env junk prog w h arg =
     (if arg = ''on'' then (case hub_led_set env w h 1 of (_, w', h') \<Rightarrow> ([''LED set on''], w', h'))
      else if arg = ''off'' then (case hub_led_set env w h 0 of (_, w', h') \<Rightarrow> ([''LED set off''], w', h'))
      else if arg = ''get'' then
        (case hub_led_get env junk w h (Some 0) of
           (r, led, w', h') \<Rightarrow>
             ([if r = 0 then ''LED='' @ int_string (the led) else ''LED get failed''], w', h'))
      else (demo_usage prog, w, h))"

definition demo_dht_command ::
  "'d dev_env \<Rightarrow> u8 \<times> u8 \<Rightarrow> int \<times> int \<Rightarrow> 'd world \<Rightarrow> device_hal ptr \<Rightarrow> string list \<times> 'd world \<times> device_hal ptr" where
  "demo_dht_command env junk values w h =
     (case hub_dht11_read env junk values w h (Some 0) (Some 0) of
        (r, humi, temp, w', h') \<Rightarrow>
          ([if r = 0 then ''DHT11 temp='' @ int_string (the temp) @ '' humi='' @ int_string (the humi)
            else ''DHT11 read failed''], w', h'))"

text \<open>The exit code, the lines printed and the world left; \<open>prog\<close> and \<open>args\<close> are the command line,
  \<open>files\<close> what the configuration paths name.\<close>

definition hal_demo_main ::
  "'d dev_env \<Rightarrow> u8 \<times> u8 \<Rightarrow> int \<times> int \<Rightarrow> (string \<Rightarrow> config_file ptr) \<Rightarrow> hub_config \<Rightarrow> device_hal \<Rightarrow> string \<Rightarrow>
   string list \<Rightarrow> 'd world \<Rightarrow> int \<times> string list \<times> 'd world" where
  "hal_demo_main env junk values files cfg0 hal0 prog args w =
     (case args of
        [] \<Rightarrow> (1, demo_usage prog, w)
      | a # rest \<Rightarrow>
          let json = c_strstr a ''.json'' \<noteq> NULL;
              cfg_path = (if json then a else ''config/hub_config.json'')
          in if json \<and> rest = [] then (1, demo_usage prog, w)
             else let cmd = (if json then hd rest else a);
                      cmd_args = (if json then tl rest else rest)
             in (case hub_config_load (files cfg_path) (Some cfg0) of
               (r, cfgp) \<Rightarrow>
                 if r \<noteq> 0 then (1, [''load config failed: '' @ cfg_path], w)
                 else (case hub_device_hal_init env w (Some hal0) cfgp of
               (r1, w1, h1) \<Rightarrow>
                 if r1 \<noteq> 0 then (1, [''hal init failed''], w1)
                 else if cmd = ''led'' then
                   (case cmd_args of
                      [] \<Rightarrow> (1, demo_usage prog, fst (hub_device_hal_deinit w1 h1))
                    | arg # _ \<Rightarrow>
                        (case demo_led_command env junk prog w1 h1 arg of
                           (out, w2, h2) \<Rightarrow> (0, out, fst (hub_device_hal_deinit w2 h2))))
                 else if cmd = ''dht'' then
                   (case demo_dht_command env junk values w1 h1 of
                      (out, w2, h2) \<Rightarrow> (0, out, fst (hub_device_hal_deinit w2 h2)))
                 else (0, demo_usage prog, fst (hub_device_hal_deinit w1 h1)))))"

section \<open>The test of the driver\<close>

text \<open>\<open>open\<close>, \<open>write\<close> and \<open>close\<close> of a device file; the result of the write, or NULL when it does not open.\<close>

definition write_file :: "'d dev_env \<Rightarrow> string \<Rightarrow> u8 list \<Rightarrow> 'd world \<Rightarrow> int ptr \<times> 'd world" where
  "write_file env path buf w =
     (if \<not> de_open env path False then (NULL, w)
      else let fd = fd_new (w_fds w); w1 = w\<lparr>w_fds := fd # w_fds w\<rparr>
           in (case de_write env path (w_dev w1) buf of
                 (n, d) \<Rightarrow> (Some n, w1\<lparr>w_dev := d, w_fds := fd_close fd (w_fds w1)\<rparr>)))"

definition led_test_main :: "'d dev_env \<Rightarrow> string \<Rightarrow> string list \<Rightarrow> 'd world \<Rightarrow> int \<times> string list \<times> 'd world" where
  "led_test_main env prog args w =
     (case args of
        [a] \<Rightarrow>
          (case write_file env ''/dev/hub_led'' [0, if c_atoi a \<noteq> 0 then 0 else 1] w of
             (None, w') \<Rightarrow> (1, [''open /dev/hub_led''], w')
           | (Some n, w') \<Rightarrow>
               if n \<noteq> 2 then (1, [''write''], w')
               else (0, [''set LED '' @ (if c_atoi a \<noteq> 0 then ''ON'' else ''OFF'')], w'))
      | _ \<Rightarrow> (1, [''Usage: '' @ prog @ '' <0|1>''], w))"

section \<open>The tools return what they open\<close>

lemma write_file_fds: "w_fds (snd (write_file env path buf w)) = w_fds w"
  by (simp add: write_file_def Let_def split: prod.split)

lemma led_command_owns:
  "hal_owns base (w_fds w) hal \<Longrightarrow> demo_led_command env junk prog w (Some hal) arg = (out, w', halp) \<Longrightarrow>
   \<exists>hal'. halp = Some hal' \<and> hal_owns base (w_fds w') hal'"
  by (auto simp: demo_led_command_def split: if_splits prod.splits dest: led_set_owns led_get_owns)

lemma dht_command_owns:
  "hal_owns base (w_fds w) hal \<Longrightarrow> demo_dht_command env junk vals w (Some hal) = (out, w', halp) \<Longrightarrow>
   \<exists>hal'. halp = Some hal' \<and> hal_owns base (w_fds w') hal'"
  by (auto simp: demo_dht_command_def split: prod.splits dest: dht11_owns)

lemma deinit_fds: "hal_owns base (w_fds w) hal \<Longrightarrow> mset (w_fds (fst (hub_device_hal_deinit w (Some hal)))) = mset base"
  using hal_deinit_closes [of base w hal] by auto

lemma hal_demo_fds:
  assumes "distinct (w_fds w)" "hal_demo_main env junk vals files cfg0 hal0 prog args w = (r, out, w')"
  shows "mset (w_fds w') = mset (w_fds w) \<and> (r = 0 \<or> r = 1)"
proof (cases args)
  case Nil
  then show ?thesis using assms(2) by (simp add: hal_demo_main_def)
next
  case (Cons a rest)
  obtain c cfgp where c: "hub_config_load (files (if c_strstr a ''.json'' \<noteq> NULL then a else ''config/hub_config.json''))
      (Some cfg0) = (c, cfgp)" by fastforce
  then obtain cfg where cfg: "cfgp = Some cfg"
    by (auto simp: hub_config_load_def Let_def split: option.splits if_splits)
  obtain w1 hal1 where i: "hub_device_hal_init env w (Some hal0) (Some cfg) = (0, w1, Some hal1)"
    and own: "hal_owns (w_fds w) (w_fds w1) hal1"
    using hal_init_owns [OF assms(1)] by blast
  have deinit: "mset (w_fds (fst (hub_device_hal_deinit w2 hp))) = mset (w_fds w)"
    if "\<exists>hal2. hp = Some hal2 \<and> hal_owns (w_fds w) (w_fds w2) hal2" for w2 hp
    using that deinit_fds by blast
  show ?thesis
    using assms(2) deinit own led_command_owns [OF own, of env junk prog] dht_command_owns [OF own, of env junk vals]
    unfolding hal_demo_main_def Cons list.case Let_def c prod.case cfg i
    by (auto split: if_splits list.splits prod.splits)
qed

end
