(* ===== verification/QtPanel.thy ===== *)
theory QtPanel
  imports HubTools JsonRpc VideoPipeline
begin

text \<open>
  The handlers of the control panel, \<open>qt_gui/qt59_control_panel/mainwindow.cpp\<close>: the text of the line
  edits and labels is the state of the window, \<open>mosquitto_pub\<close>, the media player's process and the
  files are parameters. The widgets, their layout and their signals are left out.
\<close>

section \<open>State\<close>

record panel =
  pn_led_dev :: string
  pn_dht_dev :: string
  pn_media_file :: string
  pn_video_stats :: string
  pn_mqtt_host :: string
  pn_mqtt_port :: string
  pn_mqtt_topic :: string
  pn_info :: string
  pn_sensor :: string
  pn_video :: string
  pn_media :: string

definition panel_start :: panel where
  "panel_start =
     \<lparr>pn_led_dev = ''/dev/hub_led'', pn_dht_dev = ''/dev/mydht11'', pn_media_file = ''/root/media/test.wav'',
      pn_video_stats = ''/tmp/hub_video_stats.json'', pn_mqtt_host = ''127.0.0.1'', pn_mqtt_port = ''1883'',
      pn_mqtt_topic = ''/iot/down'', pn_info = ''Ready'', pn_sensor = ''Sensor: --'', pn_video = ''Video: --'',
      pn_media = ''Media: stopped''\<rparr>"

definition trimmed :: "string \<Rightarrow> string" where
  "trimmed s = strip_right (dropWhile c_isspace s)"

definition setInfo :: "string \<Rightarrow> panel \<Rightarrow> panel" where
  "setInfo text p = p\<lparr>pn_info := text\<rparr>"

section \<open>The devices\<close>

definition writeLed :: "'d dev_env \<Rightarrow> bool \<Rightarrow> panel \<Rightarrow> 'd world \<Rightarrow> bool \<times> panel \<times> 'd world" where
  "writeLed env on p w =
     (let path = trimmed (pn_led_dev p)
      in case write_file env path [0, if on then 0 else 1] w of
           (None, w') \<Rightarrow> (False, setInfo (''open '' @ path @ '' failed'') p, w')
         | (Some n, w') \<Rightarrow>
             if n \<noteq> 2 then (False, setInfo (''write '' @ path @ '' failed'') p, w') else (True, p, w'))"

text \<open>The values read, humidity first, when the read succeeds.\<close>

definition readSensor :: "'d dev_env \<Rightarrow> panel \<Rightarrow> 'd world \<Rightarrow> (int \<times> int) option \<times> panel \<times> 'd world" where
  "readSensor env p w =
     (let path = trimmed (pn_dht_dev p)
      in if \<not> de_open env path True then (None, setInfo (''open '' @ path @ '' failed'') p, w)
         else let fd = fd_new (w_fds w); w1 = w\<lparr>w_fds := fd # w_fds w\<rparr>
         in (case de_read env path (w_dev w1) [0, 0] of
               (n, bytes, d) \<Rightarrow>
                 let w2 = w1\<lparr>w_dev := d, w_fds := fd_close fd (w_fds w1)\<rparr>
                 in if n \<noteq> 2 then (None, setInfo (''read '' @ path @ '' failed'') p, w2)
                    else (Some (uint (bytes ! 0), uint (bytes ! 1)), p, w2)))"

definition onLed :: "'d dev_env \<Rightarrow> bool \<Rightarrow> panel \<Rightarrow> 'd world \<Rightarrow> panel \<times> 'd world" where
  "onLed env on p w =
     (case writeLed env on p w of
        (ok, p', w') \<Rightarrow> (if ok then setInfo (if on then ''LED ON done'' else ''LED OFF done'') p' else p', w'))"

definition onReadSensor :: "'d dev_env \<Rightarrow> panel \<Rightarrow> 'd world \<Rightarrow> panel \<times> 'd world" where
  "onReadSensor env p w =
     (case readSensor env p w of
        (None, p', w') \<Rightarrow> (p', w')
      | (Some (humi, temp), p', w') \<Rightarrow>
          (setInfo ''sensor read ok''
             (p'\<lparr>pn_sensor := ''Sensor: temp='' @ int_string temp @ '' C, humi='' @ int_string humi @ '' %%''\<rparr>), w'))"

section \<open>The remote control\<close>

definition led_payload :: "bool \<Rightarrow> string" where
  "led_payload on =
     ''{'' @ quoted ''method'' @ '':'' @ quoted ''control'' @ '','' @ quoted ''params'' @ '':{'' @ quoted ''LED1'' @ '':'' @
     int_string (if on then 1 else 0) @ ''},'' @ quoted ''id'' @ '':'' @ quoted ''qt-local'' @ ''}''"

text \<open>The arguments \<open>mosquitto_pub\<close> runs with, when it runs; \<open>code\<close> is its exit code.\<close>

definition sendMqttLedControl :: "(string list \<Rightarrow> int) \<Rightarrow> bool \<Rightarrow> panel \<Rightarrow> bool \<times> panel \<times> string list ptr" where
  "sendMqttLedControl code on p =
     (let host = trimmed (pn_mqtt_host p); port = trimmed (pn_mqtt_port p); topic = trimmed (pn_mqtt_topic p)
      in if host = [] \<or> port = [] \<or> topic = [] then (False, setInfo ''mqtt host/port/topic invalid'' p, NULL)
         else let args = [''-h'', host, ''-p'', port, ''-t'', topic, ''-q'', ''1'', ''-m'', led_payload on]
         in if code args \<noteq> 0 then (False, setInfo ''mosquitto_pub failed'' p, Some args)
            else (True, p, Some args))"

definition onRemoteLed :: "(string list \<Rightarrow> int) \<Rightarrow> bool \<Rightarrow> panel \<Rightarrow> panel \<times> string list ptr" where
  "onRemoteLed code on p =
     (case sendMqttLedControl code on p of
        (ok, p', args) \<Rightarrow>
          (if ok then setInfo (if on then ''remote LED ON message sent'' else ''remote LED OFF message sent'') p' else p',
           args))"

section \<open>The statistics of the video\<close>

text \<open>\<open>file\<close>: the text of the file a path names, NULL when it does not open.\<close>

definition onRefreshVideoStats :: "(string \<Rightarrow> string ptr) \<Rightarrow> panel \<Rightarrow> panel" where
  "onRefreshVideoStats files p =
     (let path = trimmed (pn_video_stats p)
      in case files path of
           None \<Rightarrow> p\<lparr>pn_video := ''Video: cannot open '' @ path\<rparr>
         | Some text \<Rightarrow>
             let line = trimmed text
             in p\<lparr>pn_video := (if line = [] then ''Video: no stats yet'' else ''Video: '' @ line)\<rparr>)"

definition onPollTick :: "'d dev_env \<Rightarrow> (string \<Rightarrow> string ptr) \<Rightarrow> panel \<Rightarrow> 'd world \<Rightarrow> panel \<times> 'd world" where
  "onPollTick env files p w = (case onReadSensor env p w of (p', w') \<Rightarrow> (onRefreshVideoStats files p', w'))"

section \<open>The media player's process\<close>

text \<open>The process object: whether it runs, the waits (they say whether it finished or started in time),
  and the requests to it.\<close>

record 'q process_ops =
  po_running :: "'q \<Rightarrow> bool"
  po_terminate :: "'q \<Rightarrow> 'q"
  po_kill :: "'q \<Rightarrow> 'q"
  po_wait_finished :: "'q \<Rightarrow> bool \<times> 'q"
  po_start :: "string \<Rightarrow> string list \<Rightarrow> 'q \<Rightarrow> 'q"
  po_wait_started :: "'q \<Rightarrow> bool \<times> 'q"

text \<open>The process object reports its end while it is waited for, and otherwise from the event loop.\<close>

definition onFinished :: "panel \<Rightarrow> panel" where
  "onFinished p = p\<lparr>pn_media := ''Media: stopped''\<rparr>"

definition onPlayMedia :: "'q process_ops \<Rightarrow> (string \<Rightarrow> bool) \<Rightarrow> panel \<Rightarrow> 'q \<Rightarrow> panel \<times> 'q" where
  "onPlayMedia po exists p q =
     (let path = trimmed (pn_media_file p)
      in if path = [] then (setInfo ''media file empty'' p, q)
         else if \<not> exists path then (setInfo (''media file not found: '' @ path) p, q)
         else let (p1, q1) = (if po_running po q
                              then (case po_wait_finished po (po_terminate po q) of
                                      (finished, q') \<Rightarrow> (if finished then onFinished p else p, q'))
                              else (p, q))
         in (case po_wait_started po (po_start po ''aplay'' [''-q'', path] q1) of
               (started, q2) \<Rightarrow>
                 (if \<not> started then setInfo ''start aplay failed'' p1
                  else setInfo ''media play started'' (p1\<lparr>pn_media := ''Media: playing '' @ path\<rparr>), q2)))"

definition onStopMedia :: "'q process_ops \<Rightarrow> panel \<Rightarrow> 'q \<Rightarrow> panel \<times> 'q" where
  "onStopMedia po p q =
     (let p' = p\<lparr>pn_media := ''Media: stopped''\<rparr>
      in if \<not> po_running po q then (setInfo ''media already stopped'' p', q)
         else (case po_wait_finished po (po_terminate po q) of
                 (finished, q1) \<Rightarrow>
                   (setInfo ''media stopped'' p', if finished then q1 else snd (po_wait_finished po (po_kill po q1)))))"

section \<open>The window\<close>

text \<open>The window with what it acts on; \<open>pw_sent\<close>: the arguments of the runs of \<open>mosquitto_pub\<close>.\<close>

record ('d, 'q) panel_window =
  pw_panel :: panel
  pw_world :: "'d world"
  pw_proc :: 'q
  pw_sent :: "string list list"

record ('d, 'q) panel_env =
  pe_dev :: "'d dev_env"
  pe_files :: "string \<Rightarrow> string ptr"
  pe_exists :: "string \<Rightarrow> bool"
  pe_code :: "string list \<Rightarrow> int"
  pe_proc :: "'q process_ops"

datatype panel_button = LedOnBtn | LedOffBtn | SensorBtn | PlayBtn | StopBtn | RemoteOnBtn | RemoteOffBtn | VideoRefreshBtn

datatype panel_edit = LedDevEdit | DhtDevEdit | MediaFileEdit | VideoStatsEdit | MqttHostEdit | MqttPortEdit | MqttTopicEdit

datatype panel_event = Clicked panel_button | Edited panel_edit string | PollTimeout | MediaFinished

definition edit_text :: "panel_edit \<Rightarrow> string \<Rightarrow> panel \<Rightarrow> panel" where
  "edit_text e text p =
     (case e of
        LedDevEdit \<Rightarrow> p\<lparr>pn_led_dev := text\<rparr> | DhtDevEdit \<Rightarrow> p\<lparr>pn_dht_dev := text\<rparr>
      | MediaFileEdit \<Rightarrow> p\<lparr>pn_media_file := text\<rparr> | VideoStatsEdit \<Rightarrow> p\<lparr>pn_video_stats := text\<rparr>
      | MqttHostEdit \<Rightarrow> p\<lparr>pn_mqtt_host := text\<rparr> | MqttPortEdit \<Rightarrow> p\<lparr>pn_mqtt_port := text\<rparr>
      | MqttTopicEdit \<Rightarrow> p\<lparr>pn_mqtt_topic := text\<rparr>)"

text \<open>The connections of the signals.\<close>

definition on_devices :: "(panel \<Rightarrow> 'd world \<Rightarrow> panel \<times> 'd world) \<Rightarrow> ('d, 'q) panel_window \<Rightarrow> ('d, 'q) panel_window" where
  "on_devices h s = (case h (pw_panel s) (pw_world s) of (p, w) \<Rightarrow> s\<lparr>pw_panel := p, pw_world := w\<rparr>)"

definition on_player :: "(panel \<Rightarrow> 'q \<Rightarrow> panel \<times> 'q) \<Rightarrow> ('d, 'q) panel_window \<Rightarrow> ('d, 'q) panel_window" where
  "on_player h s = (case h (pw_panel s) (pw_proc s) of (p, q) \<Rightarrow> s\<lparr>pw_panel := p, pw_proc := q\<rparr>)"

definition on_remote :: "(panel \<Rightarrow> panel \<times> string list ptr) \<Rightarrow> ('d, 'q) panel_window \<Rightarrow> ('d, 'q) panel_window" where
  "on_remote h s = (case h (pw_panel s) of
     (p, args) \<Rightarrow> s\<lparr>pw_panel := p, pw_sent := pw_sent s @ (case args of None \<Rightarrow> [] | Some a \<Rightarrow> [a])\<rparr>)"

definition on_panel :: "(panel \<Rightarrow> panel) \<Rightarrow> ('d, 'q) panel_window \<Rightarrow> ('d, 'q) panel_window" where
  "on_panel h s = s\<lparr>pw_panel := h (pw_panel s)\<rparr>"

fun panel_step :: "('d, 'q) panel_env \<Rightarrow> panel_event \<Rightarrow> ('d, 'q) panel_window \<Rightarrow> ('d, 'q) panel_window" where
  "panel_step e (Clicked LedOnBtn) s = on_devices (onLed (pe_dev e) True) s"
| "panel_step e (Clicked LedOffBtn) s = on_devices (onLed (pe_dev e) False) s"
| "panel_step e (Clicked SensorBtn) s = on_devices (onReadSensor (pe_dev e)) s"
| "panel_step e (Clicked PlayBtn) s = on_player (onPlayMedia (pe_proc e) (pe_exists e)) s"
| "panel_step e (Clicked StopBtn) s = on_player (onStopMedia (pe_proc e)) s"
| "panel_step e (Clicked RemoteOnBtn) s = on_remote (onRemoteLed (pe_code e) True) s"
| "panel_step e (Clicked RemoteOffBtn) s = on_remote (onRemoteLed (pe_code e) False) s"
| "panel_step e (Clicked VideoRefreshBtn) s = on_panel (onRefreshVideoStats (pe_files e)) s"
| "panel_step e (Edited w text) s = on_panel (edit_text w text) s"
| "panel_step e PollTimeout s = on_devices (onPollTick (pe_dev e) (pe_files e)) s"
| "panel_step e MediaFinished s = on_panel onFinished s"

definition panel_end :: "'q process_ops \<Rightarrow> 'q \<Rightarrow> 'q" where
  "panel_end po q =
     (if po_running po q
      then (case po_wait_finished po (po_terminate po q) of (finished, q1) \<Rightarrow> if finished then q1 else po_kill po q1)
      else q)"

definition panel_life :: "('d, 'q) panel_env \<Rightarrow> panel_event list \<Rightarrow> ('d, 'q) panel_window \<Rightarrow> ('d, 'q) panel_window" where
  "panel_life e evs s = (let s' = fold (panel_step e) evs s in s'\<lparr>pw_proc := panel_end (pe_proc e) (pw_proc s')\<rparr>)"

text \<open>Every handler closes the device it opened, whatever failed.\<close>

lemma onLed_fds: "onLed env on p w = (p', w') \<Longrightarrow> w_fds w' = w_fds w"
  using write_file_fds [of env "trimmed (pn_led_dev p)" "[0, if on then 0 else 1]" w]
  by (auto simp: onLed_def writeLed_def Let_def split: prod.splits option.splits if_splits)

lemma onReadSensor_fds: "onReadSensor env p w = (p', w') \<Longrightarrow> w_fds w' = w_fds w"
  by (auto simp: onReadSensor_def readSensor_def Let_def split: prod.splits option.splits if_splits)

lemma onPollTick_fds: "onPollTick env files p w = (p', w') \<Longrightarrow> w_fds w' = w_fds w"
  by (auto simp: onPollTick_def split: prod.splits dest: onReadSensor_fds)

text \<open>What \<open>mosquitto_pub\<close> is run with: a message of the quality 1 with the payload for on or off.\<close>

definition remote_args :: "string list \<Rightarrow> bool" where
  "remote_args a \<longleftrightarrow> (\<exists>host port topic on. host \<noteq> [] \<and> port \<noteq> [] \<and> topic \<noteq> [] \<and>
     a = [''-h'', host, ''-p'', port, ''-t'', topic, ''-q'', ''1'', ''-m'', led_payload on])"

lemma onRemoteLed_args: "onRemoteLed code on p = (p', Some a) \<Longrightarrow> remote_args a"
  by (auto simp: onRemoteLed_def sendMqttLedControl_def remote_args_def Let_def split: prod.splits if_splits)

lemma panel_step_keeps:
  "w_fds (pw_world (panel_step e ev s)) = w_fds (pw_world s) \<and>
   (list_all remote_args (pw_sent s) \<longrightarrow> list_all remote_args (pw_sent (panel_step e ev s)))"
  by (cases "(e, ev, s)" rule: panel_step.cases)
    (auto simp: on_devices_def on_player_def on_remote_def on_panel_def split: prod.split option.split
      dest: onLed_fds onReadSensor_fds onPollTick_fds onRemoteLed_args)

text \<open>A life of the window leaves no descriptor, sends only well-formed commands, and its player has ended or
  was killed, if a successful wait means that the process has ended and nothing runs after a kill.\<close>

lemma panel_life_balanced:
  assumes "\<And>q q'. po_wait_finished (pe_proc e) q = (True, q') \<Longrightarrow> \<not> po_running (pe_proc e) q'"
    and "\<And>q. \<not> po_running (pe_proc e) (po_kill (pe_proc e) q)" and "pw_sent s = []"
  shows "w_fds (pw_world (panel_life e evs s)) = w_fds (pw_world s)" "list_all remote_args (pw_sent (panel_life e evs s))"
    "\<not> po_running (pe_proc e) (pw_proc (panel_life e evs s))"
proof -
  have "w_fds (pw_world (fold (panel_step e) evs s)) = w_fds (pw_world s) \<and>
      (list_all remote_args (pw_sent s) \<longrightarrow> list_all remote_args (pw_sent (fold (panel_step e) evs s)))" for s
  proof (induction evs arbitrary: s)
    case (Cons ev evs)
    from Cons.IH [of "panel_step e ev s"] panel_step_keeps [of e ev s] show ?case by auto
  qed simp
  from this [of s] assms(3) show "w_fds (pw_world (panel_life e evs s)) = w_fds (pw_world s)"
    "list_all remote_args (pw_sent (panel_life e evs s))" by (simp_all add: panel_life_def Let_def)
  show "\<not> po_running (pe_proc e) (pw_proc (panel_life e evs s))"
    using assms(1,2) by (auto simp: panel_life_def panel_end_def Let_def split: prod.split)
qed

section \<open>What the hub finds in the panel's message\<close>

text \<open>The message is not flat and its id is a text: it is scanned by evaluation.\<close>

lemma payload_method_at: "json_find_key 64 (led_payload on) ''method'' = Some (drop 10 (led_payload on))"
proof -
  have "json_find_key 64 (led_payload True) ''method'' = Some (drop 10 (led_payload True))"
    "json_find_key 64 (led_payload False) ''method'' = Some (drop 10 (led_payload False))" by code_simp+
  then show ?thesis by (cases on) simp_all
qed

lemma payload_led: "json_get_int_key (led_payload on) ''LED1'' 0 = (0, if on then 1 else 0)"
proof -
  have "json_get_int_key (led_payload True) ''LED1'' 0 = (0, 1)" "json_get_int_key (led_payload False) ''LED1'' 0 = (0, 0)"
    by code_simp+
  then show ?thesis by (cases on) simp_all
qed

lemma payload_id: "json_get_id_raw (led_payload on) 64 = quoted ''qt-local''"
proof -
  have "json_get_id_raw (led_payload True) 64 = quoted ''qt-local''"
    "json_get_id_raw (led_payload False) 64 = quoted ''qt-local''" by code_simp+
  then show ?thesis by (cases on) simp_all
qed

lemma payload_method:
  assumes "length buf = 64"
  shows "\<exists>buf'. rpc_get_string (led_payload on) ''method'' buf = (0, buf') \<and> takeWhile (\<lambda>c. c \<noteq> NUL) buf' = ''control''"
proof -
  obtain t where t: "drop 10 (led_payload on) = QUOTE # ''control'' @ QUOTE # t"
    by (simp add: led_payload_def quoted_def)
  have plain: "plain_text ''control''" by (simp add: plain_text_def NUL_def)
  have ne: "buf \<noteq> []" using assms by auto
  define rest where "rest = drop (Suc (length ''control'')) buf"
  have "copy_quoted (''control'' @ QUOTE # t) buf = (0, ''control'' @ NUL # rest)"
    using copy_quoted_value [OF plain ne, of t] assms by (simp add: rest_def)
  then have "rpc_get_string (led_payload on) ''method'' buf = (0, ''control'' @ NUL # rest)"
    using payload_method_at t by (simp add: rpc_get_string_def json_get_string_def)
  with method_buffer [OF plain] show ?thesis by blast
qed

lemma payload_dispatch:
  assumes "length (re_method env) = 64" "rs_hal st = Some hal" "response \<noteq> []"
    and "hub_led_set (re_dev env) (rs_world st) (Some hal) (if on then 1 else 0) = (0, w', h')"
  shows "hub_json_rpc_dispatch env (Some st) (Some (led_payload on)) (Some response) =
    Some (0, Some (snprintf_buf response (rpc_result (''{'' @ quoted ''LED1'' @ '':'' @ int_string (if on then 1 else 0) @ ''}'')
        (quoted ''qt-local''))), Some (st\<lparr>rs_world := w', rs_hal := h'\<rparr>))"
proof -
  obtain buf where "rpc_get_string (led_payload on) ''method'' (re_method env) = (0, buf)"
      "takeWhile (\<lambda>c. c \<noteq> NUL) buf = ''control''"
    using payload_method [OF assms(1)] by blast
  moreover have "rpc_control env st (led_payload on) (quoted ''qt-local'') response =
    (snprintf_buf response (rpc_result (''{'' @ quoted ''LED1'' @ '':'' @ int_string (if on then 1 else 0) @ ''}'')
        (quoted ''qt-local'')), st\<lparr>rs_world := w', rs_hal := h'\<rparr>)"
    using assms(2,4) by (simp add: rpc_control_def payload_led set_led_def)
  ultimately show ?thesis
    using assms(2,3) by (simp add: hub_json_rpc_dispatch_def payload_id Let_def)
qed

section \<open>Every way to the LED\<close>

definition pin :: "(led_module \<times> 'x) world \<Rightarrow> int" where
  "pin w = lm_gpio (fst (w_dev w))"

lemma write_file_pin:
  assumes "de_open env path False" "de_write env path = led_sys_write" "loaded (fst (w_dev w))"
  shows "\<exists>w'. write_file env path [0, v] w = (Some 2, w') \<and> pin w' = (if v = 0 then 0 else 1) \<and> w_fds w' = w_fds w"
  using assms by (auto simp: write_file_def led_sys_write_def led_write_value sys_ret_def pin_def Let_def)

text \<open>C38. The four ways to switch the LED agree: the driver's test program, the panel's button, the hub's
  device layer, and the panel's message handled by the hub all drive the pin to the same level, active
  low; the panel and the test program leave no descriptor open, and the hub answers the panel.\<close>

theorem led_paths_agree:
  assumes "hub_device_open (re_dev env) (rs_world st) (Some hal) HUB_DEVICE_LED = (0, w1, Some hal1)"
    and "hal_owns base (w_fds (rs_world st)) hal" and "rs_hal st = Some hal" and "loaded (fst (w_dev (rs_world st)))"
    and "de_write (re_dev env) (dh_path (hal1 ! 0)) = led_sys_write"
    and "de_open (re_dev env) ''/dev/hub_led'' False" and "de_write (re_dev env) ''/dev/hub_led'' = led_sys_write"
    and "trimmed (pn_led_dev p) = ''/dev/hub_led''" and "c_atoi a \<noteq> 0 \<longleftrightarrow> on"
    and "length (re_method env) = 64" and "response \<noteq> []"
  shows "(\<exists>out w'. led_test_main (re_dev env) prog [a] (rs_world st) = (0, out, w') \<and> pin w' = (if on then 0 else 1) \<and>
      w_fds w' = w_fds (rs_world st)) \<and>
    (\<exists>w'. writeLed (re_dev env) on p (rs_world st) = (True, p, w') \<and> pin w' = (if on then 0 else 1) \<and>
      w_fds w' = w_fds (rs_world st)) \<and>
    (\<exists>w'. hub_led_set (re_dev env) (rs_world st) (Some hal) (if on then 1 else 0) = (0, w', Some hal1) \<and>
      pin w' = (if on then 0 else 1)) \<and>
    (\<exists>st'. hub_json_rpc_dispatch env (Some st) (Some (led_payload on)) (Some response) =
      Some (0, Some (snprintf_buf response (rpc_result (''{'' @ quoted ''LED1'' @ '':'' @ int_string (if on then 1 else 0) @ ''}'')
        (quoted ''qt-local''))), Some st') \<and> pin (rs_world st') = (if on then 0 else 1))"
proof -
  note dev = opened_again [OF assms(1,2)]
  obtain d where d: "hub_led_set (re_dev env) (rs_world st) (Some hal) (if on then 1 else 0) = (0, w1\<lparr>w_dev := d\<rparr>, Some hal1)"
      "loaded (fst d)" "led_lit d = ((if on then 1 else 0 :: int) \<noteq> 0)"
    using driver.led_set [OF assms(1) dev(2) assms(5,4)] by blast
  have level: "pin (w1\<lparr>w_dev := d\<rparr>) = (if on then 0 else 1)"
    using d(2,3) by (auto simp: pin_def led_lit_def loaded_def split: if_splits)
  obtain w2 where w2: "write_file (re_dev env) ''/dev/hub_led'' [0, if on then 0 else 1] (rs_world st) = (Some 2, w2)"
      "pin w2 = (if on then 0 else 1)" "w_fds w2 = w_fds (rs_world st)"
    using write_file_pin [OF assms(6,7,4), of "if on then 0 else 1"] by auto
  have "led_test_main (re_dev env) prog [a] (rs_world st) =
      (0, [''set LED '' @ (if c_atoi a \<noteq> 0 then ''ON'' else ''OFF'')], w2)"
    using w2(1) assms(9) by (simp add: led_test_main_def)
  moreover have "writeLed (re_dev env) on p (rs_world st) = (True, p, w2)"
    using w2(1) assms(8) by (simp add: writeLed_def)
  moreover note payload_dispatch [OF assms(10,3,11) d(1)]
  ultimately show ?thesis using w2(2,3) d(1) level by auto
qed

section \<open>The panel shows what the hub writes\<close>

lemma strip_right_blank: "\<not> c_isspace c \<Longrightarrow> strip_right (s @ [c, CHR 0x0A]) = s @ [c]"
  by (simp add: strip_right_def c_isspace_def)

text \<open>The panel shows the statistics file of the hub's frame sink as the line the sink wrote: the
  braces of the object begin and end it.\<close>

lemma panel_shows_stats:
  assumes "files (trimmed (pn_video_stats p)) = Some (stats_text frame priv)"
  shows "\<exists>line. stats_text frame priv = line @ [CHR 0x0A] \<and> hd line = CHR ''{'' \<and> last line = CHR ''}'' \<and>
    onRefreshVideoStats files p = p\<lparr>pn_video := ''Video: '' @ line\<rparr>"
proof -
  obtain body where body: "stats_text frame priv = CHR ''{'' # body @ [CHR ''}'', CHR 0x0A]"
    by (simp add: stats_text_def)
  have "trimmed (stats_text frame priv) = strip_right ((CHR ''{'' # body) @ [CHR ''}'', CHR 0x0A])"
    unfolding trimmed_def body by (simp add: c_isspace_def)
  also have "\<dots> = (CHR ''{'' # body) @ [CHR ''}'']" by (rule strip_right_blank) (simp add: c_isspace_def)
  finally have "trimmed (stats_text frame priv) = CHR ''{'' # body @ [CHR ''}'']" by simp
  then show ?thesis using assms body by (intro exI [of _ "CHR ''{'' # body @ [CHR ''}'']"]) (simp add: onRefreshVideoStats_def)
qed

section \<open>Instances\<close>

theorem led_paths_agree_witness:
  "\<exists>out w1 w2 resp st'. led_test_main demo_env ''led_test'' [''0''] demo_world = (0, out, w1) \<and> pin w1 = 1 \<and>
     writeLed demo_env False panel_start demo_world = (True, panel_start, w2) \<and> pin w2 = 1 \<and>
     hub_json_rpc_dispatch rpc_demo_env (Some rpc_demo_state) (Some (led_payload False)) (Some (replicate 128 NUL)) =
       Some (0, Some resp, Some st') \<and> pin (rs_world st') = 1"
proof -
  obtain w1 hal1 where o: "hub_device_open demo_env demo_world (Some demo_hal) HUB_DEVICE_LED = (0, w1, Some hal1)"
    using demo_open by blast
  have own: "hal_owns [0, 1, 2] (w_fds demo_world) demo_hal"
    by (simp add: hal_owns_def open_fds_def demo_hal_def demo_world_def)
  have st: "rs_hal rpc_demo_state = Some demo_hal" "rs_world rpc_demo_state = demo_world" "re_dev rpc_demo_env = demo_env"
    "length (re_method rpc_demo_env) = 64" "replicate 128 NUL \<noteq> []" "loaded (fst (w_dev demo_world))"
    "de_write demo_env x = led_sys_write" "de_open demo_env ''/dev/hub_led'' False" for x
    by (simp_all add: rpc_demo_state_def rpc_demo_env_def demo_world_def demo_led_def loaded_def demo_env_def)
  have path: "trimmed (pn_led_dev panel_start) = ''/dev/hub_led''"
    by (simp add: trimmed_def panel_start_def strip_right_def c_isspace_def)
  have arg: "c_atoi ''0'' \<noteq> 0 \<longleftrightarrow> False"
    by (simp add: c_atoi_def c_strtol_def c_int_def c_isspace_def c_isdigit_def digits_value_def digit_value_def
        LONG_MAX_def Let_def)
  from led_paths_agree [where env = rpc_demo_env and st = rpc_demo_state, unfolded st(2,3), OF o own st(1,6,7,8,7) path arg st(4,5)]
  show ?thesis by (simp add: ex_simps) blast
qed

end
