(* ===== verification/SumpListener.thy ===== *)
theory SumpListener
  imports SumpServer
begin

text \<open>
  The threads of \<open>src/protocol/sump_server.c\<close> inside a process: the listener, which opens a client for
  each connection it accepts, and the clients, each one turn of its loop at a time. A client is the
  argument of its thread, with the socket behind its descriptor.
\<close>

record sump_client =
  cl_fd :: int
  cl_conn :: conn
  cl_session :: sump_session
  cl_captures :: nat

text \<open>How an \<open>accept\<close> ends: with an errno, or with a connection for which the allocation of the
  context and the creation of the thread succeed or fail.\<close>

datatype accept_result = AcceptFails int | Accepted bool bool conn

definition edt_sump_listener_turn ::
  "sump_config \<Rightarrow> accept_result \<Rightarrow> fd_table \<Rightarrow> sump_client list \<Rightarrow> fd_table \<times> sump_client list" where
  "edt_sump_listener_turn cfg res fds cls =
     (case res of
        AcceptFails _ \<Rightarrow> (fds, cls)
      | Accepted alloc_ok thread_ok c \<Rightarrow>
          let client_fd = fd_new fds; fds' = client_fd # fds
          in if \<not> alloc_ok then (fd_close client_fd fds', cls)
             else if \<not> thread_ok then (fd_close client_fd fds', cls)
             else (fds', \<lparr>cl_fd = client_fd, cl_conn = c, cl_session = fresh_session cfg, cl_captures = 0\<rparr> # cls))"

text \<open>One turn of the loop of a client, in the form of \<open>client_state\<close>.\<close>

definition client_turn ::
  "(nat \<Rightarrow> capture_env) \<Rightarrow> u8 list \<Rightarrow> sump_config \<Rightarrow> nat \<Rightarrow> sump_session \<Rightarrow> logic_analyzer \<Rightarrow> conn \<Rightarrow>
   client_state option" where
  "client_turn W junk cfg k s la c =
     (case sock_recv 1 c of
        ((r, data), c1) \<Rightarrow>
          if r \<le> 0 then Some (False, k, s, la, c1) else client_command W junk cfg (hd data) k s la c1)"

text \<open>A turn of the \<open>i\<close>-th client; the thread that leaves its loop closes its descriptor and frees its
  context.\<close>

definition sump_client_step ::
  "(nat \<Rightarrow> capture_env) \<Rightarrow> u8 list \<Rightarrow> sump_config \<Rightarrow> nat \<Rightarrow> fd_table \<Rightarrow> sump_client list \<Rightarrow> logic_analyzer \<Rightarrow>
   (fd_table \<times> sump_client list \<times> logic_analyzer) option" where
  "sump_client_step W junk cfg i fds cls la =
     (if i < length cls
      then let cl = cls ! i
           in (case client_turn W junk cfg (cl_captures cl) (cl_session cl) la (cl_conn cl) of
                 None \<Rightarrow> None
               | Some (running, k, s, la', c) \<Rightarrow>
                   if running
                   then Some (fds, cls[i := cl\<lparr>cl_captures := k, cl_session := s, cl_conn := c\<rparr>], la')
                   else Some (fd_close (cl_fd cl) fds, take i cls @ drop (Suc i) cls, la'))
      else Some (fds, cls, la))"

text \<open>The turns of one client, one after the other, are its thread.\<close>

lemma client_loop_turns:
  "client_loop W junk cfg k s la c =
     (case client_turn W junk cfg k s la c of
        None \<Rightarrow> None
      | Some (running, k', s', la', c') \<Rightarrow>
          if running then client_loop W junk cfg k' s' la' c' else Some (la', c'))"
  by (subst client_loop.simps) (auto simp: client_turn_def split: prod.split option.split)

section \<open>The descriptors of the clients\<close>

text \<open>Each client has a descriptor of its own, above those of \<open>base\<close>.\<close>

definition clients_own :: "fd_table \<Rightarrow> fd_table \<Rightarrow> sump_client list \<Rightarrow> bool" where
  "clients_own base fds cls \<longleftrightarrow> fds = map cl_fd cls @ base \<and> distinct (map cl_fd cls) \<and>
     set (map cl_fd cls) \<inter> set base = {}"

lemma clients_own_none [simp]: "clients_own base base []"
  by (simp add: clients_own_def)

lemma fd_close_append: "fd \<notin> set xs \<Longrightarrow> fd_close fd (xs @ fds) = xs @ fd_close fd fds"
  by (simp add: fd_close_def)

lemma fd_close_absent: "fd \<notin> set fds \<Longrightarrow> fd_close fd fds = fds"
  by (simp add: fd_close_def)

lemma listener_turn_owns:
  "clients_own base fds cls \<Longrightarrow> edt_sump_listener_turn cfg res fds cls = (fds', cls') \<Longrightarrow> clients_own base fds' cls'"
  using fd_new_free(1) [of fds]
  by (auto simp: edt_sump_listener_turn_def clients_own_def Let_def disjoint_iff split: accept_result.splits if_splits)

lemma client_step_owns:
  assumes "clients_own base fds cls" "sump_client_step W junk cfg i fds cls la = Some (fds', cls', la')"
  shows "clients_own base fds' cls'"
proof (cases "i < length cls")
  case True
  have same: "map cl_fd (cls[i := (cls ! i)\<lparr>cl_captures := k, cl_session := s, cl_conn := c\<rparr>]) = map cl_fd cls"
    for k s c using True by (simp add: map_update list_update_same_conv)
  have split: "map cl_fd cls = map cl_fd (take i cls) @ cl_fd (cls ! i) # map cl_fd (drop (Suc i) cls)"
    using True by (metis id_take_nth_drop list.simps(9) map_append)
  have own: "fds = map cl_fd cls @ base" "distinct (map cl_fd cls)" "set (map cl_fd cls) \<inter> set base = {}"
    using assms(1) by (simp_all add: clients_own_def)
  have stays: "clients_own base fds (cls[i := (cls ! i)\<lparr>cl_captures := k, cl_session := s, cl_conn := c\<rparr>])" for k s c
    using own unfolding clients_own_def same by blast
  have leaves: "clients_own base (fd_close (cl_fd (cls ! i)) fds) (take i cls @ drop (Suc i) cls)"
    using own(2,3) unfolding clients_own_def own(1) split by (auto simp: fd_close_def)
  obtain running k s la1 c where
    t: "client_turn W junk cfg (cl_captures (cls ! i)) (cl_session (cls ! i)) la (cl_conn (cls ! i)) =
      Some (running, k, s, la1, c)"
    using assms(2) True by (auto simp: sump_client_step_def Let_def split: option.splits)
  show ?thesis
    using assms(2) True stays [where k = k and s = s and c = c] leaves by (cases running) (auto simp: sump_client_step_def Let_def t)
qed (use assms in \<open>simp add: sump_client_step_def\<close>)

section \<open>What the clients leave alone\<close>

text \<open>A client changes the configuration, the trigger and the ring of the analyzer; whether it runs is
  not among them.\<close>

lemma capture_loop_frame:
  assumes "capture_loop env clk start timeout m k la out got = Some (n, out', la')"
  shows "\<exists>rb. la' = la\<lparr>la_ring := rb\<rparr>"
proof -
  let ?P = "\<lambda>env clk start timeout m (k :: nat) la out got r. \<exists>rb. snd (snd r) = la\<lparr>la_ring := rb\<rparr>"
  have frame: "\<exists>rb. the (snd (snd (edt_logic_analyzer_read_samples (Some (la\<lparr>la_ring := r\<rparr>)) (Some o') x))) =
      la\<lparr>la_ring := rb\<rparr>" for la :: logic_analyzer and r o' x
    by (auto simp: edt_logic_analyzer_read_samples_def split: prod.split)
  have self: "\<exists>rb. la = la\<lparr>la_ring := rb\<rparr>" for la :: logic_analyzer
    by (intro exI [of _ "la_ring la"]) simp
  have "?P env clk start timeout m k la out got (n, out', la')"
  proof (rule capture_loop.raw_induct [where P = ?P, OF _ assms])
    fix f env clk start timeout m la out got and k :: nat and r :: "csize \<times> u8 list \<times> logic_analyzer"
    let ?res = "edt_logic_analyzer_read_samples (Some (la\<lparr>la_ring := env k (la_ring la)\<rparr>))
      (Some (drop (16 * unat got) out)) (m - got)"
    assume IH: "\<And>env clk start timeout m k la out got r. f env clk start timeout m k la out got = Some r \<Longrightarrow>
        ?P env clk start timeout m k la out got r"
      and eq: "(if got < m
        then let la1 = la\<lparr>la_ring := env k (la_ring la)\<rparr>; off = 16 * unat got;
                 res = edt_logic_analyzer_read_samples (Some la1) (Some (drop off out)) (m - got);
                 out' = take off out @ the (fst (snd res)); la' = the (snd (snd res)); got' = got + fst res
             in if got' \<ge> m then Some (got', out', la')
                else if timeout > 0 \<and> clk k - start \<ge> ucast timeout * 1000000 then Some (got', out', la')
                else f env clk start timeout m (Suc k) la' out' got'
        else Some (got, out, la)) = Some r"
    obtain rb where rb: "the (snd (snd ?res)) = la\<lparr>la_ring := rb\<rparr>" using frame by blast
    show "?P env clk start timeout m k la out got r"
      using eq IH [of env clk start timeout m "Suc k" "la\<lparr>la_ring := rb\<rparr>"] self [of la]
      unfolding Let_def rb by (auto split: if_splits)
  qed
  then show ?thesis by simp
qed

lemma capture_blocking_frame:
  "edt_logic_analyzer_capture_blocking env clk start (Some la) (Some out) m t = Some (n, outp, lap) \<Longrightarrow>
   \<exists>rb. lap = Some (la\<lparr>la_ring := rb\<rparr>)"
  by (auto simp: edt_logic_analyzer_capture_blocking_def split: if_splits dest: capture_loop_frame
      intro: exI [of _ "la_ring la"])

lemma apply_session_running:
  "edt_sump_apply_session la s = Some la' \<Longrightarrow> la_running la' = la_running la"
  by (auto simp: edt_sump_apply_session_def edt_logic_analyzer_set_sample_rate_def
      edt_logic_analyzer_set_trigger_def edt_logic_analyzer_arm_def Let_def split: option.splits if_splits)

lemma capture_reply_running:
  "capture_reply ce cfg s la = Some (bs, la') \<Longrightarrow> la_running la' = la_running la"
  by (auto simp: capture_reply_def Let_def split: option.splits prod.splits
      dest!: apply_session_running capture_blocking_frame)

lemma client_turn_running:
  "client_turn W junk cfg k s la c = Some (b, k', s', la', c') \<Longrightarrow> la_running la' = la_running la"
  by (auto simp: client_turn_def client_command_def edt_sump_stream_capture_def
      split: prod.splits if_splits option.splits dest!: capture_reply_running)

lemma client_step_running:
  "sump_client_step W junk cfg i fds cls la = Some (fds', cls', la') \<Longrightarrow> la_running la' = la_running la"
  by (auto simp: sump_client_step_def Let_def split: if_splits option.splits dest: client_turn_running)

end
