(* ===== verification/ToolkitMain.thy ===== *)
theory ToolkitMain
  imports DebugService SumpListener ProtocolDecoder EdtTime
begin

text \<open>
  The toolkit's command line, \<open>src/main.c\<close>: its options, and the loop that reads the status, captures
  samples, decodes and prints them and polls the plugins, while the threads of the service run. A run
  is a sequence of turns of that loop, with the steps of the threads between them. The lines of the
  status, which print the record the model keeps, are left out.
\<close>

section \<open>Options\<close>

definition ULONG_MAX :: int where
  "ULONG_MAX = 2 ^ 64 - 1"

text \<open>\<open>strtoul\<close> in base 10: a minus sign negates in the unsigned type, a value out of range is the
  largest.\<close>

definition c_strtoul :: "string \<Rightarrow> int" where
  "c_strtoul s =
     (let t = dropWhile c_isspace s;
          (neg, u) = (case t of
             CHR ''-'' # r \<Rightarrow> (True, r) | CHR ''+'' # r \<Rightarrow> (False, r) | _ \<Rightarrow> (False, t));
          v = digits_value 0 (takeWhile c_isdigit u)
      in if v > ULONG_MAX then ULONG_MAX else if neg then (- v) mod 2 ^ 64 else v)"

definition main_config :: service_config where
  "main_config =
     \<lparr>cfg_logic = \<lparr>sample_rate_hz = 5000000, max_sample_rate_hz = EDT_MAX_SAMPLE_RATE_HZ,
                    ring_capacity_samples = push_bit 17 1, simulate_signal = 1\<rparr>,
      cfg_sump = \<lparr>bind_ip = Some ''0.0.0.0'', port = 9527, capture_samples = 8192\<rparr>,
      cfg_net_capture = \<lparr>interface_name = Some ''eth0'', promiscuous = 0\<rparr>,
      cfg_system_monitor = \<lparr>interval_ms = 500, network_iface = Some ''eth0''\<rparr>,
      v4l2_device_name = Some ''/dev/video0'', plugin_dir = Some ''./plugins'',
      enable_sump_server = 1, enable_net_capture = 1\<rparr>"

definition set_interface :: "string \<Rightarrow> service_config \<Rightarrow> service_config" where
  "set_interface a c =
     c\<lparr>cfg_net_capture := (cfg_net_capture c)\<lparr>interface_name := Some a\<rparr>,
       cfg_system_monitor := (cfg_system_monitor c)\<lparr>network_iface := Some a\<rparr>\<rparr>"

definition set_rate :: "string \<Rightarrow> service_config \<Rightarrow> service_config" where
  "set_rate a c =
     (let r = word_of_int (c_strtoul a)
      in c\<lparr>cfg_logic := (cfg_logic c)\<lparr>sample_rate_hz := (if r = 0 then 1000000 else r)\<rparr>\<rparr>)"

definition set_duration :: "string \<Rightarrow> int" where
  "set_duration a = (let d = c_atoi a in if d \<le> 0 then 10 else d)"

text \<open>The options behind the program's name: an option that takes a value is ignored when it is the last
  argument.\<close>

fun parse_args :: "string list \<Rightarrow> service_config \<times> int \<Rightarrow> service_config \<times> int" where
  "parse_args [] (c, d) = (c, d)"
| "parse_args (a # as) (c, d) =
     (if a = ''--no-sump'' then parse_args as (c\<lparr>enable_sump_server := 0\<rparr>, d)
      else if a = ''--no-netcap'' then parse_args as (c\<lparr>enable_net_capture := 0\<rparr>, d)
      else case as of
        [] \<Rightarrow> (c, d)
      | v # rest \<Rightarrow>
          if a = ''--iface'' then parse_args rest (set_interface v c, d)
          else if a = ''--duration'' then parse_args rest (c, set_duration v)
          else if a = ''--sample-rate'' then parse_args rest (set_rate v c, d)
          else parse_args as (c, d))"

section \<open>State\<close>

record toolkit =
  tk_fds :: fd_table
  tk_service :: debug_service
  tk_clients :: "sump_client list"
  tk_samples :: "u8 list"
  tk_status :: "service_status ptr"
  tk_lines :: "string list"
  tk_plugins :: "plugin_event list"
  tk_loops :: nat

section \<open>The threads of the service\<close>

text \<open>A turn of the sampling thread, of the monitor, of the packet counter, of the listener, of a client.
  Those that test \<open>running\<close> do nothing once it is cleared.\<close>

datatype toolkit_event =
  SampleTurn u64
| MonitorTurn proc_env
| PacketTurn net_event
| AcceptTurn accept_result
| ClientTurn "nat \<Rightarrow> capture_env" "u8 list" nat

definition set_service :: "(debug_service \<Rightarrow> debug_service) \<Rightarrow> toolkit \<Rightarrow> toolkit" where
  "set_service f t = t\<lparr>tk_service := f (tk_service t)\<rparr>"

fun toolkit_step :: "toolkit_event \<Rightarrow> toolkit \<Rightarrow> toolkit option" where
  "toolkit_step (SampleTurn now) t =
     (if la_running (sv_logic (tk_service t)) = 0 then Some t
      else case edt_logic_sample_turn now (sv_logic (tk_service t)) of
        None \<Rightarrow> None
      | Some (la, _) \<Rightarrow> Some (set_service (\<lambda>s. s\<lparr>sv_logic := la\<rparr>) t))"
| "toolkit_step (MonitorTurn pe) t =
     Some (if sm_running (sv_monitor (tk_service t)) = 0 then t
           else set_service (\<lambda>s. s\<lparr>sv_monitor := edt_system_monitor_thread [pe] (sv_monitor s)\<rparr>) t)"
| "toolkit_step (PacketTurn e) t =
     Some (if nc_running (sv_net (tk_service t)) = 0 then t
           else set_service (\<lambda>s. s\<lparr>sv_net := edt_net_capture_thread [e] (sv_net s)\<rparr>) t)"
| "toolkit_step (AcceptTurn res) t =
     Some (if ss_running (sv_sump (tk_service t)) = 0 then t
           else case edt_sump_listener_turn (ss_config (sv_sump (tk_service t))) res (tk_fds t) (tk_clients t) of
             (fds, cls) \<Rightarrow> t\<lparr>tk_fds := fds, tk_clients := cls\<rparr>)"
| "toolkit_step (ClientTurn W junk i) t =
     (case sump_client_step W junk (ss_config (sv_sump (tk_service t))) i (tk_fds t) (tk_clients t)
             (sv_logic (tk_service t)) of
        None \<Rightarrow> None
      | Some (fds, cls, la) \<Rightarrow>
          Some (set_service (\<lambda>s. s\<lparr>sv_logic := la\<rparr>) (t\<lparr>tk_fds := fds, tk_clients := cls\<rparr>)))"

fun toolkit_steps :: "toolkit_event list \<Rightarrow> toolkit \<Rightarrow> toolkit option" where
  "toolkit_steps [] t = Some t"
| "toolkit_steps (e # es) t = (case toolkit_step e t of None \<Rightarrow> None | Some t' \<Rightarrow> toolkit_steps es t')"

section \<open>The loop\<close>

definition event_line :: "proto_event \<Rightarrow> string" where
  "event_line e = ''    ['' @ edt_format_local_time (ev_timestamp_ns e) 64 @ ''] '' @ summary e"

definition edt_print_events :: "string \<Rightarrow> proto_event list \<Rightarrow> nat \<Rightarrow> string list" where
  "edt_print_events name events limit =
     (if events = [] then [] else (''  '' @ name @ '' events:'') # map event_line (take limit events))"

text \<open>What a turn of the loop meets: the steps of the threads before it, the clock of its status, the
  capture.\<close>

record loop_env =
  le_steps :: "toolkit_event list"
  le_now :: u64
  le_capture :: capture_env

definition main_uart :: "u32 \<Rightarrow> uart_config" where
  "main_uart rate = \<lparr>rx_channel = 0, baudrate = 115200, uart_rate_hz = rate\<rparr>"

definition main_i2c :: i2c_config where
  "main_i2c = \<lparr>scl_channel = 1, sda_channel = 2\<rparr>"

definition main_spi :: spi_config where
  "main_spi = \<lparr>clk_channel = 3, cs_channel = 6, mosi_channel = 4, miso_channel = 5, cpol = 0, cpha = 0\<rparr>"

text \<open>The lines printed for \<open>sample_count\<close> captured samples.\<close>

definition decode_lines :: "logic_sample list \<Rightarrow> nat \<Rightarrow> u32 \<Rightarrow> string list" where
  "decode_lines samples sample_count rate =
     edt_print_events ''UART'' (edt_decode_uart (Some samples) sample_count (Some (main_uart rate)) 64) 4 @
     edt_print_events ''I2C'' (edt_decode_i2c (Some samples) sample_count (Some main_i2c) 64) 4 @
     edt_print_events ''SPI'' (edt_decode_spi (Some samples) sample_count (Some main_spi) 64) 4"

definition status_zero :: service_status where
  "status_zero = \<lparr>st_timestamp_ns = 0, st_sample_rate_hz = 0, st_total_samples = 0, st_dropped_samples = 0,
     st_net_stats = stats_zero, st_sys_stats = snapshot_zero,
     st_v4l2_status = \<lparr>available = 0, v4l2_device = [], driver = [], card = [], capabilities = 0, probe_timestamp_ns = 0\<rparr>\<rparr>"

definition loop_turn :: "loop_env \<Rightarrow> toolkit \<Rightarrow> toolkit option" where
  "loop_turn e t =
     (let s = tk_service t;
          (_, status) = edt_debug_service_get_status (le_now e) (Some s) (Some status_zero)
      in case edt_logic_analyzer_capture_blocking (ce_sampler (le_capture e)) (ce_clock (le_capture e))
                (ce_start (le_capture e)) (Some (sv_logic s)) (Some (tk_samples t)) 8192 120 of
           None \<Rightarrow> None
         | Some (sample_count, outp, lap) \<Rightarrow>
             let s' = s\<lparr>sv_logic := the lap\<rparr>;
                 rate = edt_logic_analyzer_get_sample_rate lap;
                 (_, es) = edt_debug_service_poll_plugins (Some s')
             in Some (t\<lparr>tk_service := s', tk_samples := the outp, tk_status := status,
                        tk_lines := tk_lines t @ decode_lines (bytes_samples (the outp)) (unat sample_count) rate,
                        tk_plugins := tk_plugins t @ es, tk_loops := Suc (tk_loops t)\<rparr>))"

text \<open>The loop with \<open>n\<close> turns to go; the signal arrives when the list of turns ends.\<close>

fun main_loop :: "nat \<Rightarrow> loop_env list \<Rightarrow> toolkit \<Rightarrow> toolkit option" where
  "main_loop 0 es t = Some t"
| "main_loop (Suc n) [] t = Some t"
| "main_loop (Suc n) (e # es) t =
     (case toolkit_steps (le_steps e) t of
        None \<Rightarrow> None
      | Some t1 \<Rightarrow> (case loop_turn e t1 of None \<Rightarrow> None | Some t2 \<Rightarrow> main_loop n es t2))"

section \<open>The program\<close>

definition toolkit_destroy :: "toolkit \<Rightarrow> toolkit" where
  "toolkit_destroy t =
     (case edt_debug_service_destroy (tk_fds t) (Some (tk_service t)) of
        (fds, sp, es) \<Rightarrow> t\<lparr>tk_fds := fds, tk_service := the sp, tk_plugins := tk_plugins t @ es\<rparr>)"

text \<open>The start of the service, and its destruction when that fails.\<close>

definition toolkit_start ::
  "init_env \<Rightarrow> service_start_env \<Rightarrow> service_config \<Rightarrow> toolkit \<Rightarrow> (int \<times> toolkit) option" where
  "toolkit_start ie se cfg t =
     (case edt_debug_service_init ie (tk_fds t) (Some (tk_service t)) (Some cfg) of
        None \<Rightarrow> None
      | Some (r1, fds1, sp1, es) \<Rightarrow>
          let t1 = t\<lparr>tk_fds := fds1, tk_service := the sp1, tk_plugins := es\<rparr>
          in if r1 \<noteq> 0 then Some (1, t1)
             else (case edt_debug_service_start se fds1 sp1 of
               (r2, fds2, sp2) \<Rightarrow>
                 let t2 = t1\<lparr>tk_fds := fds2, tk_service := the sp2\<rparr>
                 in Some (if r2 \<noteq> 0 then (1, toolkit_destroy t2) else (0, t2))))"

text \<open>The exit code and the process when it exits; \<open>late\<close> are steps of the threads before the
  destruction. \<open>None\<close>: a thread traps or hangs, or \<open>duration_sec * 2\<close> overflows, which C leaves
  undefined.\<close>

definition toolkit_main ::
  "init_env \<Rightarrow> service_start_env \<Rightarrow> loop_env list \<Rightarrow> toolkit_event list \<Rightarrow> fd_table \<Rightarrow> debug_service \<Rightarrow> u8 list \<Rightarrow>
   string list \<Rightarrow> (int \<times> toolkit) option" where
  "toolkit_main ie se turns late fds junk samples args =
     (let (cfg, duration_sec) = parse_args args (main_config, 10);
          t0 = \<lparr>tk_fds = fds, tk_service = junk, tk_clients = [], tk_samples = samples, tk_status = NULL,
                tk_lines = [], tk_plugins = [], tk_loops = 0\<rparr>
      in case toolkit_start ie se cfg t0 of
           None \<Rightarrow> None
         | Some (r, t1) \<Rightarrow>
             if r \<noteq> 0 then Some (r, t1)
             else if duration_sec * 2 \<ge> 2 ^ 31 then None
             else (case main_loop (nat (duration_sec * 2)) turns t1 of
               None \<Rightarrow> None
             | Some t2 \<Rightarrow> map_option (\<lambda>t3. (0, toolkit_destroy t3)) (toolkit_steps late t2)))"

section \<open>What the running program owns\<close>

text \<open>Above the descriptors \<open>base\<close> those of the service, and above these those of the clients; the
  libraries opened and not closed are those of the plugin manager.\<close>

definition toolkit_inv :: "fd_table \<Rightarrow> toolkit \<Rightarrow> bool" where
  "toolkit_inv base t \<longleftrightarrow>
     (\<exists>mid. service_ok base mid (tk_service t) \<and> clients_own mid (tk_fds t) (tk_clients t)) \<and>
     opened (tk_plugins t) = manager_held (sv_plugins (tk_service t)) + closed (tk_plugins t)"

lemma sample_turn_running: "edt_logic_sample_turn now la = Some (la', sl) \<Longrightarrow> la_running la' = la_running la"
  by (auto simp: edt_logic_sample_turn_def push_batch_def Let_def split: option.splits prod.splits if_splits
      dest: fill_batch_frame)

lemma monitor_turn_running: "sm_running (edt_system_monitor_thread [pe] m) = sm_running m"
  by (auto simp: edt_system_collect_once_def Let_def split: prod.splits)

lemma packet_turn_owns:
  "nc_owns base fds (edt_net_capture_thread [e] c) = nc_owns base fds c"
  "nc_running (edt_net_capture_thread [e] c) = nc_running c"
  by (cases e; auto simp: nc_owns_def edt_net_update_stats_def Let_def)+

lemma service_ok_logic:
  "service_ok base fds s \<Longrightarrow> la_running la = la_running (sv_logic s) \<Longrightarrow> service_ok base fds (s\<lparr>sv_logic := la\<rparr>)"
  by (auto simp: service_ok_def)

lemma toolkit_step_inv:
  assumes "toolkit_inv base t" "toolkit_step e t = Some t'"
  shows "toolkit_inv base t'"
proof -
  obtain mid where own: "service_ok base mid (tk_service t)" "clients_own mid (tk_fds t) (tk_clients t)"
    using assms(1) by (auto simp: toolkit_inv_def)
  have bal: "opened (tk_plugins t) = manager_held (sv_plugins (tk_service t)) + closed (tk_plugins t)"
    using assms(1) by (simp add: toolkit_inv_def)
  show ?thesis
  proof (cases e)
    case (SampleTurn now)
    show ?thesis
    proof (cases "la_running (sv_logic (tk_service t)) = 0")
      case False
      then obtain la sl where turn: "edt_logic_sample_turn now (sv_logic (tk_service t)) = Some (la, sl)"
        and t': "t' = set_service (\<lambda>s. s\<lparr>sv_logic := la\<rparr>) t"
        using assms(2) SampleTurn by (auto split: option.splits)
      show ?thesis
        using service_ok_logic [OF own(1) sample_turn_running [OF turn]] own(2) bal
        by (auto simp: t' toolkit_inv_def set_service_def)
    qed (use assms SampleTurn in simp)
  next
    case (MonitorTurn pe)
    have "service_ok base mid ((tk_service t)\<lparr>sv_monitor := edt_system_monitor_thread [pe] (sv_monitor (tk_service t))\<rparr>)"
      using own(1) unfolding service_ok_def by (simp add: monitor_turn_running del: edt_system_monitor_thread.simps)
    then show ?thesis
      using MonitorTurn assms own bal by (auto simp: toolkit_inv_def set_service_def split: if_splits)
  next
    case (PacketTurn p)
    have "service_ok base mid ((tk_service t)\<lparr>sv_net := edt_net_capture_thread [p] (sv_net (tk_service t))\<rparr>)"
      using own(1) unfolding service_ok_def by (simp add: packet_turn_owns)
    then show ?thesis
      using PacketTurn assms own bal by (auto simp: toolkit_inv_def set_service_def split: if_splits)
  next
    case (AcceptTurn res)
    obtain fds cls where a: "edt_sump_listener_turn (ss_config (sv_sump (tk_service t))) res (tk_fds t) (tk_clients t) =
        (fds, cls)" by fastforce
    have "t' = t \<or> t' = t\<lparr>tk_fds := fds, tk_clients := cls\<rparr>"
      using assms(2) AcceptTurn a by (auto split: if_splits)
    then show ?thesis
      using assms(1) own(1) bal listener_turn_owns [OF own(2) a] by (auto simp: toolkit_inv_def)
  next
    case (ClientTurn W junk i)
    then obtain fds cls la where c: "sump_client_step W junk (ss_config (sv_sump (tk_service t))) i (tk_fds t)
        (tk_clients t) (sv_logic (tk_service t)) = Some (fds, cls, la)"
      and t': "t' = set_service (\<lambda>s. s\<lparr>sv_logic := la\<rparr>) (t\<lparr>tk_fds := fds, tk_clients := cls\<rparr>)"
      using assms(2) by (auto split: option.splits)
    show ?thesis
      using bal service_ok_logic [OF own(1) client_step_running [OF c]] client_step_owns [OF own(2) c]
      by (auto simp: t' toolkit_inv_def set_service_def)
  qed
qed

lemma steps_inv: "toolkit_inv base t \<Longrightarrow> toolkit_steps es t = Some t' \<Longrightarrow> toolkit_inv base t'"
  by (induction es arbitrary: t) (auto split: option.splits dest: toolkit_step_inv)

lemma steps_loops: "toolkit_steps es t = Some t' \<Longrightarrow> tk_loops t' = tk_loops t"
proof (induction es arbitrary: t)
  case (Cons e es)
  then obtain t1 where t1: "toolkit_step e t = Some t1" "toolkit_steps es t1 = Some t'" by (auto split: option.splits)
  moreover have "tk_loops t1 = tk_loops t"
    using t1(1) by (cases e) (auto simp: set_service_def split: if_splits option.splits prod.splits)
  ultimately show ?case using Cons.IH by simp
qed simp

lemma tick_balance: "edt_plugin_manager_tick (Some m) = (r, es) \<Longrightarrow> opened es = {#} \<and> closed es = {#}"
  by (auto simp: edt_plugin_manager_tick_def split: option.splits)

lemma loop_turn_inv:
  assumes "toolkit_inv base t" "loop_turn e t = Some t'"
  shows "toolkit_inv base t' \<and> tk_loops t' = Suc (tk_loops t)"
proof -
  obtain mid where own: "service_ok base mid (tk_service t)" "clients_own mid (tk_fds t) (tk_clients t)"
    using assms(1) by (auto simp: toolkit_inv_def)
  have bal: "opened (tk_plugins t) = manager_held (sv_plugins (tk_service t)) + closed (tk_plugins t)"
    using assms(1) by (simp add: toolkit_inv_def)
  obtain n outp lap where c: "edt_logic_analyzer_capture_blocking (ce_sampler (le_capture e))
      (ce_clock (le_capture e)) (ce_start (le_capture e)) (Some (sv_logic (tk_service t))) (Some (tk_samples t)) 8192 120 =
      Some (n, outp, lap)"
    using assms(2) by (auto simp: loop_turn_def Let_def split: option.splits prod.splits)
  obtain rb where lap: "lap = Some ((sv_logic (tk_service t))\<lparr>la_ring := rb\<rparr>)"
    using capture_blocking_frame [OF c] by blast
  obtain r es where tick: "edt_plugin_manager_tick (Some (sv_plugins (tk_service t))) = (r, es)" by fastforce
  obtain status samples lines where
    t': "t' = t\<lparr>tk_service := (tk_service t)\<lparr>sv_logic := (sv_logic (tk_service t))\<lparr>la_ring := rb\<rparr>\<rparr>,
      tk_samples := samples, tk_status := status, tk_lines := lines, tk_plugins := tk_plugins t @ es,
      tk_loops := Suc (tk_loops t)\<rparr>"
    using assms(2) c lap tick by (auto simp: loop_turn_def edt_debug_service_poll_plugins_def Let_def split: prod.splits)
  have "service_ok base mid ((tk_service t)\<lparr>sv_logic := (sv_logic (tk_service t))\<lparr>la_ring := rb\<rparr>\<rparr>)"
    by (rule service_ok_logic [OF own(1)]) simp
  then show ?thesis using own(2) bal tick_balance [OF tick] by (auto simp: t' toolkit_inv_def)
qed

lemma main_loop_inv:
  "toolkit_inv base t \<Longrightarrow> main_loop n es t = Some t' \<Longrightarrow>
   toolkit_inv base t' \<and> tk_loops t' = tk_loops t + min n (length es)"
proof (induction n es t rule: main_loop.induct)
  case (3 n e es t)
  then obtain t1 t2 where t: "toolkit_steps (le_steps e) t = Some t1" "loop_turn e t1 = Some t2" "main_loop n es t2 = Some t'"
    by (auto split: option.splits)
  have t2: "toolkit_inv base t2" "tk_loops t2 = Suc (tk_loops t)"
    using loop_turn_inv [OF steps_inv [OF 3(2) t(1)] t(2)] steps_loops [OF t(1)] by auto
  show ?case using 3(1) [OF t(1,2) t2(1) t(3)] t2(2) by simp
qed auto

text \<open>What is left when the service is gone.\<close>

definition toolkit_gone :: "fd_table \<Rightarrow> toolkit \<Rightarrow> bool" where
  "toolkit_gone base t \<longleftrightarrow> clients_own base (tk_fds t) (tk_clients t) \<and>
     opened (tk_plugins t) = closed (tk_plugins t) \<and> rb_data (la_ring (sv_logic (tk_service t))) = NULL"

lemma toolkit_destroy_gone:
  assumes "toolkit_inv base t"
  shows "toolkit_gone base (toolkit_destroy t) \<and> tk_clients (toolkit_destroy t) = tk_clients t \<and>
    tk_loops (toolkit_destroy t) = tk_loops t"
proof -
  obtain mid where own: "service_ok base mid (tk_service t)" "clients_own mid (tk_fds t) (tk_clients t)"
    using assms by (auto simp: toolkit_inv_def)
  define cl where "cl = map cl_fd (tk_clients t)"
  have cl: "tk_fds t = cl @ mid" "set cl \<inter> set mid = {}" "distinct cl"
    using own(2) by (simp_all add: clients_own_def cl_def)
  obtain s3 es where d: "edt_debug_service_destroy (tk_fds t) (Some (tk_service t)) = (cl @ base, Some s3, es)"
      "rb_data (la_ring (sv_logic s3)) = NULL" "opened es = {#}" "closed es = manager_held (sv_plugins (tk_service t))"
    using destroy_beside [OF own(1) cl(2)] unfolding cl(1) by blast
  have "set cl \<inter> set base = {}"
    using own(1) cl(2) by (auto simp: service_ok_def nc_owns_def sump_owns_def split: if_splits)
  then show ?thesis
    using assms d cl(3)
    by (auto simp: toolkit_destroy_def toolkit_gone_def clients_own_def toolkit_inv_def cl_def [symmetric] ac_simps)
qed

text \<open>The start.\<close>

lemma start_plugins:
  "edt_debug_service_start se fds (Some s) = (r, fds', sp) \<Longrightarrow> sv_plugins (the sp) = sv_plugins s"
  by (auto simp: edt_debug_service_start_def Let_def split: prod.splits if_splits)

lemma toolkit_start_inv:
  assumes "toolkit_start ie se cfg t = Some (r, t')" "tk_clients t = []" "service_env_ok se"
  shows "tk_clients t' = [] \<and> tk_loops t' = tk_loops t \<and>
    (if r = 0 then toolkit_inv (tk_fds t) t' else r = 1 \<and> toolkit_gone (tk_fds t) t')"
proof -
  obtain r1 fds1 sp1 es where i: "edt_debug_service_init ie (tk_fds t) (Some (tk_service t)) (Some cfg) =
      Some (r1, fds1, sp1, es)"
    using assms(1) by (auto simp: toolkit_start_def split: option.splits)
  then obtain s1 where s1: "sp1 = Some s1"
    by (auto simp: edt_debug_service_init_def Let_def split: option.splits prod.splits if_splits)
  note init = service_init_result [OF i [unfolded s1]]
  define t1 where "t1 = t\<lparr>tk_fds := fds1, tk_service := s1, tk_plugins := es\<rparr>"
  show ?thesis
  proof (cases "r1 = 0")
    case False
    then have "r = 1" "t' = t1" using assms(1) i s1 by (auto simp: toolkit_start_def t1_def Let_def)
    then show ?thesis using init False assms(2) by (simp add: t1_def toolkit_gone_def)
  next
    case True
    obtain r2 fds2 sp2 where st: "edt_debug_service_start se fds1 (Some s1) = (r2, fds2, sp2)" by (metis prod_cases3)
    define t2 where "t2 = t1\<lparr>tk_fds := fds2, tk_service := the sp2\<rparr>"
    have res: "(r, t') = (if r2 \<noteq> 0 then (1, toolkit_destroy t2) else (0, t2))"
      using assms(1) i s1 st True by (auto simp: toolkit_start_def t1_def t2_def Let_def split: if_splits)
    have "service_ok (tk_fds t) fds2 (the sp2)"
      using service_start_ok [OF _ assms(3) st] init True by auto
    moreover have "sv_plugins (the sp2) = sv_plugins s1" using start_plugins [OF st] by simp
    ultimately have inv: "toolkit_inv (tk_fds t) t2"
      using init True assms(2) by (auto simp: toolkit_inv_def t2_def t1_def)
    have "tk_clients t2 = []" "tk_loops t2 = tk_loops t" using assms(2) by (simp_all add: t2_def t1_def)
    then show ?thesis using res inv toolkit_destroy_gone [OF inv] by (auto split: if_splits)
  qed
qed

section \<open>The program ends as it began\<close>


section \<open>An instance\<close>

text \<open>A run of a single turn in which a client connects and stays.\<close>

definition toolkit_demo_start :: service_start_env where
  "toolkit_demo_start = \<lparr>sse_logic = Inr (), sse_monitor = NULL,
     sse_net = \<lparr>ne_socket = Some 1, ne_index = NULL, ne_bind = NULL, ne_thread = NULL\<rparr>,
     sse_sump = \<lparr>se_socket = NULL, se_pton = True, se_bind = NULL, se_listen = NULL, se_thread = NULL\<rparr>\<rparr>"

definition toolkit_demo_late :: "toolkit_event list" where
  "toolkit_demo_late = [AcceptTurn (AcceptFails 4),
     AcceptTurn (Accepted True True \<lparr>rx = [], tx = [], sent = [], conn_errno = 0\<rparr>)]"

lemma demo_options: "parse_args [''--duration'', ''3'', ''--no-netcap''] (main_config, 10) =
    (main_config\<lparr>enable_net_capture := 0\<rparr>, 3)"
  by (simp add: set_duration_def c_atoi_def c_strtol_def c_int_def c_isspace_def c_isdigit_def digits_value_def
      digit_value_def LONG_MAX_def Let_def)

definition toolkit_demo_config :: service_config where
  "toolkit_demo_config = main_config\<lparr>enable_net_capture := 0\<rparr>"

definition toolkit_demo_turn :: loop_env where
  "toolkit_demo_turn = \<lparr>le_steps = [PacketTurn (Packet 7 [1, 2, 3])], le_now = 5,
     le_capture = \<lparr>ce_sampler = (\<lambda>_ rb. rb), ce_clock = (\<lambda>k. of_nat (Suc k) * 600000000), ce_start = 0, ce_alloc = True\<rparr>\<rparr>"

lemma demo_main_config: "merge_config (Some toolkit_demo_config) = toolkit_demo_config"
  by (simp add: merge_config_def toolkit_demo_config_def main_config_def or_string_def EDT_MAX_SAMPLE_RATE_HZ_def Let_def)

lemma toolkit_demo_init:
  "\<exists>s es. edt_debug_service_init service_demo_env fds (Some s0) (Some toolkit_demo_config) = Some (0, fds, Some s, es)"
proof -
  let ?cfg = "toolkit_demo_config"
  have n: "(2 :: csize) \<le> push_bit 17 1 * of_nat sample_size" "push_bit 17 1 * of_nat sample_size \<le> (2 ^ 63 :: csize)"
    by (simp_all add: sample_size_def word_le_nat_alt push_bit_eq_mult)
  obtain rb where rb: "edt_ring_buffer_init True (Some ring_zero) (push_bit 17 1 * of_nat sample_size) = Some (0, Some rb)"
    using ring_init_wf [OF n] by blast
  have "ring_capacity_samples (normalise_config (Some (cfg_logic ?cfg))) = push_bit 17 1"
    by (simp add: normalise_config_def toolkit_demo_config_def main_config_def EDT_MAX_SAMPLE_RATE_HZ_def Let_def)
  then obtain lap where l: "edt_logic_analyzer_init (ie_ring_alloc service_demo_env)
      (Some (sv_logic (service_zero ?cfg))) (Some (cfg_logic ?cfg)) = Some (0, lap)"
    using rb by (simp add: edt_logic_analyzer_init_def Let_def service_demo_env_def)
  show ?thesis
    unfolding edt_debug_service_init_def option.case demo_main_config Let_def l prod.case
    by (simp add: edt_sump_server_init_def edt_net_capture_init_def edt_system_monitor_init_def
        edt_v4l2_probe_def edt_plugin_manager_init_def edt_plugin_manager_load_dir_def service_demo_env_def
        toolkit_demo_config_def main_config_def Let_def)
qed

lemma toolkit_demo_started: "\<exists>t'. toolkit_start service_demo_env toolkit_demo_start toolkit_demo_config t = Some (0, t')"
proof -
  obtain s es where i: "edt_debug_service_init service_demo_env (tk_fds t) (Some (tk_service t)) (Some toolkit_demo_config) =
      Some (0, tk_fds t, Some s, es)" using toolkit_demo_init by blast
  have "sv_started s = 0" using service_init_result [OF i] by simp
  then have "fst (edt_debug_service_start toolkit_demo_start (tk_fds t) (Some s)) = 0"
    by (auto simp: edt_debug_service_start_def toolkit_demo_start_def logic_start_def monitor_start_def
        edt_logic_analyzer_start_def edt_system_monitor_start_def Let_def split: prod.split)
  then obtain fds2 sp2 where "edt_debug_service_start toolkit_demo_start (tk_fds t) (Some s) = (0, fds2, sp2)"
    by (metis prod.collapse)
  with i show ?thesis by (simp add: toolkit_start_def Let_def)
qed

lemma demo_loop_turn: "\<exists>t'. loop_turn toolkit_demo_turn t = Some t'"
proof -
  let ?s = "tk_service t" and ?clk = "\<lambda>k. of_nat (Suc k) * 600000000 :: u64"
  have "\<exists>r. edt_logic_analyzer_capture_blocking (\<lambda>_ rb. rb) ?clk 0 (Some (sv_logic ?s)) (Some (tk_samples t)) 8192 120 = Some r"
    by (simp add: edt_logic_analyzer_capture_blocking_def capture_loop.simps Let_def split: prod.split)
  then obtain n outp lap where "edt_logic_analyzer_capture_blocking (\<lambda>_ rb. rb) ?clk 0 (Some (sv_logic ?s))
      (Some (tk_samples t)) 8192 120 = Some (n, outp, lap)" by auto
  then show ?thesis by (simp add: loop_turn_def toolkit_demo_turn_def Let_def split: prod.split del: of_nat_Suc)
qed


end
