(* ===== verification/ToolkitDecode.thy ===== *)
theory ToolkitDecode
  imports ToolkitMain "HOL-Library.Sublist"
begin

text \<open>
  The toolkit from the sample ring to the printed lines: what a turn of the command line's loop takes
  out of the ring, in which order, and what it prints of it. It composes the capture with its time
  limit, the ring and the decoder.
\<close>

section \<open>The captured samples\<close>

text \<open>The samples captured, followed by those left in the ring, are those of the ring followed by what
  the sampling thread added.\<close>

lemma captured_samples:
  assumes "sampler_env env" "0 < timeout" "clk j - start \<ge> ucast timeout * 1000000" "ring_whole (la_ring la)"
    and "16 * unat m \<le> length out" "length out < 2 ^ 64"
  shows "\<exists>n out' la' more. edt_logic_analyzer_capture_blocking env clk start (Some la) (Some out) m timeout =
      Some (n, Some out', Some la') \<and> unat n \<le> unat m \<and> length out' = length out \<and>
      unat n \<le> length (bytes_samples out') \<and>
      take (unat n) (bytes_samples out') @ ring_samples (la_ring la') = ring_samples (la_ring la) @ more"
proof -
  obtain n out' la' ys where c: "edt_logic_analyzer_capture_blocking env clk start (Some la) (Some out) m timeout =
      Some (n, Some out', Some la')" "unat n \<le> unat m" "length out' = length out" "ring_whole (la_ring la')"
    and bytes: "take (16 * unat n) out' @ rb_contents (la_ring la') = rb_contents (la_ring la) @ ys"
    using capture_blocking_stream [OF assms(1,2) _ assms(4-6), of clk j start] assms(3) by blast
  let ?b = "take (16 * unat n) out'"
  have len: "length ?b = 16 * unat n" using c(2,3) assms(5) by simp
  have "bytes_samples out' = bytes_samples ?b @ bytes_samples (drop (16 * unat n) out')"
    using bytes_samples_append [of ?b "drop (16 * unat n) out'"] len by simp
  moreover have "length (bytes_samples ?b) = unat n" by (simp only: length_bytes_samples len)
  ultimately have tk: "take (unat n) (bytes_samples out') = bytes_samples ?b" "unat n \<le> length (bytes_samples out')"
    by simp_all
  have "16 dvd length (rb_contents (la_ring la))" using assms(4) unfolding ring_whole_def by blast
  then have "bytes_samples ?b @ ring_samples (la_ring la') = ring_samples (la_ring la) @ bytes_samples ys"
    using bytes_samples_append [of ?b "rb_contents (la_ring la')"] bytes_samples_append [of "rb_contents (la_ring la)" ys]
      len bytes by (simp add: ring_samples_def)
  then show ?thesis using c tk by (intro exI [of _ n] exI [of _ out'] exI [of _ la'] exI [of _ "bytes_samples ys"]) simp
qed

section \<open>From the ring to the line printed\<close>

text \<open>The events a sender's frames lead to, as the decoder stamps them.\<close>

definition sent_events :: "logic_sample list \<Rightarrow> nat \<Rightarrow> nat \<Rightarrow> (u8 \<times> nat) list \<Rightarrow> proto_event list" where
  "sent_events samples spb idle frames =
     map (\<lambda>(p, b). uart_event (timestamp_ns (samples ! p)) b) (uart_starts spb idle frames)"


section \<open>An instance\<close>

text \<open>An analyzer sampling at 1 MHz, eight samples a bit.\<close>

definition decode_demo :: toolkit where
  "decode_demo = \<lparr>tk_fds = [0, 1, 2],
     tk_service = (service_zero toolkit_demo_config)\<lparr>sv_logic := (la_demo one_pulse 0)\<lparr>la_config := \<lparr>sample_rate_hz = 1000000,
       max_sample_rate_hz = 1000000, ring_capacity_samples = 2, simulate_signal = 0\<rparr>\<rparr>\<rparr>, tk_clients = [],
     tk_samples = replicate 131072 0, tk_status = NULL, tk_lines = [], tk_plugins = [], tk_loops = 0\<rparr>"


end
