(* ===== verification/ToolkitTests.thy ===== *)
theory ToolkitTests
  imports LogicAnalyzer ProtocolDecoder
begin

text \<open>
  The toolkit's own unit tests, \<open>tests/test_ring_buffer.c\<close> and \<open>tests/test_protocol_decoder.c\<close>, run on the
  model: every assertion of theirs is a conjunct. The signal the decoder's test builds is a case of the
  line of \<open>ProtocolDecoder\<close>, so that its assertions hold for every byte and rate.
\<close>

section \<open>The ring\<close>

definition test_ring_buffer :: "ring_buffer \<Rightarrow> u8 list \<Rightarrow> bool" where
  "test_ring_buffer rb0 out0 =
     (case edt_ring_buffer_init True (Some rb0) 8 of
        None \<Rightarrow> False
      | Some (r, rb) \<Rightarrow>
          let in1 = [1, 2, 3, 4, 5, 6]; in2 = [7, 8, 9, 10, 11];
              (n1, rb1) = edt_ring_buffer_write rb (Some in1) 6;
              avail = edt_ring_buffer_available_data rb1;
              (n2, out2, rb2) = edt_ring_buffer_read rb1 (Some out0) 3;
              (n3, rb3) = edt_ring_buffer_write rb2 (Some in2) 5;
              (n4, out4, rb4) = edt_ring_buffer_read rb3 out2 16
          in r = 0 \<and> n1 = 6 \<and> avail = 6 \<and> n2 = 3 \<and> take 3 (the out2) = take 3 in1 \<and> n3 = 5 \<and> n4 = 8 \<and>
             take 8 (the out4) = [4, 5, 6, 7, 8, 9, 10, 11])"

section \<open>The decoder\<close>

text \<open>One loop of the signal: \<open>k\<close> samples of one level, while there is room.\<close>

fun emit_level :: "nat \<Rightarrow> u64 \<Rightarrow> u8 \<Rightarrow> nat \<Rightarrow> logic_sample list \<times> u64 \<Rightarrow> logic_sample list \<times> u64" where
  "emit_level room step level 0 st = st"
| "emit_level room step level (Suc k) (samples, ts) =
     (if length samples < room
      then emit_level room step level k (samples @ [\<lparr>timestamp_ns = ts, channels = level\<rparr>], ts + step)
      else (samples, ts))"

text \<open>The samples written; None: a division by zero.\<close>

definition build_uart_samples :: "nat \<Rightarrow> u8 \<Rightarrow> u32 \<Rightarrow> u32 \<Rightarrow> logic_sample list option" where
  "build_uart_samples room data rate baud =
     (if baud = 0 then None
      else let spb = unat (rate div baud); step = 1000000000 div ucast rate
      in if spb = 0 then Some []
         else let st1 = emit_level room step 1 (spb * 2) ([], 0);
                  st2 = emit_level room step 0 spb st1;
                  st3 = fold (\<lambda>k. emit_level room step (if bit data k then 1 else 0) spb) [0..<8] st2
              in Some (fst (emit_level room step 1 spb st3)))"

definition test_uart_decoder :: bool where
  "test_uart_decoder =
     (case build_uart_samples 4096 0xA5 1000000 9600 of
        None \<Rightarrow> False
      | Some samples \<Rightarrow>
          let events = edt_decode_uart (Some samples) (length samples)
                         (Some \<lparr>rx_channel = 0, baudrate = 9600, uart_rate_hz = 1000000\<rparr>) 16
          in 1 \<le> length events \<and> ev_type (events ! 0) = PROTO_UART \<and> value0 (events ! 0) = 0xA5)"

section \<open>The signal is a line\<close>

text \<open>The levels written so far, at times that are multiples of the step.\<close>

definition signal :: "u64 \<Rightarrow> bool list \<Rightarrow> logic_sample list \<times> u64 \<Rightarrow> bool" where
  "signal step ls st \<longleftrightarrow> map (\<lambda>x. bit (channels x) 0) (fst st) = ls \<and> snd st = of_nat (length ls) * step \<and>
     (\<forall>p < length ls. timestamp_ns (fst st ! p) = of_nat p * step)"

lemma emit_signal:
  "signal step ls st \<Longrightarrow> length ls + k \<le> room \<Longrightarrow> signal step (ls @ replicate k (bit level 0)) (emit_level room step level k st)"
proof (induction k arbitrary: ls st)
  case (Suc k)
  obtain samples ts where st: "st = (samples, ts)" by (cases st)
  have len: "length samples = length ls" using Suc.prems(1) st by (auto simp: signal_def)
  have "signal step (ls @ [bit level 0]) (samples @ [\<lparr>timestamp_ns = ts, channels = level\<rparr>], ts + step)"
    using Suc.prems(1) len unfolding st by (auto simp: signal_def nth_append less_Suc_eq algebra_simps)
  from Suc.IH [OF this] Suc.prems(2) len show ?case by (simp add: st replicate_append_same)
qed simp

lemma frame_levels: "uart_frame spb b = concat (map (\<lambda>k. replicate spb (frame_level b k)) [0..<10])"
proof -
  have "map (\<lambda>j. f (j div spb)) [0..<m * spb] = concat (map (\<lambda>k. replicate spb (f k)) [0..<m])" for f :: "nat \<Rightarrow> bool" and m
  proof (induction m)
    case (Suc m)
    have "map (\<lambda>j. f (j div spb)) [m * spb..<m * spb + spb] = replicate spb (f m)"
      by (rule nth_equalityI) simp_all
    then show ?case using Suc upt_add_eq_append [of 0 "m * spb" spb] by (simp add: add.commute)
  qed simp
  from this [of "frame_level b" 10] show ?thesis by (simp add: uart_frame_def)
qed

lemma data_signal:
  "signal step ls st \<Longrightarrow> length ls + length ks * spb \<le> room \<Longrightarrow>
   signal step (ls @ concat (map (\<lambda>k. replicate spb (bit (b :: u8) k)) ks))
     (fold (\<lambda>k. emit_level room step (if bit b k then 1 else 0) spb) ks st)"
proof (induction ks arbitrary: ls st)
  case (Cons k ks)
  have "bit (if bit b k then 1 else 0 :: u8) 0 = bit b k" by simp
  then have "signal step (ls @ replicate spb (bit b k)) (emit_level room step (if bit b k then 1 else 0) spb st)"
    using emit_signal [OF Cons.prems(1), of spb room "if bit b k then 1 else 0"] Cons.prems(2) by simp
  from Cons.IH [OF this] Cons.prems(2) show ?case by simp
qed simp

text \<open>The test's signal for any byte, any rates of at least three samples a bit and any array with room for it
  is decoded into that byte, with the time of the start bit.\<close>

lemma test_signal_decoded:
  assumes "baud \<noteq> 0" "3 \<le> rate div baud" "spb = unat (rate div baud)" "12 * spb \<le> room" "1 \<le> m"
  shows "\<exists>samples. build_uart_samples room data rate baud = Some samples \<and> length samples = 12 * spb \<and>
    edt_decode_uart (Some samples) (length samples) (Some \<lparr>rx_channel = 0, baudrate = baud, uart_rate_hz = rate\<rparr>) m =
      [uart_event (of_nat (2 * spb) * (1000000000 div ucast rate)) data]"
proof -
  let ?step = "1000000000 div ucast rate :: u64"
  let ?cfg = "\<lparr>rx_channel = 0, baudrate = baud, uart_rate_hz = rate\<rparr>"
  have spb: "3 \<le> spb" using assms(2,3) by (simp add: word_le_nat_alt)
  define st where "st = emit_level room ?step 1 spb (fold (\<lambda>k. emit_level room ?step (if bit data k then 1 else 0) spb) [0..<8]
      (emit_level room ?step 0 spb (emit_level room ?step 1 (spb * 2) ([], 0))))"
  have build: "build_uart_samples room data rate baud = Some (fst st)"
    using assms(1,3) spb by (simp add: build_uart_samples_def st_def Let_def)
  let ?bits = "concat (map (\<lambda>k. replicate spb (bit data k)) [0..<8])"
  have bits: "length ?bits = 8 * spb" by (simp add: upt_rec)
  have "signal ?step [] ([], 0)" by (simp add: signal_def)
  from emit_signal [OF this, of "spb * 2" room 1] have "signal ?step (replicate (spb * 2) True)
      (emit_level room ?step 1 (spb * 2) ([], 0))" using assms(4) by simp
  from emit_signal [OF this, of spb room 0] have "signal ?step (replicate (spb * 2) True @ replicate spb False)
      (emit_level room ?step 0 spb (emit_level room ?step 1 (spb * 2) ([], 0)))" using assms(4) by simp
  from emit_signal [OF data_signal [OF this, of "[0..<8]" spb room data], of spb room 1] bits assms(4)
  have sig: "signal ?step (replicate (spb * 2) True @ replicate spb False @ ?bits @ replicate spb True) st"
    by (simp add: st_def)
  have frame: "uart_frame spb data = replicate spb False @ ?bits @ replicate spb True"
    unfolding frame_levels by (simp add: upt_rec frame_level_def)
  then have line: "line (rx_channel ?cfg) (fst st) = uart_line spb (2 * spb) [(data, 0)]"
    using sig by (simp add: line_def signal_def uart_line_def mult.commute)
  have len: "length (fst st) = 12 * spb" using arg_cong [OF line, of length] by (simp add: line_def uart_line_def)
  have "timestamp_ns (fst st ! (2 * spb)) = of_nat (2 * spb) * ?step"
    using sig bits spb by (simp add: signal_def)
  moreover have "edt_decode_uart (Some (fst st)) (length (fst st)) (Some ?cfg) m =
      map (\<lambda>(p, b). uart_event (timestamp_ns (fst st ! p)) b) (take m (uart_starts spb (2 * spb) [(data, 0)]))"
    by (rule uart_line_decoded [OF _ _ _ _ _ line]) (use assms spb in simp_all)
  ultimately show ?thesis using build len assms(5) by simp
qed

text \<open>Both test programs pass.\<close>

lemma unit_tests_pass: "test_uart_decoder" "test_ring_buffer ring_zero (replicate 16 0)"
proof -
  have "unat (1000000 div 9600 :: u32) = 104" by simp
  with test_signal_decoded [of 9600 1000000 104 4096 16 "0xA5"] show "test_uart_decoder"
    by (auto simp: test_uart_decoder_def uart_event_def)
  show "test_ring_buffer ring_zero (replicate 16 0)" by code_simp
qed

end
