(* ===== verification/Workbench.thy ===== *)
theory Workbench
  imports PluginManager
begin

text \<open>
  The plugins around the toolkit: the workbench window of \<open>qt_gui/debug_workbench/mainwindow.cpp\<close>, which
  loads, messages and unloads its Qt plugins, and the sample of a service plugin,
  \<open>plugins_src/sample_backend_plugin.c\<close>. What a plugin file yields and what the directory holds are
  parameters; the calls on loaders, instances and tabs are a trace. The times in the log are left out.
\<close>

section \<open>The window\<close>

text \<open>What a loader finds in a file: no instance, with the error; an object of another kind; a plugin, its
  name and whether it makes a widget.\<close>

datatype load_result = NoInstance string | OtherObject | ToolPlugin string bool

datatype wb_event =
  LoaderNew string bool | LoaderUnload string | LoaderDelete string | InstanceDelete string
| TabAdd string | TabRemove string | Message string string

record workbench =
  wb_plugins :: "string list"
  wb_log :: "string list"
  wb_trace :: "wb_event list"

definition appendLog :: "string \<Rightarrow> workbench \<Rightarrow> workbench" where
  "appendLog message wb = wb\<lparr>wb_log := wb_log wb @ [message]\<rparr>"

definition emit :: "wb_event list \<Rightarrow> workbench \<Rightarrow> workbench" where
  "emit es wb = wb\<lparr>wb_trace := wb_trace wb @ es\<rparr>"

text \<open>A file that is loaded again replaces nothing: the window is empty when the files are read. A plugin
  without a widget gets a label, so every plugin has a tab.\<close>

definition load_file :: "(string \<Rightarrow> load_result) \<Rightarrow> string \<Rightarrow> workbench \<Rightarrow> workbench" where
  "load_file lib file_name wb =
     (case lib file_name of
        NoInstance err \<Rightarrow>
          emit [LoaderNew file_name False, LoaderDelete file_name]
            (appendLog (''Load failed: '' @ file_name @ '' ('' @ err @ '')'') wb)
      | OtherObject \<Rightarrow>
          emit [LoaderNew file_name True, LoaderUnload file_name, LoaderDelete file_name]
            (appendLog (''Incompatible plugin: '' @ file_name) wb)
      | ToolPlugin name _ \<Rightarrow>
          emit [LoaderNew file_name True, TabAdd file_name]
            (appendLog (''Loaded plugin: '' @ name) (wb\<lparr>wb_plugins := wb_plugins wb @ [file_name]\<rparr>)))"

definition unload_item :: "string \<Rightarrow> wb_event list" where
  "unload_item f = [TabRemove f, InstanceDelete f, LoaderUnload f, LoaderDelete f]"

definition unloadPlugins :: "workbench \<Rightarrow> workbench" where
  "unloadPlugins wb = emit (concat (map unload_item (wb_plugins wb))) (wb\<lparr>wb_plugins := []\<rparr>)"

text \<open>\<open>listing\<close>: the files of the directory that match the filters, NULL when there is no directory.\<close>

definition loadPlugins :: "(string \<Rightarrow> load_result) \<Rightarrow> string list ptr \<Rightarrow> string \<Rightarrow> workbench \<Rightarrow> workbench" where
  "loadPlugins lib listing path wb0 =
     (let wb = unloadPlugins wb0
      in case listing of
           None \<Rightarrow> appendLog (''Plugin directory missing: '' @ path) wb
         | Some files \<Rightarrow>
             let wb' = fold (load_file lib) files wb
             in if wb_plugins wb' = [] then appendLog ''No plugins loaded.'' wb' else wb')"

definition reloadPlugins :: "(string \<Rightarrow> load_result) \<Rightarrow> string list ptr \<Rightarrow> string \<Rightarrow> workbench \<Rightarrow> workbench" where
  "reloadPlugins lib listing path wb = loadPlugins lib listing path (appendLog ''Reloading plugins...'' wb)"

definition emitHeartbeat :: "string \<Rightarrow> workbench \<Rightarrow> workbench" where
  "emitHeartbeat now wb = emit (map (\<lambda>f. Message f (''heartbeat '' @ now)) (wb_plugins wb)) wb"

text \<open>A life of the window: what its timer and its button do between the first load and its end.\<close>

datatype wb_call = Reload "string \<Rightarrow> load_result" "string list ptr" | Beat string

fun wb_run :: "string \<Rightarrow> wb_call list \<Rightarrow> workbench \<Rightarrow> workbench" where
  "wb_run path [] wb = wb"
| "wb_run path (Reload lib listing # cs) wb = wb_run path cs (reloadPlugins lib listing path wb)"
| "wb_run path (Beat now # cs) wb = wb_run path cs (emitHeartbeat now wb)"

definition wb_life :: "(string \<Rightarrow> load_result) \<Rightarrow> string list ptr \<Rightarrow> string \<Rightarrow> wb_call list \<Rightarrow> workbench" where
  "wb_life lib listing path cs =
     unloadPlugins (wb_run path cs (loadPlugins lib listing path \<lparr>wb_plugins = [], wb_log = [], wb_trace = []\<rparr>))"

section \<open>Plugins are used while they are loaded\<close>

text \<open>Reading a trace with the loaders, the instances and the tabs there are; \<open>None\<close>: a call on one that
  is not there, or an object deleted while another still uses it.\<close>

type_synonym wb_objects = "string set \<times> string set \<times> string set"

fun wb_accept :: "wb_event list \<Rightarrow> wb_objects \<Rightarrow> wb_objects option" where
  "wb_accept [] st = Some st"
| "wb_accept (e # es) (L, I, T) =
     (case e of
        LoaderNew f made \<Rightarrow> if f \<in> L then None else wb_accept es (insert f L, if made then insert f I else I, T)
      | TabAdd f \<Rightarrow> if f \<in> I then wb_accept es (L, I, insert f T) else None
      | Message f _ \<Rightarrow> if f \<in> I then wb_accept es (L, I, T) else None
      | TabRemove f \<Rightarrow> if f \<in> T then wb_accept es (L, I, T - {f}) else None
      | InstanceDelete f \<Rightarrow> if f \<in> I \<and> f \<notin> T then wb_accept es (L, I - {f}, T) else None
      | LoaderUnload f \<Rightarrow> if f \<in> L \<and> f \<notin> T then wb_accept es (L, I - {f}, T) else None
      | LoaderDelete f \<Rightarrow> if f \<in> L \<and> f \<notin> I then wb_accept es (L - {f}, I, T) else None)"

lemma wb_accept_append:
  "wb_accept (xs @ ys) st = (case wb_accept xs st of None \<Rightarrow> None | Some st' \<Rightarrow> wb_accept ys st')"
proof (induction xs arbitrary: st)
  case (Cons x xs)
  then show ?case by (cases st) (simp split: wb_event.split)
qed simp

text \<open>Exactly the files of the window's list are loaded, each with its instance and its tab.\<close>

definition wb_ok :: "workbench \<Rightarrow> bool" where
  "wb_ok wb \<longleftrightarrow> distinct (wb_plugins wb) \<and>
     wb_accept (wb_trace wb) ({}, {}, {}) = Some (set (wb_plugins wb), set (wb_plugins wb), set (wb_plugins wb))"

lemma accept_item: "f \<in> S \<Longrightarrow> wb_accept (unload_item f) (S, S, S) = Some (S - {f}, S - {f}, S - {f})"
  by (simp add: unload_item_def)

lemma accept_unload:
  "distinct fs \<Longrightarrow> set fs \<subseteq> S \<Longrightarrow>
   wb_accept (concat (map unload_item fs)) (S, S, S) = Some (S - set fs, S - set fs, S - set fs)"
proof (induction fs arbitrary: S)
  case (Cons f fs)
  have f: "f \<in> S" "set fs \<subseteq> S - {f}" "distinct fs" using Cons.prems by auto
  have "wb_accept (concat (map unload_item (f # fs))) (S, S, S) = wb_accept (concat (map unload_item fs)) (S - {f}, S - {f}, S - {f})"
    by (simp add: wb_accept_append accept_item [OF f(1)])
  also have "\<dots> = Some (S - set (f # fs), S - set (f # fs), S - set (f # fs))"
    unfolding Cons.IH [OF f(3,2)] by (simp add: Diff_insert2 [symmetric])
  finally show ?case .
qed simp

lemma unload_ok: "wb_ok wb \<Longrightarrow> wb_ok (unloadPlugins wb) \<and> wb_plugins (unloadPlugins wb) = []"
  using accept_unload [of "wb_plugins wb" "set (wb_plugins wb)"]
  by (simp add: wb_ok_def unloadPlugins_def emit_def wb_accept_append)

lemma load_file_ok:
  assumes "wb_ok wb" "f \<notin> set (wb_plugins wb)"
  shows "wb_ok (load_file lib f wb) \<and> set (wb_plugins (load_file lib f wb)) \<subseteq> insert f (set (wb_plugins wb))"
  using assms
  by (auto simp: wb_ok_def load_file_def emit_def appendLog_def wb_accept_append insert_commute split: load_result.split)

lemma load_files_ok:
  "wb_ok wb \<Longrightarrow> distinct fs \<Longrightarrow> set fs \<inter> set (wb_plugins wb) = {} \<Longrightarrow> wb_ok (fold (load_file lib) fs wb)"
proof (induction fs arbitrary: wb)
  case (Cons f fs)
  have "wb_ok (load_file lib f wb)" "set (wb_plugins (load_file lib f wb)) \<subseteq> insert f (set (wb_plugins wb))"
    using load_file_ok [of wb f lib] Cons.prems by auto
  with Cons show ?case by auto
qed simp

lemma log_ok [simp]: "wb_ok (appendLog m wb) = wb_ok wb"
  by (simp add: wb_ok_def appendLog_def)

definition listing_ok :: "string list ptr \<Rightarrow> bool" where
  "listing_ok listing = (case listing of None \<Rightarrow> True | Some fs \<Rightarrow> distinct fs)"

lemma load_ok: "wb_ok wb \<Longrightarrow> listing_ok listing \<Longrightarrow> wb_ok (loadPlugins lib listing path wb)"
  using unload_ok [of wb] load_files_ok [of "unloadPlugins wb"]
  by (auto simp: loadPlugins_def listing_ok_def Let_def split: option.split)

lemma beat_accept: "set fs \<subseteq> I \<Longrightarrow> wb_accept (map (\<lambda>f. Message f m) fs) (L, I, T) = Some (L, I, T)"
  by (induction fs) simp_all

lemma beat_ok: "wb_ok wb \<Longrightarrow> wb_ok (emitHeartbeat now wb)"
  by (simp add: wb_ok_def emitHeartbeat_def emit_def wb_accept_append beat_accept)

definition wb_call_ok :: "wb_call \<Rightarrow> bool" where
  "wb_call_ok c = (case c of Reload _ listing \<Rightarrow> listing_ok listing | Beat _ \<Rightarrow> True)"

lemma wb_run_ok: "wb_ok wb \<Longrightarrow> list_all wb_call_ok cs \<Longrightarrow> wb_ok (wb_run path cs wb)"
  by (induction path cs wb rule: wb_run.induct) (simp_all add: wb_call_ok_def reloadPlugins_def load_ok beat_ok)

lemma window_ok:
  "listing_ok listing \<Longrightarrow> list_all wb_call_ok cs \<Longrightarrow>
   wb_ok (wb_run path cs (loadPlugins lib listing path \<lparr>wb_plugins = [], wb_log = [], wb_trace = []\<rparr>))"
  by (intro wb_run_ok load_ok) (simp_all add: wb_ok_def)

text \<open>C39. Whatever the directory holds at each load and whatever each file yields: a plugin gets messages
  only while it is loaded, its tab goes before its instance and its instance before its library, and
  when the window is gone every loader, instance and tab is.\<close>

theorem workbench_leaves_nothing:
  assumes "listing_ok listing" and "list_all wb_call_ok cs"
  shows "wb_accept (wb_trace (wb_life lib listing path cs)) ({}, {}, {}) = Some ({}, {}, {})"
  using unload_ok [OF window_ok [OF assms]] by (auto simp: wb_ok_def wb_life_def)

theorem workbench_leaves_nothing_witness:
  "let lib = (\<lambda>f. if f = ''a.so'' then ToolPlugin ''A'' True else if f = ''b.so'' then OtherObject else NoInstance ''bad'');
       t = wb_trace (wb_life lib (Some [''a.so'', ''b.so'', ''c.so'']) ''p'' [Beat ''10:00:00'', Reload lib NULL])
   in wb_accept t ({}, {}, {}) = Some ({}, {}, {}) \<and> Message ''a.so'' ''heartbeat 10:00:00'' \<in> set t"
proof -
  define lib where "lib = (\<lambda>f. if f = ''a.so'' then ToolPlugin ''A'' True else if f = ''b.so'' then OtherObject
    else NoInstance ''bad'')"
  let ?l = "Some [''a.so'', ''b.so'', ''c.so'']" and ?cs = "[Beat ''10:00:00'', Reload lib NULL]"
  have "Message ''a.so'' ''heartbeat 10:00:00'' \<in> set (wb_trace (wb_life lib ?l ''p'' ?cs))"
    by (simp add: wb_life_def loadPlugins_def unloadPlugins_def emit_def load_file_def lib_def appendLog_def
        emitHeartbeat_def reloadPlugins_def unload_item_def Let_def)
  moreover have "listing_ok ?l" "list_all wb_call_ok ?cs" by (simp_all add: listing_ok_def wb_call_ok_def)
  note workbench_leaves_nothing [OF this, of lib "''p''"]
  ultimately show ?thesis by (simp add: Let_def lib_def)
qed

section \<open>The sample plugin\<close>

text \<open>Its state, the ticks since it was loaded, and the lines it prints. At two ticks a second its counter
  is 34 years away from overflow.\<close>

definition sample_on_load :: "nat \<Rightarrow> nat \<times> string list" where
  "sample_on_load g_tick_count = (0, [''[sample_backend_plugin] loaded''])"

definition sample_on_tick :: "nat \<Rightarrow> nat \<times> string list" where
  "sample_on_tick g_tick_count =
     (let n = Suc g_tick_count
      in (n, if n mod 8 = 0 then [''[sample_backend_plugin] tick='' @ dec_string n] else []))"

definition sample_on_unload :: "string list" where
  "sample_on_unload = [''[sample_backend_plugin] unloaded'']"

definition sample_api :: plugin_api where
  "sample_api = \<lparr>api_name = Some ''sample_backend_plugin'', api_on_load = Some 0, api_on_tick = True, api_on_unload = True\<rparr>"

fun sample_ticks :: "nat \<Rightarrow> nat \<Rightarrow> nat \<times> string list" where
  "sample_ticks 0 g = (g, [])"
| "sample_ticks (Suc k) g =
     (case sample_on_tick g of (g1, out) \<Rightarrow> (case sample_ticks k g1 of (g2, out') \<Rightarrow> (g2, out @ out')))"

text \<open>It prints once in eight ticks.\<close>

lemma sample_prints: "sample_ticks k g = (g', out) \<Longrightarrow> g' = g + k \<and> length out = g' div 8 - g div 8"
proof (induction k arbitrary: g out)
  case (Suc k)
  obtain out1 where o: "sample_ticks k (Suc g) = (g', out1)"
    and out: "out = (if Suc g mod 8 = 0 then [''[sample_backend_plugin] tick='' @ dec_string (Suc g)] else []) @ out1"
    using Suc.prems by (auto simp: sample_on_tick_def Let_def split: prod.splits)
  have "g' = Suc g + k" "length out1 = g' div 8 - Suc g div 8" using Suc.IH [OF o] by auto
  moreover have "Suc g div 8 \<le> g' div 8" using calculation(1) by (simp add: div_le_mono)
  ultimately show ?case using out by (auto simp: div_Suc split: if_splits)
qed simp

end
