(* ===== verification/QtPlugins.thy ===== *)
theory QtPlugins
  imports Workbench
begin

text \<open>
  The three plugins of the workbench, \<open>qt_gui/plugins\<close>: what their tabs show, what their buttons, their
  timer and the window's messages do to it, and the plugins inside the window. The state of a plugin is
  the text of its widgets; the layout is left out. A pointer to a widget is NULL until the tab is made.
\<close>

section \<open>The logic analyzer's tab\<close>

record logic_tab =
  lt_status :: "string ptr"

definition logic_new :: logic_tab where
  "logic_new = \<lparr>lt_status = NULL\<rparr>"

definition logic_createWidget :: "logic_tab \<Rightarrow> logic_tab" where
  "logic_createWidget v = v\<lparr>lt_status := Some ''Status: idle''\<rparr>"

definition set_status :: "string \<Rightarrow> logic_tab \<Rightarrow> logic_tab" where
  "set_status text v = (if lt_status v \<noteq> NULL then v\<lparr>lt_status := Some text\<rparr> else v)"

definition logic_arm :: "logic_tab \<Rightarrow> logic_tab" where
  "logic_arm = set_status ''Status: armed (waiting for trigger)''"

definition logic_pulseView :: "logic_tab \<Rightarrow> logic_tab" where
  "logic_pulseView = set_status ''PulseView: connect to tcp://<board-ip>:9527 with SUMP driver''"

definition logic_onMessage :: "string \<Rightarrow> logic_tab \<Rightarrow> logic_tab" where
  "logic_onMessage message = set_status (''Status: '' @ message)"

section \<open>The capture tools' tab\<close>

record capture_tab =
  ct_log :: "string list ptr"

definition capture_new :: capture_tab where
  "capture_new = \<lparr>ct_log = NULL\<rparr>"

definition append_line :: "string \<Rightarrow> capture_tab \<Rightarrow> capture_tab" where
  "append_line text v = v\<lparr>ct_log := map_option (\<lambda>log. log @ [text]) (ct_log v)\<rparr>"

definition capture_createWidget :: "capture_tab \<Rightarrow> capture_tab" where
  "capture_createWidget v = append_line ''Capture tools ready.'' (v\<lparr>ct_log := Some []\<rparr>)"

definition capture_v4l2 :: "capture_tab \<Rightarrow> capture_tab" where
  "capture_v4l2 = append_line ''V4L2 probe requested: /dev/video0''"

definition capture_net :: "capture_tab \<Rightarrow> capture_tab" where
  "capture_net = append_line ''Network capture requested on eth0''"

definition capture_sys :: "capture_tab \<Rightarrow> capture_tab" where
  "capture_sys = append_line ''System snapshot requested.''"

text \<open>\<open>ts\<close>: the time of day as text.\<close>

definition capture_onMessage :: "string \<Rightarrow> string \<Rightarrow> capture_tab \<Rightarrow> capture_tab" where
  "capture_onMessage ts message = append_line (''['' @ ts @ ''] '' @ message)"

section \<open>The system monitor's tab\<close>

text \<open>A bar of the range from 0 to 100 with its value, None before the first; a value outside has no effect.\<close>

record system_tab =
  st_cpuBar :: "int option ptr"
  st_memBar :: "int option ptr"
  st_netLabel :: "string ptr"
  st_msgLabel :: "string ptr"
  st_timer :: bool
  st_tick :: int

definition system_new :: system_tab where
  "system_new = \<lparr>st_cpuBar = NULL, st_memBar = NULL, st_netLabel = NULL, st_msgLabel = NULL, st_timer = False, st_tick = 0\<rparr>"

definition setValue :: "int \<Rightarrow> int option \<Rightarrow> int option" where
  "setValue v old = (if 0 \<le> v \<and> v \<le> 100 then Some v else old)"

definition system_createWidget :: "system_tab \<Rightarrow> system_tab" where
  "system_createWidget v =
     v\<lparr>st_cpuBar := Some None, st_memBar := Some None, st_netLabel := Some ''Network: rx=0 tx=0'',
       st_msgLabel := Some ''Waiting heartbeat...'', st_timer := True\<rparr>"

definition system_onMessage :: "string \<Rightarrow> system_tab \<Rightarrow> system_tab" where
  "system_onMessage message v = (if st_msgLabel v \<noteq> NULL then v\<lparr>st_msgLabel := Some message\<rparr> else v)"

text \<open>C's remainder has the sign of the dividend.\<close>

definition c_rem :: "int \<Rightarrow> int \<Rightarrow> int" where
  "c_rem a b = a - b * c_div a b"

text \<open>None: an \<open>int\<close> overflows, which C leaves undefined.\<close>

definition refreshDemoStats :: "system_tab \<Rightarrow> system_tab option" where
  "refreshDemoStats v =
     (let tick = st_tick v + 1; v1 = v\<lparr>st_tick := tick\<rparr>
      in if c_int tick \<noteq> tick then None
         else case (st_cpuBar v, st_memBar v, st_netLabel v) of
           (Some cpu, Some mem, Some _) \<Rightarrow>
             if c_int (tick * 13) \<noteq> tick * 13 then None
             else Some (v1\<lparr>st_cpuBar := Some (setValue (c_rem (tick * 13) 100) cpu),
                          st_memBar := Some (setValue (40 + c_rem (tick * 7) 50) mem),
                          st_netLabel := Some (''Network: rx='' @ int_string (100 + tick * 3) @ ''KB tx='' @
                            int_string (80 + tick * 2) @ ''KB'')\<rparr>)
         | _ \<Rightarrow> Some v1)"

text \<open>The bars after \<open>n\<close> timeouts: periodic, and inside their range. The products stay an \<open>int\<close> for more
  than 165 million timeouts, over four years at 800 ms.\<close>

fun refreshes :: "nat \<Rightarrow> system_tab \<Rightarrow> system_tab option" where
  "refreshes 0 v = Some v"
| "refreshes (Suc n) v = (case refreshes n v of None \<Rightarrow> None | Some v' \<Rightarrow> refreshDemoStats v')"

lemma c_rem_pos: "0 \<le> a \<Longrightarrow> 0 < b \<Longrightarrow> c_rem a b = a mod b"
  by (simp add: c_rem_def c_div_def minus_mult_div_eq_mod)

lemma refreshes_values:
  assumes "n < 165191050"
  shows "\<exists>v. refreshes n (system_createWidget system_new) = Some v \<and> st_tick v = int n \<and> st_netLabel v \<noteq> NULL \<and>
    st_cpuBar v = Some (if n = 0 then None else Some (int n * 13 mod 100)) \<and>
    st_memBar v = Some (if n = 0 then None else Some (40 + int n * 7 mod 50))"
  using assms
proof (induction n)
  case (Suc n)
  then obtain v where v: "refreshes n (system_createWidget system_new) = Some v" "st_tick v = int n" "st_netLabel v \<noteq> NULL"
      "\<exists>cpu mem. st_cpuBar v = Some cpu \<and> st_memBar v = Some mem" by auto
  have "int (Suc n) * 13 mod 100 \<in> {0..99}" "int (Suc n) * 7 mod 50 \<in> {0..49}" by simp_all
  moreover have "c_int (int n + 1) = int n + 1" "c_int ((int n + 1) * 13) = (int n + 1) * 13"
    using Suc.prems by (intro c_int_id; simp)+
  ultimately show ?case
    using v by (auto simp: refreshDemoStats_def c_rem_pos setValue_def Let_def algebra_simps)
qed (simp add: system_new_def system_createWidget_def)

section \<open>The contract of a plugin\<close>

text \<open>A tab is made by \<open>create\<close>; a message has no effect before, and afterwards the tab shows the last one.\<close>

locale tool_plugin =
  fixes fresh :: "'v" and create :: "'v \<Rightarrow> 'v" and message :: "string \<Rightarrow> 'v \<Rightarrow> 'v"
    and made :: "'v \<Rightarrow> bool" and shows_msg :: "'v \<Rightarrow> string \<Rightarrow> bool"
  assumes made_fresh: "\<not> made fresh" and made_create: "made (create v)"
    and message_early: "\<not> made v \<Longrightarrow> message m v = v"
    and message_made: "made v \<Longrightarrow> made (message m v)" and message_shown: "made v \<Longrightarrow> shows_msg (message m v) m"
begin

lemma early_messages: "fold message ms fresh = fresh"
  by (induction ms) (simp_all add: message_early made_fresh)

lemma messages_made: "made v \<Longrightarrow> made (fold message ms v)"
  by (induction ms arbitrary: v) (simp_all add: message_made)

lemma last_message_shown: "ms \<noteq> [] \<Longrightarrow> shows_msg (fold message ms (create (fold message early fresh))) (last ms)"
proof (induction ms rule: rev_induct)
  case (snoc m ms)
  have "made (fold message ms (create (fold message early fresh)))" by (rule messages_made [OF made_create])
  then show ?case by (simp add: message_shown)
qed simp

end

definition capture_shows :: "string \<Rightarrow> capture_tab \<Rightarrow> string \<Rightarrow> bool" where
  "capture_shows ts v m =
     (case ct_log v of None \<Rightarrow> False | Some log \<Rightarrow> log \<noteq> [] \<and> last log = ''['' @ ts @ ''] '' @ m)"

interpretation logic_plugin: tool_plugin logic_new logic_createWidget logic_onMessage "\<lambda>v. lt_status v \<noteq> NULL"
    "\<lambda>v m. lt_status v = Some (''Status: '' @ m)"
  by unfold_locales (simp_all add: logic_new_def logic_createWidget_def logic_onMessage_def set_status_def)

interpretation capture_plugin: tool_plugin capture_new capture_createWidget "capture_onMessage ts"
    "\<lambda>v. ct_log v \<noteq> NULL" "capture_shows ts" for ts
  by unfold_locales (auto simp: capture_new_def capture_createWidget_def capture_onMessage_def append_line_def capture_shows_def)

interpretation system_plugin: tool_plugin system_new system_createWidget system_onMessage "\<lambda>v. st_msgLabel v \<noteq> NULL"
    "\<lambda>v m. st_msgLabel v = Some m"
  by unfold_locales (simp_all add: system_new_def system_createWidget_def system_onMessage_def)

section \<open>The plugins inside the window\<close>

datatype tool_kind = LogicTool | CaptureTool | SystemTool

datatype tool_view = LogicView logic_tab | CaptureView capture_tab | SystemView system_tab

definition new_view :: "tool_kind \<Rightarrow> tool_view" where
  "new_view k = (case k of LogicTool \<Rightarrow> LogicView logic_new | CaptureTool \<Rightarrow> CaptureView capture_new
                 | SystemTool \<Rightarrow> SystemView system_new)"

definition make_tab :: "tool_view \<Rightarrow> tool_view" where
  "make_tab v = (case v of LogicView l \<Rightarrow> LogicView (logic_createWidget l)
     | CaptureView c \<Rightarrow> CaptureView (capture_createWidget c) | SystemView s \<Rightarrow> SystemView (system_createWidget s))"

definition take_message :: "string \<Rightarrow> string \<Rightarrow> tool_view \<Rightarrow> tool_view" where
  "take_message ts m v = (case v of LogicView l \<Rightarrow> LogicView (logic_onMessage m l)
     | CaptureView c \<Rightarrow> CaptureView (capture_onMessage ts m c) | SystemView s \<Rightarrow> SystemView (system_onMessage m s))"

definition view_made :: "tool_view \<Rightarrow> bool" where
  "view_made v = (case v of LogicView l \<Rightarrow> lt_status l \<noteq> NULL | CaptureView c \<Rightarrow> ct_log c \<noteq> NULL
     | SystemView s \<Rightarrow> st_msgLabel s \<noteq> NULL)"

definition view_shows :: "string \<Rightarrow> tool_view \<Rightarrow> string \<Rightarrow> bool" where
  "view_shows ts v m = (case v of LogicView l \<Rightarrow> lt_status l = Some (''Status: '' @ m)
     | CaptureView c \<Rightarrow> capture_shows ts c m | SystemView s \<Rightarrow> st_msgLabel s = Some m)"

text \<open>A plugin of any of the three kinds keeps the contract.\<close>

interpretation any_plugin: tool_plugin "new_view k" make_tab "take_message ts" view_made "view_shows ts" for k ts
  by unfold_locales
    (auto simp: new_view_def make_tab_def take_message_def view_made_def view_shows_def
        logic_plugin.made_fresh [simplified] capture_plugin.made_fresh [simplified] system_plugin.made_fresh [simplified]
        logic_plugin.made_create [simplified] capture_plugin.made_create [simplified] system_plugin.made_create [simplified]
        logic_plugin.message_early capture_plugin.message_early system_plugin.message_early
        logic_plugin.message_made [simplified] capture_plugin.message_made [simplified] system_plugin.message_made [simplified]
        logic_plugin.message_shown capture_plugin.message_shown system_plugin.message_shown
        split: tool_view.splits tool_kind.splits)

text \<open>What the calls of the window do to the instances; \<open>kinds\<close>: the plugin a file holds, \<open>ts\<close> the time of
  the messages. The tab of a plugin is made right before it is added.\<close>

definition tab_event :: "(string \<Rightarrow> tool_kind) \<Rightarrow> string \<Rightarrow> wb_event \<Rightarrow> (string \<rightharpoonup> tool_view) \<Rightarrow> (string \<rightharpoonup> tool_view)" where
  "tab_event kinds ts e views =
     (case e of
        LoaderNew f made \<Rightarrow> if made then views(f \<mapsto> new_view (kinds f)) else views
      | TabAdd f \<Rightarrow> views(f := map_option make_tab (views f))
      | Message f m \<Rightarrow> views(f := map_option (take_message ts m) (views f))
      | InstanceDelete f \<Rightarrow> views(f := None)
      | LoaderUnload f \<Rightarrow> views(f := None)
      | _ \<Rightarrow> views)"

text \<open>The instances are those of the accepted trace, and those with a tab are made.\<close>

definition tabs_match :: "wb_objects \<Rightarrow> (string \<rightharpoonup> tool_view) \<Rightarrow> bool" where
  "tabs_match st views = (case st of (L, I, T) \<Rightarrow>
     dom views = I \<and> T \<subseteq> I \<and> I \<subseteq> L \<and> (\<forall>f \<in> T. view_made (the (views f))))"

lemma tab_event_match:
  assumes "wb_accept [e] st = Some st'" "tabs_match st views"
  shows "tabs_match st' (tab_event kinds ts e views)"
proof -
  obtain L I T where st: "st = (L, I, T)" by (metis prod_cases3)
  show ?thesis
    using assms any_plugin.made_create any_plugin.message_made unfolding st
    by (cases e) (auto simp: tabs_match_def tab_event_def subset_iff split: if_splits)
qed

lemma trace_match:
  "wb_accept es st = Some st' \<Longrightarrow> tabs_match st views \<Longrightarrow> tabs_match st' (fold (tab_event kinds ts) es views)"
proof (induction es arbitrary: st views)
  case (Cons e es)
  have "wb_accept (e # es) st = (case wb_accept [e] st of None \<Rightarrow> None | Some st1 \<Rightarrow> wb_accept es st1)"
    using wb_accept_append [of "[e]" es st] by simp
  then obtain st1 where "wb_accept [e] st = Some st1" "wb_accept es st1 = Some st'"
    using Cons.prems(1) by (auto split: option.splits)
  then show ?case using Cons.IH tab_event_match Cons.prems(2) by simp
qed simp

lemma messages_delivered:
  "distinct fs \<Longrightarrow> f \<in> set fs \<Longrightarrow>
   fold (tab_event kinds ts) (map (\<lambda>f. Message f m) fs) views f = map_option (take_message ts m) (views f)"
proof -
  have other: "f \<notin> set gs \<Longrightarrow> fold (tab_event kinds ts) (map (\<lambda>f. Message f m) gs) views f = views f" for gs views
    by (induction gs arbitrary: views) (simp_all add: tab_event_def)
  show "distinct fs \<Longrightarrow> f \<in> set fs \<Longrightarrow> ?thesis"
    by (induction fs arbitrary: views) (auto simp: tab_event_def other)
qed

text \<open>C40. Whatever was loaded, reloaded and sent before, a heartbeat of the window reaches every plugin that
  is loaded: its tab exists and shows the heartbeat, and no other plugin has an instance.\<close>

theorem heartbeat_shown:
  assumes "listing_ok listing" and "list_all wb_call_ok cs"
    and "wb = wb_run path cs (loadPlugins lib listing path \<lparr>wb_plugins = [], wb_log = [], wb_trace = []\<rparr>)"
    and "views = fold (tab_event kinds ts) (wb_trace (emitHeartbeat now wb)) Map.empty"
  shows "dom views = set (wb_plugins wb) \<and>
    (\<forall>f \<in> set (wb_plugins wb). view_shows ts (the (views f)) (''heartbeat '' @ now))"
proof -
  let ?before = "fold (tab_event kinds ts) (wb_trace wb) Map.empty" and ?S = "set (wb_plugins wb)"
  have ok: "wb_ok wb" "wb_ok (emitHeartbeat now wb)" using window_ok [OF assms(1,2)] beat_ok unfolding assms(3) by blast+
  have plugins: "wb_plugins (emitHeartbeat now wb) = wb_plugins wb" by (simp add: emitHeartbeat_def emit_def)
  have empty: "tabs_match ({}, {}, {}) Map.empty" by (simp add: tabs_match_def)
  have m: "tabs_match (?S, ?S, ?S) ?before" "tabs_match (?S, ?S, ?S) views"
    using ok trace_match [OF _ empty] unfolding assms(4) wb_ok_def plugins by blast+
  have "view_shows ts (the (views f)) (''heartbeat '' @ now)" if f: "f \<in> ?S" for f
  proof -
    obtain v where v: "?before f = Some v" "view_made v" using m(1) f by (fastforce simp: tabs_match_def)
    have "views f = Some (take_message ts (''heartbeat '' @ now) v)"
      using messages_delivered [OF _ f] ok(1) v(1) by (simp add: assms(4) emitHeartbeat_def emit_def wb_ok_def)
    with any_plugin.message_shown [OF v(2)] show ?thesis by simp
  qed
  with m(2) show ?thesis by (simp add: tabs_match_def)
qed

section \<open>An instance\<close>

definition tool_files :: "string \<Rightarrow> load_result" where
  "tool_files f = (if f = ''a.so'' then ToolPlugin ''Logic Analyzer'' True
     else if f = ''b.so'' then ToolPlugin ''Capture Tools'' True else NoInstance ''bad'')"

definition tool_kinds :: "string \<Rightarrow> tool_kind" where
  "tool_kinds f = (if f = ''a.so'' then LogicTool else CaptureTool)"

theorem heartbeat_shown_witness:
  "\<exists>views. dom views = {''a.so'', ''b.so''} \<and> view_shows ''10:00'' (the (views ''a.so'')) ''heartbeat 10:00'' \<and>
     view_shows ''10:00'' (the (views ''b.so'')) ''heartbeat 10:00''"
proof -
  let ?l = "Some [''a.so'', ''b.so'', ''c.so'']" and ?cs = "[Beat ''09:59'', Reload tool_files (Some [''b.so'', ''a.so''])]"
  let ?wb = "wb_run ''p'' ?cs (loadPlugins tool_files ?l ''p'' \<lparr>wb_plugins = [], wb_log = [], wb_trace = []\<rparr>)"
  have "wb_plugins ?wb = [''b.so'', ''a.so'']"
    by (simp add: loadPlugins_def unloadPlugins_def emit_def load_file_def tool_files_def appendLog_def
        emitHeartbeat_def reloadPlugins_def unload_item_def Let_def)
  moreover have "listing_ok ?l" "list_all wb_call_ok ?cs" by (simp_all add: listing_ok_def wb_call_ok_def)
  note heartbeat_shown [OF this refl refl, where lib = tool_files and path = "''p''" and kinds = tool_kinds and ts = "''10:00''" and now = "''10:00''"]
  ultimately show ?thesis by auto
qed

end
