(* ===== verification/HubSafety.thy ===== *)
theory HubSafety
  imports HubMain
begin

text \<open>
  What every start, life and end of the hub leaves behind, over the whole process: descriptors, mappings,
  the memory of the pool, children and the client library. The lemmas follow the parts of the start, the
  events and the parts of the end; the property is their composition.
\<close>

section \<open>The pool keeps its memory\<close>

text \<open>A pool of \<open>n\<close> blocks, each with its memory.\<close>

definition pool_full :: "nat \<Rightarrow> mem_pool \<Rightarrow> bool" where
  "pool_full n p \<longleftrightarrow> mp_blocks p \<noteq> NULL \<and> mp_block_count p = int n \<and> length (pool_blocks p) = n \<and>
     (\<forall>b \<in> set (pool_blocks p). mb_data b \<noteq> NULL)"

lemma blocks_present: "mp_blocks (update_block i f p) = NULL \<longleftrightarrow> mp_blocks p = NULL"
  by (auto simp: update_block_def pool_blocks_def split: option.splits)

lemma full_update:
  "pool_full n p \<Longrightarrow> (\<And>b. mb_data b \<noteq> NULL \<Longrightarrow> mb_data (f b) \<noteq> NULL) \<Longrightarrow> pool_full n (update_block i f p)"
  by (auto simp: pool_full_def blocks_present set_conv_nth nth_list_update)

lemma full_take: "pool_full n p \<Longrightarrow> pool_full n (take_block i p)"
  unfolding take_block_def by (rule full_update) simp_all

lemma full_release: "pool_full n p \<Longrightarrow> pool_full n (pool_release i p)"
  unfolding pool_release_def hub_mem_pool_release_def release_sub_def release_store_def
  by (auto simp: set_refs_def intro!: full_update)

lemma full_sweep: "pool_full n p \<Longrightarrow> pool_full n (fold pool_release xs p)"
  by (induction xs arbitrary: p) (simp_all add: full_release)

lemma full_push: "pool_full n p \<Longrightarrow> queue_push b priv p = (priv', p') \<Longrightarrow> pool_full n p'"
  by (auto simp: queue_push_def full_release split: prod.splits option.splits)

lemma full_frame: "pool_full n p \<Longrightarrow> queue_frame k d now i priv p = (priv', p') \<Longrightarrow> pool_full n p'"
  unfolding queue_frame_def Let_def
  by (erule full_push [rotated], rule full_update) (simp_all add: fill_block_def)

lemma full_ok: "pool_full n p \<Longrightarrow> pool_ok p"
  by (simp add: pool_full_def pool_ok_def)

lemma full_capture:
  assumes "pool_full n p" "quiet (CaptureStep t)" "capture_thread_turn t priv p = Some (priv', p')"
  shows "pool_full n p'"
proof -
  have acq: "pool_full n (the pp)" if "hub_mem_pool_acquire (ct_wakes t) (Some p) ms = Some (r, pp)" for ms r pp
    using acquire_quiet [OF full_ok [OF assms(1)] _ that] assms(1,2) full_take
    by (auto simp: quiet_def split: option.splits)
  show ?thesis
    using assms(1,3) acq
    by (auto simp: capture_thread_turn_def camera_frame_turn_def synthetic_turn_def Let_def
        split: if_splits option.splits prod.splits intro: full_frame)
qed

lemma full_step: "pool_full n (vs_pool s) \<Longrightarrow> quiet st \<Longrightarrow> pool_full n (vs_pool (apply_step dflt st s))"
  by (cases st) (auto simp: Let_def full_release split: option.splits prod.splits intro: full_capture)

lemma full_destroy:
  "pool_full n p \<Longrightarrow> fst (hub_mem_pool_destroy heap (Some p)) = heap - int n - 1"
proof -
  assume f: "pool_full n p"
  have "sum_list (map free_data bs) = int (length bs)" if "\<forall>b \<in> set bs. mb_data b \<noteq> NULL" for bs
    using that by (induction bs) (auto simp: free_data_def)
  with f show ?thesis by (auto simp: hub_mem_pool_destroy_def pool_full_def split: option.split)
qed

section \<open>The pipeline inside the hub\<close>

lemma capture_turns_steps:
  "capture_turns ts priv pool =
     (let s = fold (apply_step dflt) (map CaptureStep ts) \<lparr>vs_priv = priv, vs_pool = pool, vs_hand = None, vs_shown = []\<rparr>
      in (vs_priv s, vs_pool s))"
proof (induction ts arbitrary: priv pool)
  case (Cons t ts)
  then show ?case by (auto simp: Let_def split: option.split)
qed simp

text \<open>The descriptor and the mappings the pipeline holds.\<close>

definition cam_fds :: "video_pipeline \<Rightarrow> fd_table" where
  "cam_fds pl = (case pl_priv pl of None \<Rightarrow> [] | Some p \<Rightarrow> if v4_fd p < 0 then [] else [v4_fd p])"

definition cam_maps :: "video_pipeline \<Rightarrow> int" where
  "cam_maps pl = (case pl_priv pl of
     None \<Rightarrow> 0
   | Some p \<Rightarrow> if v4_fd p < 0 then 0 else int (length (filter is_mapped (take (v4_buf_count p) (v4_bufs p)))))"

lemma close_effect:
  assumes "pl_priv pl = Some p"
  shows "fst (close_v4l2 cp (p\<lparr>vq_queue := q\<rparr>)) =
    \<lparr>cp_fds = fold fd_close (cam_fds pl) (cp_fds cp), cp_maps = cp_maps cp - cam_maps pl\<rparr>"
  using assms by (simp add: close_v4l2_def cam_fds_def cam_maps_def Let_def)

lemma open_fds_exact:
  "open_v4l2 env cp p0 = (r, cp1, p1) \<Longrightarrow>
   v4_fd p1 < 0 \<and> cp_fds cp1 = cp_fds cp \<or>
   v4_fd p1 = fd_new (cp_fds cp) \<and> cp_fds cp1 = fd_new (cp_fds cp) # cp_fds cp"
proof -
  let ?fd = "fd_new (cp_fds cp)"
  have fd: "(?fd < 0) = False" using fd_new_free(2) [of "cp_fds cp"] by (simp add: not_less)
  assume "open_v4l2 env cp p0 = (r, cp1, p1)"
  then show ?thesis
    using fd by (auto simp: open_v4l2_def close_v4l2_def Let_def split: if_splits option.splits prod.splits)
qed

lemma stop_effect:
  assumes "pl_priv pl = Some p" "pool_counts (mset (queued p)) pool" "pool_full n pool"
    and "hub_video_pipeline_stop cp (Some pl) pool = (cp', plp, pool')"
  shows "cp' = \<lparr>cp_fds = fold fd_close (cam_fds pl) (cp_fds cp), cp_maps = cp_maps cp - cam_maps pl\<rparr> \<and>
    pool_counts {#} pool' \<and> pool_full n pool' \<and> (\<exists>pl'. plp = Some pl' \<and> pl_priv pl' = NULL)"
proof -
  let ?q = "map (\<lambda>_. NULL) (vq_queue p)"
  have "hub_video_pipeline_stop cp (Some pl) pool =
      (fst (close_v4l2 cp (p\<lparr>vq_queue := ?q\<rparr>)),
       Some (pl\<lparr>pl_running := 0, pl_capture_thread := False, pl_render_thread := False, pl_priv := NULL\<rparr>),
       fold pool_release (slot_blocks (vq_queue p)) pool)"
    using assms(1) by (simp add: hub_video_pipeline_stop_def Let_def stop_sweep split: prod.split)
  with assms(4) show ?thesis
    unfolding close_effect [OF assms(1)]
    using frames.sweep [OF assms(2) queued_in_slots] full_sweep [OF assms(3)] by auto
qed

lemma full_steps:
  "pool_full n (vs_pool s) \<Longrightarrow> list_all quiet steps \<Longrightarrow> pool_full n (vs_pool (fold (apply_step dflt) steps s))"
  by (induction steps arbitrary: s) (simp_all add: full_step)

lemma capture_hand: "vs_hand (fold (apply_step dflt) (map CaptureStep ts) s) = vs_hand s"
  by (induction ts arbitrary: s) (auto split: option.split)

definition view_of :: "video_pipeline \<Rightarrow> mem_pool \<Rightarrow> nat option \<Rightarrow> u64 list \<Rightarrow> video_state" where
  "view_of pl pool hand shown = \<lparr>vs_priv = the (pl_priv pl), vs_pool = pool, vs_hand = hand, vs_shown = shown\<rparr>"

lemma camera_given_back:
  assumes "open_v4l2 cam cp p0 = (r0, cpo, p1)" "v4_bufs p0 = replicate 4 (NotMapped, 0)" "v4_buf_count p0 = 0"
    and "pl_priv pl = Some p" "v4_fd p = v4_fd p1" "v4_bufs p = v4_bufs p1" "v4_buf_count p = v4_buf_count p1"
  shows "\<lparr>cp_fds = fold fd_close (cam_fds pl) (cp_fds cpo), cp_maps = cp_maps cpo - cam_maps pl\<rparr> = cp"
proof -
  have "fst (close_v4l2 cpo p) = fst (close_v4l2 cpo p1)"
    using assms(5-7) by (simp add: close_v4l2_def Let_def)
  moreover have "fst (close_v4l2 cpo p1) = cp" using open_camera_balanced [OF assms(1-3)] by simp
  ultimately show ?thesis using close_effect [OF assms(4), of cpo "vq_queue p"] by simp
qed

text \<open>A stop that follows a failed creation of a thread, after \<open>early\<close> turns of the other.\<close>

lemma failed_start_stop:
  assumes o: "open_v4l2 cam cp p0 = (r0, cpo, p1)" "v4_bufs p0 = replicate 4 (NotMapped, 0)" "v4_buf_count p0 = 0"
    and p1: "queue_wf p1" "queued p1 = []" "vp_seq p1 = 0"
    and pool: "pool_full n pool" "pool_counts {#} pool" "list_all quiet (map CaptureStep early)" "length early < 2 ^ 64"
    and s: "s = fold (apply_step True) (map CaptureStep early) (video_begin p1 pool)"
    and st: "pl_priv pl = Some (vs_priv s)" "hub_video_pipeline_stop cpo (Some pl) (vs_pool s) = (c, q, m)"
  shows "c = cp \<and> pool_counts {#} m \<and> pool_full n m \<and> (\<exists>pl'. q = Some pl' \<and> pl_priv pl' = NULL)"
proof -
  have "video_inv (length (map CaptureStep early)) (video_begin p1 pool)"
    using begin_inv [OF p1 pool(2), of "length early"] pool(4) by simp
  from run_inv [OF pool(3) this, of True] capture_hand [of True early "video_begin p1 pool"]
  have cnt: "pool_counts (mset (queued (vs_priv s))) (vs_pool s)"
    by (simp add: s video_inv_def in_use_def video_begin_def)
  have full: "pool_full n (vs_pool s)"
    using full_steps [of n "video_begin p1 pool", OF _ pool(3), of True] pool(1) by (simp add: s video_begin_def)
  have "v4_fd (vs_priv s) = v4_fd p1" "v4_bufs (vs_priv s) = v4_bufs p1" "v4_buf_count (vs_priv s) = v4_buf_count p1"
    using run_frame [of True "map CaptureStep early" "video_begin p1 pool"] by (simp_all add: s video_begin_def)
  from camera_given_back [OF o st(1) this] stop_effect [OF st(1) cnt full st(2)] show ?thesis by simp
qed

text \<open>However the start of the pipeline ends, the camera it opened is the pipeline's, and without a pipeline
  nothing is taken.\<close>

definition pipeline_started ::
  "nat \<Rightarrow> nat \<Rightarrow> cam_proc \<Rightarrow> cam_proc \<Rightarrow> video_pipeline \<Rightarrow> mem_pool \<Rightarrow> bool" where
  "pipeline_started n room cp cp1 pl pool \<longleftrightarrow> pool_full n pool \<and>
     cp_fds cp1 = cam_fds pl @ cp_fds cp \<and> set (cam_fds pl) \<inter> set (cp_fds cp) = {} \<and>
     cp_maps cp1 = cp_maps cp + cam_maps pl \<and>
     (case pl_priv pl of None \<Rightarrow> pool_counts {#} pool | Some p \<Rightarrow> video_inv room (view_of pl pool None []))"

lemma not_started:
  "pl_priv pl = NULL \<Longrightarrow> pool_full n pool \<Longrightarrow> pool_counts {#} pool \<Longrightarrow> pipeline_started n room cp cp pl pool"
  by (simp add: pipeline_started_def cam_fds_def cam_maps_def)

lemma both_started:
  assumes o: "open_v4l2 cam cp p0 = (r0, cpo, p1)" "v4_bufs p0 = replicate 4 (NotMapped, 0)" "v4_buf_count p0 = 0"
    and p1: "queue_wf p1" "queued p1 = []" "vp_seq p1 = 0"
    and pool: "pool_full n pool" "pool_counts {#} pool" "room < 2 ^ 64" and pl: "pl_priv pl = Some p1"
  shows "pipeline_started n room cp cpo pl pool"
proof -
  have "(fd_new (cp_fds cp) < 0) = False" using fd_new_free(2) [of "cp_fds cp"] by (simp add: not_less)
  then have "cp_fds cpo = cam_fds pl @ cp_fds cp" "set (cam_fds pl) \<inter> set (cp_fds cp) = {}"
    using open_fds_exact [OF o(1)] pl by (auto simp: cam_fds_def)
  moreover have "cp_maps cpo - cam_maps pl = cp_maps cp"
    using arg_cong [OF camera_given_back [OF o pl refl refl refl], of cp_maps] by simp
  moreover have "view_of pl pool None [] = video_begin p1 pool" using pl by (simp add: view_of_def video_begin_def)
  ultimately show ?thesis
    using pool(1) pl begin_inv [OF p1 pool(2,3)] by (simp add: pipeline_started_def)
qed

lemma start_video_ok:
  assumes pool: "pool_full n pool" "pool_counts {#} pool" "list_all quiet (map CaptureStep early)" "length early < 2 ^ 64"
    and st: "hub_video_pipeline_start al cam t1 t2 early cp (Some pl0) (Some cfg) (Some pool) False = (r, cp1, plp, poolp)"
    and "room < 2 ^ 64"
  shows "\<exists>pl m. plp = Some pl \<and> poolp = Some m \<and> pipeline_started n room cp cp1 pl m"
proof -
  define p0 where "p0 = priv_zero\<lparr>vp_width := video_width cfg, vp_height := video_height cfg, vp_lut := init_yuv_lut,
      v4_fd := - 1\<rparr>"
  define pl where "pl = \<lparr>pl_config = cfg, pl_default_sink = True, pl_capture_thread = False, pl_render_thread = False,
      pl_running = 0, pl_priv = NULL\<rparr>"
  obtain r0 cpo p1 where o: "open_v4l2 cam cp p0 = (r0, cpo, p1)" by (metis prod_cases3)
  have p0: "v4_bufs p0 = replicate 4 (NotMapped, 0)" "v4_buf_count p0 = 0"
    by (simp_all add: p0_def priv_zero_def HUB_V4L2_BUF_COUNT_def)
  have p1: "queue_wf p1" "queued p1 = []" "vp_seq p1 = 0"
    using open_frame [OF o] by (simp_all add: queue_wf_def queued_def p0_def priv_zero_def HUB_VIDEO_QUEUE_DEPTH_def)
  define s where "s = fold (apply_step True) (map CaptureStep early) (video_begin p1 pool)"
  have ct: "capture_turns early p1 pool = (vs_priv s, vs_pool s)"
    using capture_turns_steps [of early p1 pool True] by (simp add: s_def video_begin_def Let_def)
  define pl1 where "pl1 = pl\<lparr>pl_priv := Some p1\<rparr>"
  define pl2 where "pl2 = pl1\<lparr>pl_capture_thread := True, pl_priv := Some (vs_priv s)\<rparr>"
  have start: "(r, cp1, plp, poolp) = (if \<not> al then (- 1, cp, Some pl, Some pool)
      else if \<not> t1 then (case hub_video_pipeline_stop cpo (Some pl1) pool of (c, q, m) \<Rightarrow> (- 1, c, q, Some m))
      else if \<not> t2 then (case hub_video_pipeline_stop cpo (Some pl2) (vs_pool s) of (c, q, m) \<Rightarrow> (- 1, c, q, Some m))
      else (0, cpo, Some (pl1\<lparr>pl_running := 1, pl_capture_thread := True, pl_render_thread := True\<rparr>), Some pool))"
    unfolding st [symmetric] using o ct
    by (simp add: hub_video_pipeline_start_def Let_def p0_def [symmetric] pl_def [symmetric] pl1_def [symmetric] pl2_def)
  obtain c q m where s1: "hub_video_pipeline_stop cpo (Some pl1) pool = (c, q, m)" by (metis prod_cases3)
  obtain c' q' m' where s2: "hub_video_pipeline_stop cpo (Some pl2) (vs_pool s) = (c', q', m')" by (metis prod_cases3)
  have one: "c = cp \<and> pool_counts {#} m \<and> pool_full n m \<and> (\<exists>pl'. q = Some pl' \<and> pl_priv pl' = NULL)"
    by (rule failed_start_stop [OF o p0 p1 pool(1,2), where early = "[]" and pl = pl1, OF _ _ refl])
      (simp_all add: video_begin_def s1, simp add: pl1_def)
  have two: "c' = cp \<and> pool_counts {#} m' \<and> pool_full n m' \<and> (\<exists>pl'. q' = Some pl' \<and> pl_priv pl' = NULL)"
    by (rule failed_start_stop [OF o p0 p1 pool s_def _ s2]) (simp add: pl2_def)
  have run: "pipeline_started n room cp cpo (pl1\<lparr>pl_running := 1, pl_capture_thread := True, pl_render_thread := True\<rparr>) pool"
    by (rule both_started [OF o p0 p1 pool(1,2) assms(6)]) (simp add: pl1_def)
  have "pl_priv pl = NULL" by (simp add: pl_def)
  with pool one two run not_started start s1 s2 show ?thesis
    by (auto split: if_splits)
qed

section \<open>Requests and reports keep what the hub owns\<close>

definition rpc_ok :: "fd_table \<Rightarrow> 'd rpc_state \<Rightarrow> bool" where
  "rpc_ok base st \<longleftrightarrow> (\<exists>hal mp. rs_hal st = Some hal \<and> rs_media st = Some mp \<and>
     hal_owns base (w_fds (rs_world st)) hal \<and> media_ok (rs_procs st) mp)"

lemma set_led_ok: "rpc_ok base st \<Longrightarrow> set_led env st on = (r, st') \<Longrightarrow> rpc_ok base st'"
  by (auto simp: rpc_ok_def set_led_def split: prod.splits dest: led_set_owns)

lemma led_control_ok: "rpc_ok base st \<Longrightarrow> rpc_led_control env st rq i resp = (resp', st') \<Longrightarrow> rpc_ok base st'"
  by (auto simp: rpc_led_control_def split: prod.splits if_splits dest: set_led_ok)

lemma control_ok: "rpc_ok base st \<Longrightarrow> rpc_control env st rq i resp = (resp', st') \<Longrightarrow> rpc_ok base st'"
  by (auto simp: rpc_control_def split: prod.splits if_splits dest: set_led_ok)

lemma dht11_ok: "rpc_ok base st \<Longrightarrow> rpc_dht11_read env st i resp = (resp', st') \<Longrightarrow> rpc_ok base st'"
  by (auto simp: rpc_ok_def rpc_dht11_read_def split: prod.splits dest: dht11_owns)

lemma media_play_ok:
  assumes "rpc_ok base st" "re_fork env \<noteq> 0" "rpc_media_play env st rq i resp = Some (resp', st')"
  shows "rpc_ok base st'"
proof -
  obtain hal mp where st: "rs_hal st = Some hal" "rs_media st = Some mp" "hal_owns base (w_fds (rs_world st)) hal"
    "media_ok (rs_procs st) mp" using assms(1) by (auto simp: rpc_ok_def)
  obtain f where f: "c_string (rpc_media_file env rq) = Some f"
    using assms(3) st(2) by (auto simp: rpc_media_play_def split: option.splits)
  obtain r ps mp' where p: "hub_media_player_play (re_fork env) (rs_procs st) (Some mp) (if f \<noteq> [] then Some f else NULL) =
      (r, ps, Some mp')" "media_ok ps mp'"
    using play_ok [OF st(4) assms(2)] by blast
  have "st' = st\<lparr>rs_procs := ps, rs_media := Some mp'\<rparr>"
    using assms(3) unfolding rpc_media_play_def st(2) f option.case p(1) by simp
  with st p(2) show ?thesis by (simp add: rpc_ok_def)
qed

lemma media_stop_ok:
  assumes "rpc_ok base st" "rpc_media_stop st i resp = (resp', st')"
  shows "rpc_ok base st'"
proof -
  obtain hal mp where st: "rs_hal st = Some hal" "rs_media st = Some mp" "hal_owns base (w_fds (rs_world st)) hal"
    "media_ok (rs_procs st) mp" using assms(1) by (auto simp: rpc_ok_def)
  obtain ps mp' where p: "hub_media_player_stop (rs_procs st) (Some mp) = (0, ps, Some mp')" "media_ok ps mp'"
    using stop_none [OF st(4)] by blast
  have "st' = st\<lparr>rs_procs := ps, rs_media := Some mp'\<rparr>"
    using assms(2) unfolding rpc_media_stop_def st(2) p(1) by simp
  with st p(2) show ?thesis by (simp add: rpc_ok_def)
qed

lemma dispatch_ok:
  assumes "rpc_ok base st" "re_fork env \<noteq> 0"
    and "hub_json_rpc_dispatch env (Some st) (Some rq) (Some resp) = Some (r, rp, stp)"
  shows "\<exists>st' resp'. stp = Some st' \<and> rp = Some resp' \<and> rpc_ok base st'"
proof (cases "rs_hal st = NULL \<or> resp = []")
  case True
  then show ?thesis using assms(1,3) by (auto simp: hub_json_rpc_dispatch_def)
next
  case False
  obtain ret buf where m: "rpc_get_string rq ''method'' (re_method env) = (ret, buf)" by fastforce
  define nm where "nm = takeWhile (\<lambda>c. c \<noteq> NUL) buf"
  obtain r1 s1 where 1: "rpc_led_control env st rq (json_get_id_raw rq 64) resp = (r1, s1)" by fastforce
  obtain r2 s2 where 2: "rpc_control env st rq (json_get_id_raw rq 64) resp = (r2, s2)" by fastforce
  obtain r3 s3 where 3: "rpc_dht11_read env st (json_get_id_raw rq 64) resp = (r3, s3)" by fastforce
  obtain r5 s5 where 5: "rpc_media_stop st (json_get_id_raw rq 64) resp = (r5, s5)" by fastforce
  note ok = led_control_ok [OF assms(1) 1] control_ok [OF assms(1) 2] dht11_ok [OF assms(1) 3] media_stop_ok [OF assms(1) 5]
  have 4: "rpc_ok base s4" if "rpc_media_play env st rq (json_get_id_raw rq 64) resp = Some (r4, s4)" for r4 s4
    using media_play_ok [OF assms(1,2) that] .
  from assms(3) False have "ret \<noteq> 0 \<and> stp = Some st \<and> rp \<noteq> NULL \<or> stp \<in> {Some s1, Some s2, Some s3, Some s5, Some st} \<and> rp \<noteq> NULL \<or>
      (\<exists>r4 s4. rpc_media_play env st rq (json_get_id_raw rq 64) resp = Some (r4, s4) \<and> stp = Some s4 \<and> rp = Some r4)"
    unfolding hub_json_rpc_dispatch_def option.case prod.case m Let_def 1 2 3 5 nm_def [symmetric]
    by (auto split: if_splits option.splits prod.splits)
  with ok 4 assms(1) show ?thesis by auto
qed

lemma message_ok:
  assumes "rpc_ok base st" "re_fork env \<noteq> 0"
    and "on_mqtt_message env topic payload resp st = Some (r, resp', st')"
  shows "rpc_ok base st'"
  using dispatch_ok [OF assms(1,2)] assms(3)
  by (fastforce simp: on_mqtt_message_def split: option.splits)

lemma report_owns:
  assumes "hal_owns base (w_fds w) hal" "report_turn env t (svc, w, Some hal) = ((svc', w', halp), es)"
  shows "\<exists>hal'. halp = Some hal' \<and> hal_owns base (w_fds w') hal'"
proof -
  obtain r hp tp w1 hal1 where d: "hub_dht11_read (re_dev env) (re_bytes env) (re_ints env) w (Some hal) (Some 0) (Some 0) =
      (r, hp, tp, w1, Some hal1)" "hal_owns base (w_fds w1) hal1"
    using dht11_owns [OF assms(1)] by (metis prod_cases5)
  then show ?thesis
    using assms by (auto simp: report_turn_def publish_sensor_report_def report_payload_def Let_def split: if_splits prod.splits)
qed

lemma turn_owns:
  assumes "hal_owns base (w_fds w) hal" "mqtt_turn env t (svc, w, Some hal) = ((svc', w', halp), es)"
  shows "\<exists>hal'. halp = Some hal' \<and> hal_owns base (w_fds w') hal'"
  using assms report_owns [OF assms(1)]
  by (auto simp: mqtt_turn_def Let_def split: if_splits prod.splits)

section \<open>What the running hub holds\<close>

definition video_part :: "nat \<Rightarrow> 'd hub_state \<Rightarrow> bool" where
  "video_part room s \<longleftrightarrow>
     (case pl_priv (hs_video s) of
        None \<Rightarrow> hs_hand s = None \<and> pool_counts {#} (hs_pool s)
      | Some p \<Rightarrow> video_inv room (video_view p s))"

text \<open>Above the descriptors \<open>fds\<close>, the mappings \<open>maps\<close> and the allocations \<open>heap\<close> the hub holds those of its
  parts and no others.\<close>

definition hub_inv :: "fd_table \<Rightarrow> int \<Rightarrow> int \<Rightarrow> nat \<Rightarrow> 'd hub_state \<Rightarrow> bool" where
  "hub_inv fds maps heap room s \<longleftrightarrow>
     hal_owns (cam_fds (hs_video s) @ fds) (w_fds (hs_world s)) (hs_hal s) \<and>
     hs_maps s = maps + cam_maps (hs_video s) \<and>
     (\<exists>n. pool_full n (hs_pool s) \<and> hs_heap s = heap + 1 + int n) \<and>
     media_ok (hs_procs s) (hs_media s) \<and> video_part room s"

text \<open>The calls into the client library so far are in order and have led to the service's state.\<close>

definition trace_part :: "'d hub_state \<Rightarrow> bool" where
  "trace_part s \<longleftrightarrow> (\<exists>st. client_trace (hs_trace s) (False, False) = Some st \<and>
     (case mq_impl (hs_mqtt s) of None \<Rightarrow> st = (False, False) | Some impl \<Rightarrow> impl_state impl st))"

lemma video_inv_less: "video_inv (Suc room) v \<Longrightarrow> video_inv room v"
  by (simp add: video_inv_def)

lemma step_inv:
  "quiet st \<Longrightarrow> video_inv (Suc room) v \<Longrightarrow> video_inv room (apply_step dflt st v)"
  by (cases st) (simp_all add: capture_step_inv pop_step_inv finish_step_inv video_inv_less del: apply_step.simps)

lemma video_event_eq:
  "pl_priv (hs_video s) = Some p \<Longrightarrow>
   (let v = apply_step (pl_default_sink (hs_video s)) st (video_view p s); s' = video_event st s
    in pl_priv (hs_video s') = Some (vs_priv v) \<and> video_view (vs_priv v) s' = v \<and> hs_pool s' = vs_pool v \<and>
       cam_fds (hs_video s') = cam_fds (hs_video s) \<and> cam_maps (hs_video s') = cam_maps (hs_video s) \<and>
       hs_world s' = hs_world s \<and> hs_hal s' = hs_hal s \<and> hs_maps s' = hs_maps s \<and> hs_heap s' = hs_heap s \<and>
       hs_procs s' = hs_procs s \<and> hs_media s' = hs_media s)"
  using step_frame [of "pl_default_sink (hs_video s)" st "video_view p s"]
  by (simp add: video_event_def video_view_def cam_fds_def cam_maps_def Let_def)

lemma video_event_none: "pl_priv (hs_video s) = NULL \<Longrightarrow> video_event st s = s"
  by (simp add: video_event_def)

lemma video_event_mqtt [simp]: "hs_mqtt (video_event st s) = hs_mqtt s" "hs_trace (video_event st s) = hs_trace s"
  by (simp_all add: video_event_def Let_def split: option.split)

lemma hub_inv_less: "hub_inv fds maps heap (Suc room) s \<Longrightarrow> hub_inv fds maps heap room s"
  by (auto simp: hub_inv_def video_part_def video_inv_less split: option.split)

lemma video_event_inv:
  assumes "hub_inv fds maps heap room s" "quiet st"
    and "\<And>p. pl_priv (hs_video s) = Some p \<Longrightarrow>
      video_inv room' (apply_step (pl_default_sink (hs_video s)) st (video_view p s))"
    and "pl_priv (hs_video s) = NULL \<Longrightarrow> room' = room"
  shows "hub_inv fds maps heap room' (video_event st s)"
proof (cases "pl_priv (hs_video s)")
  case None
  with assms show ?thesis by (simp add: video_event_none)
next
  case (Some p)
  let ?v = "apply_step (pl_default_sink (hs_video s)) st (video_view p s)"
  obtain n where n: "pool_full n (hs_pool s)" "hs_heap s = heap + 1 + int n" using assms(1) by (auto simp: hub_inv_def)
  have "pool_full n (vs_pool ?v)" using full_step [OF _ assms(2), of n "video_view p s"] n(1) by (simp add: video_view_def)
  with video_event_eq [OF Some, of st] assms(1) assms(3) [OF Some] n(2) show ?thesis
    by (auto simp: hub_inv_def video_part_def Let_def)
qed

lemma video_run_inv:
  "hub_inv fds maps heap (length steps + room) s \<Longrightarrow> list_all quiet steps \<Longrightarrow>
   hub_inv fds maps heap room (fold video_event steps s)"
proof (induction steps arbitrary: s)
  case (Cons st steps)
  have q: "quiet st" using Cons.prems(2) by simp
  have "hub_inv fds maps heap (length steps + room) (video_event st s)"
  proof (rule video_event_inv [OF hub_inv_less q])
    show "hub_inv fds maps heap (Suc (length steps + room)) s" using Cons.prems(1) by simp
    show "video_inv (length steps + room) (apply_step (pl_default_sink (hs_video s)) st (video_view p s))"
      if "pl_priv (hs_video s) = Some p" for p
      using that Cons.prems(1) by (intro step_inv [OF q]) (simp add: hub_inv_def video_part_def)
  qed simp
  then show ?case using Cons by simp
qed simp

lemma video_run_mqtt:
  "hs_mqtt (fold video_event steps s) = hs_mqtt s \<and> hs_trace (fold video_event steps s) = hs_trace s"
  by (induction steps arbitrary: s) simp_all

text \<open>A capture that waits is a step of its own, and \<open>fork\<close> returns to the parent.\<close>

definition event_ok :: "'d hub_event \<Rightarrow> bool" where
  "event_ok ev \<longleftrightarrow> (case ev of VideoEvent st \<Rightarrow> quiet st | Message env _ _ _ _ \<Rightarrow> re_fork env \<noteq> 0 | _ \<Rightarrow> True)"

definition trace_on :: "'d hub_state \<Rightarrow> bool" where
  "trace_on s \<longleftrightarrow> (\<exists>st. client_trace (hs_trace s) (False, False) = Some st \<and> svc_state (hs_mqtt s) st)"

lemma trace_on_more:
  assumes "trace_on s" "\<And>st. svc_state (hs_mqtt s) st \<Longrightarrow> \<exists>st'. client_trace es st = Some st' \<and> svc_state svc st'"
    and "hs_trace s' = hs_trace s @ es" "hs_mqtt s' = svc"
  shows "trace_on s'"
  using assms by (force simp: trace_on_def client_trace_append)

lemma message_trace:
  assumes "svc_state svc st" "paho_msgarrvd (Some cb) alloc_ok rc svc x topic msg = Some (svc', x', es)"
  shows "\<exists>st'. client_trace es st = Some st' \<and> svc_state svc' st'"
proof (cases "es = [] \<and> svc' = svc")
  case True
  then show ?thesis using assms(1) by simp
next
  case False
  then obtain len resp y where c: "alloc_ok"
      "cb (case topic of None \<Rightarrow> [] | Some t \<Rightarrow> t) (takeWhile (\<lambda>c. c \<noteq> NUL) msg) (replicate 512 NUL) x = Some (len, resp, y)"
      "0 \<le> len \<and> resp ! 0 \<noteq> NUL"
    using assms(2) unfolding paho_msgarrvd_def option.case by (auto split: if_splits option.splits prod.splits)
  obtain r svcp es0 where p: "hub_mqtt_service_publish rc (Some svc) (Some (field_text (mqtt_topic_resp (mq_config svc))))
      (Some (field_text resp)) (clamp_qos (mqtt_qos_response (mq_config svc)) 1) = (r, svcp, es0)" by (metis prod_cases3)
  have "(the svcp, y, es0) = (svc', x', es)"
    using assms(2) c unfolding paho_msgarrvd_def option.case prod.case c(2) p by simp
  then have "client_trace es st = Some st \<and> svc_state svc' st" using publish_trace [OF assms(1) p] by auto
  then show ?thesis by blast
qed

lemma message_rpc:
  assumes "rpc_ok base x" "re_fork env \<noteq> 0"
    and "paho_msgarrvd (Some (on_mqtt_message env)) alloc_ok rc svc x topic msg = Some (svc', x', es)"
  shows "rpc_ok base x'"
  using assms message_ok [OF assms(1,2)]
  by (auto simp: paho_msgarrvd_def split: option.splits prod.splits if_splits)

lemma event_trace:
  assumes "trace_on s" "hub_event_step ev s = Some s'"
  shows "trace_on s'"
proof (cases ev)
  case (VideoEvent st)
  then show ?thesis using assms by (auto simp: trace_on_def)
next
  case (MqttTurn env t)
  obtain svc w halp es where m: "mqtt_turn env t (hs_mqtt s, hs_world s, Some (hs_hal s)) = ((svc, w, halp), es)"
    by (metis surj_pair)
  show ?thesis
    using assms(2) MqttTurn m by (intro trace_on_more [OF assms(1), of es svc] turn_trace [OF _ m]) auto
next
  case (Message env a rc topic msg)
  then obtain svc x es where m: "paho_msgarrvd (Some (on_mqtt_message env)) a rc (hs_mqtt s) (rpc_view s) topic msg = Some (svc, x, es)"
    using assms(2) by (auto split: option.splits)
  show ?thesis
    using assms(2) Message m by (intro trace_on_more [OF assms(1), of es svc] message_trace [OF _ m]) (auto simp: set_rpc_def)
next
  case ConnLost
  have "svc_state (paho_connlost svc) st" if "svc_state svc st" for svc st
    using that by (auto simp: svc_state_def impl_state_def paho_connlost_def)
  then show ?thesis using assms ConnLost by (auto simp: trace_on_def)
next
  case (ChildExit pid)
  then show ?thesis using assms by (auto simp: trace_on_def)
qed

lemma child_exits_ok: "media_ok ps mp \<Longrightarrow> media_ok (child_exits pid ps) mp"
  by (auto simp: media_ok_def child_exits_def split: if_splits)

lemma hub_inv_frame:
  assumes "hub_inv fds maps heap room s"
    and "hs_video s' = hs_video s" "hs_hand s' = hs_hand s" "hs_shown s' = hs_shown s" "hs_pool s' = hs_pool s"
      "hs_maps s' = hs_maps s" "hs_heap s' = hs_heap s"
    and "hal_owns (cam_fds (hs_video s) @ fds) (w_fds (hs_world s')) (hs_hal s')" "media_ok (hs_procs s') (hs_media s')"
  shows "hub_inv fds maps heap room s'"
proof -
  have "video_view p s' = video_view p s" for p using assms(3-5) by (simp add: video_view_def)
  then have "video_part room s' = video_part room s" using assms by (simp add: video_part_def split: option.split)
  then show ?thesis using assms by (simp add: hub_inv_def)
qed

lemma event_inv:
  assumes "hub_inv fds maps heap (Suc room) s" "event_ok ev" "hub_event_step ev s = Some s'"
  shows "hub_inv fds maps heap room s'"
proof (cases ev)
  case (VideoEvent st)
  have "hub_inv fds maps heap room (fold video_event [st] s)"
    by (rule video_run_inv) (use assms VideoEvent in \<open>simp_all add: event_ok_def\<close>)
  then show ?thesis using assms(3) VideoEvent by simp
next
  case (MqttTurn env t)
  obtain svc w halp es where m: "mqtt_turn env t (hs_mqtt s, hs_world s, Some (hs_hal s)) = ((svc, w, halp), es)"
    by (metis surj_pair)
  have own: "hal_owns (cam_fds (hs_video s) @ fds) (w_fds (hs_world s)) (hs_hal s)" "media_ok (hs_procs s) (hs_media s)"
    using assms(1) by (simp_all add: hub_inv_def)
  obtain hal where "halp = Some hal" "hal_owns (cam_fds (hs_video s) @ fds) (w_fds w) hal" using turn_owns [OF own(1) m] by blast
  then show ?thesis
    using assms(3) MqttTurn m own(2) by (intro hub_inv_frame [OF hub_inv_less [OF assms(1)]]) auto
next
  case (Message env a rc topic msg)
  then obtain svc x es where m: "paho_msgarrvd (Some (on_mqtt_message env)) a rc (hs_mqtt s) (rpc_view s) topic msg = Some (svc, x, es)"
    using assms(3) by (auto split: option.splits)
  have "rpc_ok (cam_fds (hs_video s) @ fds) (rpc_view s)"
    using assms(1) by (simp add: hub_inv_def rpc_ok_def rpc_view_def)
  from message_rpc [OF this _ m] assms(2) Message have "rpc_ok (cam_fds (hs_video s) @ fds) x" by (simp add: event_ok_def)
  then show ?thesis
    using assms(3) Message m
    by (intro hub_inv_frame [OF hub_inv_less [OF assms(1)]]) (auto simp: set_rpc_def rpc_ok_def)
next
  case ConnLost
  with assms(1,3) show ?thesis
    by (intro hub_inv_frame [OF hub_inv_less [OF assms(1)]]) (auto simp: hub_inv_def)
next
  case (ChildExit pid)
  with assms(1,3) child_exits_ok show ?thesis
    by (intro hub_inv_frame [OF hub_inv_less [OF assms(1)]]) (auto simp: hub_inv_def)
qed

lemma events_inv:
  "hub_inv fds maps heap (length evs + room) s \<Longrightarrow> trace_on s \<Longrightarrow> list_all event_ok evs \<Longrightarrow> hub_events evs s = Some s' \<Longrightarrow>
   hub_inv fds maps heap room s' \<and> trace_on s'"
proof (induction evs arbitrary: s)
  case (Cons ev evs)
  then obtain s1 where s1: "hub_event_step ev s = Some s1" by (auto split: option.splits)
  have "hub_inv fds maps heap (length evs + room) s1"
    using event_inv [OF _ _ s1, of fds maps heap "length evs + room"] Cons.prems by simp
  with Cons event_trace [OF Cons.prems(2) s1] s1 show ?case by simp
qed simp

section \<open>What the end gives back\<close>

lemma counts_shutdown: "pool_counts H p \<Longrightarrow> pool_counts H (the (hub_mem_pool_shutdown (Some p)))"
  by (simp add: pool_counts_def counts_held_shutdown pool_ok_ops)

lemma owns_without_camera:
  assumes "hal_owns (cam_fds pl @ fds) ws hal"
  shows "hal_owns fds (fold fd_close (cam_fds pl) ws) hal"
proof (cases "cam_fds pl")
  case Nil
  with assms show ?thesis by simp
next
  case (Cons c cs)
  then have c: "cam_fds pl = [c]" by (simp add: cam_fds_def split: option.splits if_splits)
  have d: "distinct ws" "mset ws = add_mset c (mset fds + open_fds hal)" using assms c by (simp_all add: hal_owns_def)
  have "mset (removeAll c ws) = mset fds + open_fds hal"
    using d by (simp add: distinct_remove1_removeAll [symmetric])
  with assms d c show ?thesis by (simp add: hal_owns_def fd_close_def distinct_removeAll)
qed

lemma end_video_ok:
  assumes "hub_inv fds maps heap room s"
  shows "hub_inv fds maps heap room (end_video s) \<and> pl_priv (hs_video (end_video s)) = NULL \<and>
    hs_mqtt (end_video s) = hs_mqtt s \<and> hs_trace (end_video s) = hs_trace s"
proof -
  define s1 where "s1 = video_event FinishStep s"
  have inv: "hub_inv fds maps heap room s1"
    unfolding s1_def
    by (rule video_event_inv [OF assms])
       (use assms in \<open>simp_all add: quiet_def hub_inv_def video_part_def finish_step_inv del: apply_step.simps\<close>)
  have mq: "hs_mqtt s1 = hs_mqtt s" "hs_trace s1 = hs_trace s" by (simp_all add: s1_def)
  obtain cp plp pool where st: "hub_video_pipeline_stop (cam_side s1) (Some (hs_video s1)) (hs_pool s1) = (cp, plp, pool)"
    by (metis prod_cases3)
  have e: "end_video s = set_cam cp (s1\<lparr>hs_video := the plp, hs_pool := pool\<rparr>)"
    by (simp add: end_video_def s1_def [symmetric] st)
  show ?thesis
  proof (cases "pl_priv (hs_video s1)")
    case None
    then have "cp = cam_side s1" "plp = Some (hs_video s1)" "pool = hs_pool s1"
      using st by (simp_all add: hub_video_pipeline_stop_def)
    then have "end_video s = s1" by (simp add: e set_cam_def cam_side_def)
    with inv None mq show ?thesis by simp
  next
    case (Some p)
    have hand: "hs_hand s1 = None"
      using Some by (auto simp: s1_def video_event_def video_view_def Let_def split: option.splits)
    have "pool_counts (mset (queued p)) (hs_pool s1)"
      using inv Some hand by (simp add: hub_inv_def video_part_def video_inv_def in_use_def video_view_def)
    moreover obtain n where n: "pool_full n (hs_pool s1)" "hs_heap s1 = heap + 1 + int n"
      using inv by (auto simp: hub_inv_def)
    ultimately have eff: "cp = \<lparr>cp_fds = fold fd_close (cam_fds (hs_video s1)) (w_fds (hs_world s1)),
          cp_maps = hs_maps s1 - cam_maps (hs_video s1)\<rparr>" "pool_counts {#} pool" "pool_full n pool"
        "\<exists>pl'. plp = Some pl' \<and> pl_priv pl' = NULL"
      using stop_effect [OF Some _ _ st] by (simp_all add: cam_side_def)
    then obtain pl' where pl': "plp = Some pl'" "pl_priv pl' = NULL" by blast
    have "hal_owns fds (fold fd_close (cam_fds (hs_video s1)) (w_fds (hs_world s1))) (hs_hal s1)"
      using inv by (intro owns_without_camera) (simp add: hub_inv_def)
    moreover have "hs_maps s1 = maps + cam_maps (hs_video s1)" "media_ok (hs_procs s1) (hs_media s1)"
      using inv by (simp_all add: hub_inv_def)
    moreover have "cam_fds pl' = []" "cam_maps pl' = 0" using pl'(2) by (simp_all add: cam_fds_def cam_maps_def)
    ultimately show ?thesis
      using eff n pl' hand mq by (auto simp: e hub_inv_def video_part_def set_cam_def)
  qed
qed

lemma end_media_ok:
  assumes "hub_inv fds maps heap room s" "pl_priv (hs_video s) = NULL"
  shows "hub_inv fds maps heap room (end_media s) \<and> hs_procs (end_media s) = \<lparr>pr_running = [], pr_exited = []\<rparr> \<and>
    hs_video (end_media s) = hs_video s \<and> hs_mqtt (end_media s) = hs_mqtt s \<and> hs_trace (end_media s) = hs_trace s"
proof -
  have own: "hal_owns (cam_fds (hs_video s) @ fds) (w_fds (hs_world s)) (hs_hal s)" "media_ok (hs_procs s) (hs_media s)"
    using assms(1) by (simp_all add: hub_inv_def)
  obtain ps mp where m: "hub_media_player_stop (hs_procs s) (Some (hs_media s)) = (0, ps, Some mp)" "media_ok ps mp"
      "pr_running ps = []" "pr_exited ps = []"
    using stop_none [OF own(2)] by blast
  have e: "end_media s = s\<lparr>hs_procs := ps, hs_media := mp\<rparr>"
    by (simp add: end_media_def hub_media_player_deinit_def m(1))
  have "hub_inv fds maps heap room (end_media s)"
    by (rule hub_inv_frame [OF assms(1)]) (simp_all add: e own m(2))
  with m(3,4) show ?thesis by (simp add: e)
qed

definition given_back :: "'d world \<Rightarrow> int \<Rightarrow> int \<Rightarrow> 'd hub_state \<Rightarrow> bool" where
  "given_back w maps heap s \<longleftrightarrow> mset (w_fds (hs_world s)) = mset (w_fds w) \<and> hs_maps s = maps \<and> hs_heap s = heap \<and>
     hs_procs s = \<lparr>pr_running = [], pr_exited = []\<rparr>"

lemma end_pool_frame:
  "hs_world (end_pool s) = hs_world s" "hs_hal (end_pool s) = hs_hal s" "hs_maps (end_pool s) = hs_maps s"
  "hs_procs (end_pool s) = hs_procs s" "hs_trace (end_pool s) = hs_trace s" "hs_mqtt (end_pool s) = hs_mqtt s"
  "hs_heap (end_pool s) = fst (hub_mem_pool_destroy (hs_heap s) (Some (hs_pool s)))"
  by (simp_all add: end_pool_def split: prod.split)

lemma end_hal_fds:
  assumes "hal_owns fds (w_fds (hs_world s)) (hs_hal s)"
  shows "mset (w_fds (hs_world (end_hal s))) = mset fds \<and> hs_maps (end_hal s) = hs_maps s \<and>
    hs_heap (end_hal s) = hs_heap s \<and> hs_procs (end_hal s) = hs_procs s \<and> hs_trace (end_hal s) = hs_trace s \<and>
    hs_mqtt (end_hal s) = hs_mqtt s"
  using hal_deinit_closes [OF assms] by (auto simp: end_hal_def)

lemma end_all:
  assumes "hub_inv (w_fds w) maps heap room s" "pl_priv (hs_video s) = NULL" "hs_procs s = \<lparr>pr_running = [], pr_exited = []\<rparr>"
  shows "given_back w maps heap (end_hal (end_pool s)) \<and> hs_trace (end_hal (end_pool s)) = hs_trace s"
proof -
  obtain n where n: "pool_full n (hs_pool s)" "hs_heap s = heap + 1 + int n" using assms(1) by (auto simp: hub_inv_def)
  have z: "cam_fds (hs_video s) = []" "cam_maps (hs_video s) = 0" using assms(2) by (simp_all add: cam_fds_def cam_maps_def)
  have "hal_owns (w_fds w) (w_fds (hs_world (end_pool s))) (hs_hal (end_pool s))" "hs_maps s = maps"
    using assms(1) z by (simp_all add: hub_inv_def end_pool_frame)
  then show ?thesis
    using end_hal_fds [of "w_fds w" "end_pool s"] n assms(3) full_destroy [OF n(1), of "hs_heap s"]
    by (simp add: given_back_def end_pool_frame)
qed

section \<open>The whole run\<close>

lemma sum_free_data: "\<forall>b \<in> set bs. mb_data b \<noteq> NULL \<Longrightarrow> sum_list (map free_data bs) = int (length bs)"
  by (induction bs) (auto simp: free_data_def)

lemma pool_init_effect:
  assumes "hub_mem_pool_init blocks_ok calloc_ok heap (Some p0) bsz k = (r, heap', poolp)"
  shows "if r = 0 then \<exists>p n. poolp = Some p \<and> pool_full n p \<and> pool_counts {#} p \<and> heap' = heap + 1 + int n else heap' = heap"
proof -
  obtain ok h bs where a: "alloc_blocks calloc_ok bsz 0 (heap + 1) (replicate (nat k) block_zero) = (ok, h, bs)"
    by (metis prod_cases3)
  have h: "length bs = nat k" "h = heap + 1 + sum_list (map free_data bs)"
    using alloc_blocks_heap [OF _ a] by (simp_all add: block_zero_def)
  show ?thesis
  proof (cases "r = 0")
    case False
    then show ?thesis
      using assms a h by (auto simp: hub_mem_pool_init_def hub_mem_pool_destroy_def Let_def pool_blocks_def split: if_splits)
  next
    case True
    then have i: "hub_mem_pool_init True calloc_ok heap (Some p0) bsz k = (0, heap', poolp)" "0 < k" "ok" "heap' = h"
      "poolp = Some \<lparr>mp_blocks = Some bs, mp_block_count = k, mp_block_size = bsz, mp_shutdown = 0\<rparr>"
      using assms a by (auto simp: hub_mem_pool_init_def Let_def split: if_splits)
    from pool_init_ok [OF i(1) [unfolded i(5)]] i(2-5) h show ?thesis
      using True sum_free_data [of bs] by (auto simp: pool_full_def pool_counts_def pool_blocks_def)
  qed
qed

lemma start_resources:
  assumes "distinct (w_fds w)" "list_all quiet (map CaptureStep (se_early e))" "length (se_early e) < 2 ^ 64"
    and "list_all quiet (se_steps e)" "length (se_steps e) < 2 ^ 64" "room < 2 ^ 64"
    and "hub_start e (hub_zero w maps heap) = (r, s)"
  shows "(r = 0 \<or> r = 1) \<and> hs_trace s = [] \<and>
    (if r = 0 then hub_inv (w_fds w) maps heap room s \<and> trace_on s else given_back w maps heap s)"
proof -
  define s0 where "s0 = hub_zero w maps heap"
  obtain r0 cp where "hub_config_load (se_file e) (Some (hs_cfg s0)) = (r0, cp)" by fastforce
  moreover then obtain cfg where "cp = Some cfg"
    by (auto simp: hub_config_load_def Let_def split: option.splits if_splits)
  ultimately have 0: "hub_config_load (se_file e) (Some (hs_cfg s0)) = (r0, Some cfg)" by simp
  define s1 where "s1 = s0\<lparr>hs_cfg := cfg\<rparr>"
  have s1: "hs_world s1 = w" "hs_maps s1 = maps" "hs_heap s1 = heap" "hs_procs s1 = \<lparr>pr_running = [], pr_exited = []\<rparr>"
    "hs_trace s1 = []" "pl_priv (hs_video s1) = NULL" "hs_hand s1 = None" "hs_shown s1 = []"
    by (simp_all add: s1_def s0_def hub_zero_def)
  obtain w2 hal where hal: "hub_device_hal_init (se_dev e) w (Some (hs_hal s1)) (Some cfg) = (0, w2, Some hal)"
      "hal_owns (w_fds w) (w_fds w2) hal"
    using hal_init_owns [OF assms(1)] by blast
  define s2 where "s2 = s1\<lparr>hs_world := w2, hs_hal := hal\<rparr>"
  have cfg: "hs_cfg s1 = cfg" "hs_cfg s2 = cfg" by (simp_all add: s1_def s2_def)
  have 1: "start_hal e s1 = (0, s2)" by (simp add: start_hal_def s1(1) cfg hal(1) s2_def)
  obtain r2 h2 pp where mem: "hub_mem_pool_init (se_blocks e) (se_block e) heap (Some (hs_pool s2))
      (word_of_int (pool_block_size cfg)) (pool_block_count cfg) = (r2, h2, pp)" by (metis prod_cases3)
  define s3 where "s3 = s2\<lparr>hs_heap := h2, hs_pool := the pp\<rparr>"
  have 2: "start_pool e s2 = (r2, s3)" using mem s1(3) by (simp add: start_pool_def cfg s3_def) (simp add: s2_def)
  obtain mp where media: "hub_media_player_init (Some (hs_media s3)) (Some (field_text (media_default_file (hs_cfg s3)))) = (0, Some mp)"
      "mp_pid mp = - 1"
    by (simp add: hub_media_player_init_def)
  define s4 where "s4 = s3\<lparr>hs_media := mp\<rparr>"
  have 3: "start_media s3 = (0, s4)" by (simp add: start_media_def media(1) s4_def)
  obtain r4 s5 where 4: "start_video e s4 = (r4, s5)" by fastforce
  obtain r5 s6 where 5: "start_mqtt e s5 = (r5, s6)" by fastforce
  have run: "(r, s) = (if r0 \<noteq> 0 then (1, s1) else if r2 \<noteq> 0 then (1, end_hal s3)
      else if r5 \<noteq> 0 then (1, end_hal (end_pool (end_media (end_video (fold video_event (se_steps e) s6))))) else (0, s6))"
    unfolding assms(7) [symmetric] s0_def [symmetric] hub_start_def 0
    by (simp add: s1_def [symmetric] 1 2 3 4 5)
  consider (config) "r0 \<noteq> 0" | (pool) "r0 = 0" "r2 \<noteq> 0" | (on) "r0 = 0" "r2 = 0" by blast
  then show ?thesis
  proof cases
    case config
    then show ?thesis using run s1 by (simp add: given_back_def)
  next
    case pool
    have s3: "hs_world s3 = w2" "hs_hal s3 = hal" "hs_maps s3 = maps" "hs_heap s3 = h2" "hs_trace s3 = []"
        "hs_procs s3 = \<lparr>pr_running = [], pr_exited = []\<rparr>"
      by (simp_all add: s3_def s2_def s1)
    have "h2 = heap" using pool_init_effect [OF mem] pool(2) by simp
    with end_hal_fds [of "w_fds w" s3] hal(2) s3 run pool show ?thesis by (simp add: given_back_def)
  next
    case on
    obtain p n where p: "pp = Some p" "pool_full n p" "pool_counts {#} p" "h2 = heap + 1 + int n"
      using pool_init_effect [OF mem] on(2) by auto
    have s4: "hs_world s4 = w2" "hs_hal s4 = hal" "hs_maps s4 = maps" "hs_heap s4 = heap + 1 + int n" "hs_trace s4 = []"
        "hs_procs s4 = \<lparr>pr_running = [], pr_exited = []\<rparr>" "hs_media s4 = mp" "hs_pool s4 = p" "hs_hand s4 = None"
        "hs_shown s4 = []"
      by (simp_all add: s4_def s3_def s2_def s1 p)
    obtain cp1 plp poolp where vs: "hub_video_pipeline_start (se_priv e) (se_camera e) (se_capture e) (se_render e) (se_early e)
       (cam_side s4) (Some (hs_video s4)) (Some (hs_cfg s4)) (Some (hs_pool s4)) False = (r4, cp1, plp, poolp)"
       and s5: "s5 = set_cam cp1 (s4\<lparr>hs_video := the plp, hs_pool := the poolp\<rparr>)"
      using 4 by (auto simp: start_video_def split: prod.splits)
    have inv5: "hub_inv (w_fds w) maps heap k s5" if "k < 2 ^ 64" for k
    proof -
      note k = that
      obtain pl m where pl: "plp = Some pl" "poolp = Some m" "pipeline_started n k (cam_side s4) cp1 pl m"
        using start_video_ok [OF _ _ assms(2,3) vs k, of n] p s4(8) by auto
      have own: "hal_owns (cam_fds pl @ w_fds w) (cam_fds pl @ w_fds w2) hal"
        using hal(2) pl(3) by (auto simp: hal_owns_def pipeline_started_def cam_side_def s4 cam_fds_def split: option.splits)
      have "video_part k s5"
        using pl by (auto simp: video_part_def pipeline_started_def s5 set_cam_def s4 video_view_def view_of_def split: option.splits)
      moreover have "media_ok (hs_procs s5) (hs_media s5)"
        using media(2) by (simp add: s5 set_cam_def s4 media_ok_def)
      ultimately show ?thesis
        using own pl by (auto simp: hub_inv_def pipeline_started_def s5 set_cam_def s4 cam_side_def)
    qed
    have tr5: "hs_trace s5 = []" by (simp add: s5 set_cam_def s4)
    obtain mq where 6: "s6 = s5\<lparr>hs_mqtt := mq\<rparr>" "r5 = 0 \<longrightarrow> (\<exists>impl. mq_impl mq = Some impl \<and> impl_state impl (False, False))"
      using 5 by (auto simp: start_mqtt_def hub_mqtt_service_start_def Let_def impl_state_def split: if_splits prod.splits)
    have inv6: "hub_inv (w_fds w) maps heap k s6" if "k < 2 ^ 64" for k
      by (rule hub_inv_frame [OF inv5 [OF that]]) (use inv5 [OF that] in \<open>simp_all add: 6 hub_inv_def\<close>)
    show ?thesis
    proof (cases "r5 = 0")
      case True
      then have "trace_on s6" using 6 tr5 by (auto simp: trace_on_def svc_state_def)
      with run on True inv6 [OF assms(6)] tr5 6 show ?thesis by simp
    next
      case False
      let ?s7 = "fold video_event (se_steps e) s6"
      have "hub_inv (w_fds w) maps heap 0 ?s7"
        using video_run_inv [of "w_fds w" maps heap "se_steps e" 0 s6] inv6 assms(4,5) by simp
      note v = end_video_ok [OF this]
      note m = end_media_ok [OF conjunct1 [OF v]]
      have "given_back w maps heap (end_hal (end_pool (end_media (end_video ?s7)))) \<and>
          hs_trace (end_hal (end_pool (end_media (end_video ?s7)))) = hs_trace (end_media (end_video ?s7))"
        using v m by (intro end_all [where room = 0]) simp_all
      with run on False v m video_run_mqtt [of "se_steps e" s6] 6 tr5 show ?thesis by simp
    qed
  qed
qed

lemma end_mqtt_ok:
  assumes "hub_inv fds maps heap room s" "trace_on s"
  shows "hub_inv fds maps heap room (end_mqtt s) \<and> client_trace (hs_trace (end_mqtt s)) (False, False) = Some (False, False)"
proof -
  obtain st impl where st: "client_trace (hs_trace s) (False, False) = Some st" "mq_impl (hs_mqtt s) = Some impl"
    "impl_state impl st" using assms(2) by (auto simp: trace_on_def svc_state_def)
  obtain impl' es where e: "thread_end impl = (impl', es)" by fastforce
  have "client_trace es st = Some (False, False)"
    using e st(3) by (cases st) (auto simp: thread_end_def impl_state_def split: if_splits)
  moreover have "hs_trace (end_mqtt s) = hs_trace s @ es" by (simp add: end_mqtt_def st(2) e)
  moreover have "hub_inv fds maps heap room (end_mqtt s)"
    by (rule hub_inv_frame [OF assms(1)])
      (use assms(1) in \<open>simp_all add: end_mqtt_def st(2) e hub_inv_def split: prod.split\<close>)
  ultimately show ?thesis using st(1) by (simp add: client_trace_append)
qed

lemma quiesce_ok:
  assumes "hub_inv fds maps heap (length late) s" "trace_on s" "list_all quiet late"
  shows "hub_inv fds maps heap 0 (hub_quiesce late s) \<and> pl_priv (hs_video (hub_quiesce late s)) = NULL \<and>
    hs_procs (hub_quiesce late s) = \<lparr>pr_running = [], pr_exited = []\<rparr> \<and> pool_counts {#} (hs_pool (hub_quiesce late s)) \<and>
    client_trace (hs_trace (hub_quiesce late s)) (False, False) = Some (False, False)"
proof -
  note m = end_mqtt_ok [OF assms(1,2)]
  define s1 where "s1 = fold video_event late (end_mqtt s)"
  have "hub_inv fds maps heap 0 s1"
    unfolding s1_def using m assms(3) by (intro video_run_inv) simp_all
  note v = end_video_ok [OF this]
  define s2 where "s2 = end_media (end_video s1)"
  have s2: "hub_inv fds maps heap 0 s2" "hs_procs s2 = \<lparr>pr_running = [], pr_exited = []\<rparr>" "pl_priv (hs_video s2) = NULL"
      "hs_trace s2 = hs_trace s1"
    using v end_media_ok [OF conjunct1 [OF v]] by (simp_all add: s2_def)
  have tr: "hs_trace s1 = hs_trace (end_mqtt s)" using video_run_mqtt [of late "end_mqtt s"] by (simp add: s1_def)
  have q: "hub_quiesce late s = s2\<lparr>hs_pool := the (hub_mem_pool_shutdown (Some (hs_pool s2)))\<rparr>"
    by (simp add: hub_quiesce_def s2_def s1_def Let_def)
  have cnt: "pool_counts {#} (hs_pool s2)" using s2 by (simp add: hub_inv_def video_part_def)
  have "pool_full n (the (hub_mem_pool_shutdown (Some p)))" if "pool_full n p" for n p
    using that by (simp add: pool_full_def hub_mem_pool_shutdown_def pool_blocks_def)
  then show ?thesis
    using s2 tr m counts_shutdown [OF cnt] by (auto simp: q hub_inv_def video_part_def)
qed


section \<open>An instance\<close>

definition demo_hub_env :: "(led_module \<times> unit) hub_env" where
  "demo_hub_env = \<lparr>se_dev = demo_env, se_file = NULL, se_blocks = True, se_block = (\<lambda>_. True), se_priv = True,
     se_camera = demo_camera, se_capture = True, se_render = True, se_early = [], se_mqtt_alloc = True,
     se_mqtt_thread = True, se_steps = []\<rparr>"

definition demo_events :: "(led_module \<times> unit) hub_event list" where
  "demo_events = [VideoEvent (CaptureStep demo_capture), MqttTurn rpc_demo_env (demo_turn accepted),
     VideoEvent (PopStep 5), Message rpc_demo_env True 0 (Some ''/iot/down'') ''[]'', ConnLost, VideoEvent FinishStep,
     ChildExit 40]"

lemma alloc_all: "fst (alloc_blocks (\<lambda>_. True) bsz i heap bs)"
  by (induction "\<lambda>_ :: nat. True" bsz i heap bs rule: alloc_blocks.induct) (auto split: prod.split)

lemma pool_init_all: "k \<noteq> 0 \<Longrightarrow> 0 < n \<Longrightarrow> fst (hub_mem_pool_init True (\<lambda>_. True) h (Some p) k n) = 0"
  using alloc_all [of k 0 "h + 1" "replicate (nat n) block_zero"]
  by (cases "alloc_blocks (\<lambda>_. True) k 0 (h + 1) (replicate (nat n) block_zero)")
    (simp add: hub_mem_pool_init_def Let_def)

lemma demo_hub_started: "fst (hub_start demo_hub_env (hub_zero demo_world 0 0)) = 0"
proof -
  define s1 where "s1 = (hub_zero demo_world 0 0)\<lparr>hs_cfg := hub_config_set_defaults\<rparr>"
  have 0: "hub_config_load (se_file demo_hub_env) (Some c) = (0, Some hub_config_set_defaults)" for c
    by (simp add: hub_config_load_def demo_hub_env_def)
  have s1: "hs_world s1 = demo_world" "hs_cfg s1 = hub_config_set_defaults" by (simp_all add: s1_def hub_zero_def)
  have "distinct (w_fds demo_world)" by (simp add: demo_world_def)
  from hal_init_owns [OF this, of demo_env "hs_hal s1" hub_config_set_defaults]
  obtain w2 hal where hal: "hub_device_hal_init demo_env demo_world (Some (hs_hal s1)) (Some hub_config_set_defaults) =
      (0, w2, Some hal)" by blast
  define s2 where "s2 = s1\<lparr>hs_world := w2, hs_hal := hal\<rparr>"
  have dev: "se_dev demo_hub_env = demo_env" by (simp add: demo_hub_env_def)
  have 1: "start_hal demo_hub_env s1 = (0, s2)" by (simp add: start_hal_def s1 dev hal s2_def)
  have c: "pool_block_size (hs_cfg s2) = 4147200" "pool_block_count (hs_cfg s2) = 4"
    by (simp_all add: s2_def s1 hub_config_set_defaults_def)
  obtain r h pp where m: "hub_mem_pool_init True (\<lambda>_. True) (hs_heap s2) (Some (hs_pool s2)) (word_of_int 4147200) 4 = (r, h, pp)"
    by (metis prod_cases3)
  have r: "r = 0" using pool_init_all [of "word_of_int 4147200" 4 "hs_heap s2" "hs_pool s2"] unfolding m by simp
  have blocks: "se_blocks demo_hub_env = True" "se_block demo_hub_env = (\<lambda>_. True)" by (simp_all add: demo_hub_env_def)
  obtain s3 where 2: "start_pool demo_hub_env s2 = (0, s3)"
    unfolding start_pool_def blocks c m r prod.case by blast
  obtain s4 where 3: "start_media s3 = (0, s4)" by (simp add: start_media_def hub_media_player_init_def)
  obtain r4 s5 where 4: "start_video demo_hub_env s4 = (r4, s5)" by fastforce
  have mq: "se_mqtt_alloc demo_hub_env = True" "se_mqtt_thread demo_hub_env = True" by (simp_all add: demo_hub_env_def)
  obtain s6 where 5: "start_mqtt demo_hub_env s5 = (0, s6)"
    by (simp add: start_mqtt_def hub_mqtt_service_start_def mq Let_def)
  show ?thesis by (simp add: hub_start_def 0 s1_def [symmetric] 1 2 3 4 5)
qed

lemma demo_message:
  "hub_event_step (Message rpc_demo_env True 0 (Some ''/iot/down'') ''[]'') s \<noteq> None"
proof -
  have "c_strstr ''[]'' (quoted k) = NULL" for k
    unfolding quoted_def by (rule strstr_no_quote) simp
  moreover have "snprintf_str 64 (quoted ''method'') = quoted ''method''"
    by (simp add: snprintf_str_def quoted_def)
  ultimately have "rpc_get_string ''[]'' ''method'' out = (- 1, out)" for out
    by (simp add: rpc_get_string_def json_get_string_def json_find_key_def Let_def)
  then show ?thesis
    by (auto simp: paho_msgarrvd_def on_mqtt_message_def hub_json_rpc_dispatch_def rpc_view_def NUL_def
        split: prod.split option.split)
qed

lemma demo_events_run: "\<exists>s'. hub_events demo_events s = Some s'"
proof -
  have "\<exists>s'. hub_event_step ev s = Some s'" if "ev \<in> set demo_events" for ev and s :: "(led_module \<times> unit) hub_state"
    using that demo_message [of s] by (auto simp: demo_events_def split: prod.split simp del: hub_event_step.simps(3))
  then have "\<exists>s'. hub_events evs s = Some s'" if "set evs \<subseteq> set demo_events" for evs
    using that
  proof (induction evs arbitrary: s)
    case (Cons ev evs)
    then obtain s1 where "hub_event_step ev s = Some s1" by (meson list.set_intros(1) subsetD)
    with Cons show ?case by simp
  qed simp
  then show ?thesis by blast
qed


end
