(* ===== verification/HubRemote.thy ===== *)
theory HubRemote
  imports QtPanel HubMain
begin

text \<open>
  The remote control from end to end: a button of the control panel, the message \<open>mosquitto_pub\<close> sends,
  its delivery to the running hub, the LED's pin and the answer the hub publishes.
\<close>

section \<open>The answer\<close>

definition led_answer :: "bool \<Rightarrow> string" where
  "led_answer on = rpc_result (''{'' @ quoted ''LED1'' @ '':'' @ int_string (if on then 1 else 0) @ ''}'') (quoted ''qt-local'')"

lemma led_answer_text:
  "field_text (snprintf_buf (replicate 512 NUL) (led_answer on)) = led_answer on"
  "snprintf_buf (replicate 512 NUL) (led_answer on) ! 0 \<noteq> NUL"
proof -
  have "NUL \<notin> set (led_answer True) \<and> length (led_answer True) < 512" by code_simp
  moreover have "NUL \<notin> set (led_answer False) \<and> length (led_answer False) < 512" by code_simp
  ultimately have a: "NUL \<notin> set (led_answer on)" "length (led_answer on) < 512" by (cases on; simp)+
  show "field_text (snprintf_buf (replicate 512 NUL) (led_answer on)) = led_answer on"
    using a(1) unfolding field_text_def snprintf_buf_def Let_def length_replicate snprintf_str_id [OF a(2)] append_Cons append_Nil
    by (subst takeWhile_append2) auto
  show "snprintf_buf (replicate 512 NUL) (led_answer on) ! 0 \<noteq> NUL"
    by (simp add: snprintf_buf_def snprintf_str_def led_answer_def rpc_result_def rpc_head_def NUL_def nth_append Let_def)
qed

section \<open>The message is handled\<close>

text \<open>The panel's payload has no NUL, so the hub's copy of it is all of it.\<close>

lemma led_payload_whole: "takeWhile (\<lambda>c. c \<noteq> NUL) (led_payload on) = led_payload on"
proof -
  have "NUL \<notin> set (led_payload True)" "NUL \<notin> set (led_payload False)" by code_simp+
  then have "NUL \<notin> set (led_payload on)" by (cases on) simp_all
  then show ?thesis by (intro takeWhile_eq_all_conv [THEN iffD2] ballI) metis
qed

lemma message_handled:
  assumes "hub_device_open (re_dev env) (hs_world s) (Some (hs_hal s)) HUB_DEVICE_LED = (0, w1, Some hal1)"
    and "hal_owns base (w_fds (hs_world s)) (hs_hal s)" and "loaded (fst (w_dev (hs_world s)))"
    and "de_write (re_dev env) (dh_path (hal1 ! 0)) = led_sys_write" and "length (re_method env) = 64"
    and "mq_impl (hs_mqtt s) = Some impl"
  shows "\<exists>s'. hub_event_step (Message env True rc topic (led_payload on)) s = Some s' \<and>
    pin (hs_world s') = (if on then 0 else 1) \<and>
    hs_trace s' = hs_trace s @ snd (snd (hub_mqtt_service_publish rc (Some (hs_mqtt s))
      (Some (field_text (mqtt_topic_resp (mq_config (hs_mqtt s))))) (Some (led_answer on))
      (clamp_qos (mqtt_qos_response (mq_config (hs_mqtt s))) 1)))"
proof -
  note dev = opened_again [OF assms(1,2)]
  obtain d where d: "hub_led_set (re_dev env) (hs_world s) (Some (hs_hal s)) (if on then 1 else 0) =
      (0, w1\<lparr>w_dev := d\<rparr>, Some hal1)" "loaded (fst d)" "led_lit d = ((if on then 1 else 0 :: int) \<noteq> 0)"
    using driver.led_set [OF assms(1) dev(2) assms(4,3)] by blast
  have level: "pin (w1\<lparr>w_dev := d\<rparr>) = (if on then 0 else 1)"
    using d(2,3) by (auto simp: pin_def led_lit_def loaded_def split: if_splits)
  let ?st = "rpc_view s"
  let ?st' = "?st\<lparr>rs_world := w1\<lparr>w_dev := d\<rparr>, rs_hal := Some hal1\<rparr>"
  have "hub_json_rpc_dispatch env (Some ?st) (Some (led_payload on)) (Some (replicate 512 NUL)) =
      Some (0, Some (snprintf_buf (replicate 512 NUL) (led_answer on)), Some ?st')"
    unfolding led_answer_def
    by (rule payload_dispatch [OF assms(5)]) (use d(1) in \<open>simp_all add: rpc_view_def\<close>)
  then have h: "on_mqtt_message env t (takeWhile (\<lambda>c. c \<noteq> NUL) (led_payload on)) (replicate 512 NUL) ?st =
      Some (0, snprintf_buf (replicate 512 NUL) (led_answer on), ?st')" for t
    unfolding on_mqtt_message_def led_payload_whole by simp
  obtain r svcp es where p: "hub_mqtt_service_publish rc (Some (hs_mqtt s))
      (Some (field_text (mqtt_topic_resp (mq_config (hs_mqtt s))))) (Some (led_answer on))
      (clamp_qos (mqtt_qos_response (mq_config (hs_mqtt s))) 1) = (r, svcp, es)" by (metis prod_cases3)
  have "paho_msgarrvd (Some (on_mqtt_message env)) True rc (hs_mqtt s) ?st topic (led_payload on) =
      Some (the svcp, ?st', es)"
    using p led_answer_text [of on] by (simp add: paho_msgarrvd_def h)
  then show ?thesis using level p by (simp add: set_rpc_def)
qed

text \<open>What happens afterwards and does not concern the devices leaves the pin alone.\<close>

definition beside_devices :: "'d hub_event \<Rightarrow> bool" where
  "beside_devices ev = (case ev of VideoEvent _ \<Rightarrow> True | ConnLost \<Rightarrow> True | ChildExit _ \<Rightarrow> True | _ \<Rightarrow> False)"

lemma events_beside_devices:
  "list_all beside_devices evs \<Longrightarrow>
   \<exists>s'. hub_events evs s = Some s' \<and> w_dev (hs_world s') = w_dev (hs_world s) \<and> hs_trace s' = hs_trace s"
proof (induction evs arbitrary: s)
  case (Cons ev evs)
  have "\<exists>s1. hub_event_step ev s = Some s1 \<and> w_dev (hs_world s1) = w_dev (hs_world s) \<and> hs_trace s1 = hs_trace s"
    using Cons.prems by (cases ev) (auto simp: beside_devices_def video_event_def Let_def split: option.split)
  then obtain s1 where s1: "hub_event_step ev s = Some s1" "w_dev (hs_world s1) = w_dev (hs_world s)"
      "hs_trace s1 = hs_trace s" by blast
  with Cons.IH [of s1] Cons.prems show ?case by simp
qed simp


section \<open>An instance\<close>

text \<open>A connected hub with the default configuration, and a panel as it starts.\<close>

definition remote_hub :: "(led_module \<times> unit) hub_state" where
  "remote_hub = (hub_zero demo_world 0 0)\<lparr>hs_hal := demo_hal,
     hs_mqtt := \<lparr>mq_config = hub_config_set_defaults, mq_thread = True, mq_running = 1,
       mq_impl = Some \<lparr>mi_client_created = 1, mi_connected = 1, mi_reconnect_backoff = 1, mi_last_report_ms = 0\<rparr>\<rparr>\<rparr>"


end
