(* ===== verification/Spec2Isabelle.thy ===== *)
theory Spec2Isabelle
  imports RingBuffer RingSpsc LogicAnalyzer ProtocolDecoder SumpServer EdtTime V4l2Debugger NetCapture
    SystemMonitor PluginManager DebugService MemoryPool JsonText HubConfig
    LedDriver DeviceHal MediaPlayer JsonRpc MqttService VideoColor VideoPipeline VideoFrames HubMain
    HubTools QtPanel SumpListener ToolkitMain ToolkitDecode ToolkitTests Workbench QtPlugins HubSafety HubRemote
begin

text \<open>
  The repository holds two programs for embedded Linux: a toolkit that samples, decodes and serves eight
  logic channels and watches the board it runs on, and a smart home hub that switches an LED, reads a
  sensor, shows a camera and answers requests over MQTT, with the kernel driver of the LED and a control
  panel. This development models both, one theory for each source file, and proves what each file has to
  do and what the files do together.
\<close>

section \<open>The toolkit\<close>

text \<open>
  Source paths are below \<open>embedded_debug_toolkit\<close>.

  The sampling thread of the analyzer writes samples of sixteen bytes into a ring; the command line, with
  a time limit, and every SUMP client take them out. The command line decodes what it took into UART, I2C
  and SPI events and prints them. A service owns the analyzer, the SUMP server, the packet capture, the
  system monitor, the camera probe and the plugins; it starts the enabled ones and ends them in the other
  order. A Qt workbench with plugins of its own stands beside it.

    \<^item> \<open>RingBuffer\<close>, \<open>src/core/ring_buffer.c\<close>: the operations on positions that count up and wrap at 64 bits.
      A write appends the longest prefix that fits, a read takes the oldest bytes, a peek leaves them;
      through any script of calls the bytes come out as they went in. The rounding of the capacity
      returns exactly for requests up to 2 to the 63.
    \<^item> \<open>RingSpsc\<close>, the same file under concurrency: the calls taken apart at their atomic loads and
      stores, with the copies in between, and every interleaving of one producer and one consumer; and
      what two consumers do to each other.
    \<^item> \<open>LogicAnalyzer\<close>, \<open>src/logic/logic_analyzer.c\<close>: configuration, wave, trigger, one turn of the sampling
      thread, the reads, the capture with its time limit. The trigger gates the recording, whole samples
      are stored in order and dropped ones counted, and a trigger that never fires is never left.
    \<^item> \<open>ProtocolDecoder\<close>, \<open>src/protocol/protocol_decoder.c\<close>: the three decoders, each proved to invert the
      signal of a sender: frames with any gaps, bus transfers and exchanges with every level held for
      any number of samples.
    \<^item> \<open>SumpServer\<close> and \<open>SumpListener\<close>, \<open>src/protocol/sump_server.c\<close>: the socket helpers over a stream that is
      cut anywhere, the session, the commands and their replies, the capture request; the listener, which
      opens clients, and the descriptors they hold.
    \<^item> \<open>EdtTime\<close>, \<open>V4l2Debugger\<close>, \<open>NetCapture\<close>, \<open>SystemMonitor\<close>, \<open>PluginManager\<close>: \<open>src/core/edt_time.c\<close>, the
      files of \<open>src/tools\<close> and \<open>src/plugins/plugin_manager.c\<close>; exact packet counts, the texts of \<open>/proc\<close>
      read back, libraries closed once.
    \<^item> \<open>DebugService\<close>, \<open>src/service/debug_service.c\<close>: the initialisation and the start with every failing
      step; a stopped service owns nothing, a started one exactly its enabled parts.
    \<^item> \<open>ToolkitMain\<close> and \<open>ToolkitDecode\<close>, \<open>src/main.c\<close>: the options, the loop with the threads of the service
      between its turns, and the end; what the program leaves behind, and what a turn prints of the
      samples in the ring.
    \<^item> \<open>ToolkitTests\<close>, \<open>tests\<close>: the unit tests of the repository, which hold on the model, the decoder's for
      every byte and rate.
    \<^item> \<open>Workbench\<close> and \<open>QtPlugins\<close>, \<open>qt_gui\<close> and \<open>plugins_src\<close>: loading, messaging and unloading of the
      plugins, what their tabs show, and the sample of a service plugin.
\<close>

section \<open>The hub\<close>

text \<open>
  Source paths are below \<open>6-7_smart_home_hub\<close>.

  The main program loads a configuration and starts the device layer, the pool of frame buffers, the
  media player, the video pipeline and the MQTT service, and ends them in the other order. The capture
  thread fills blocks of the pool and queues them, the render thread shows them and gives them back. The
  MQTT thread reports the sensor; a message of the broker becomes a request, which switches the LED
  through the device layer, reads the sensor or starts the player, and its response is published.

    \<^item> \<open>MemoryPool\<close>, \<open>src/core/memory_pool.c\<close>: blocks with counted references. While callers give back only
      what they hold, the counts are those in circulation; an acquire with a time limit returns; and a
      release, taken apart at its two atomic steps, can let a block be granted twice.
    \<^item> \<open>JsonText\<close> and \<open>HubConfig\<close>, \<open>src/core/hub_config.c\<close>: the scanning of flat JSON text, the defaults, the
      file and the normalisation; any file gives a usable configuration, a document its own values.
    \<^item> \<open>LedDriver\<close>, \<open>drivers/led_char_safe/hub_led_drv.c\<close>: load with every failing step, unload, read, write.
    \<^item> \<open>DeviceHal\<close>, \<open>src/device/device_hal.c\<close>: devices opened on demand over the descriptor table, and the LED
      through this layer and the driver.
    \<^item> \<open>MediaPlayer\<close>, \<open>src/media/media_player.c\<close>: at most one child plays, and it is the one recorded.
    \<^item> \<open>JsonRpc\<close>, \<open>src/rpc/json_rpc_dispatch.c\<close>: the requests, their responses and their refusals.
    \<^item> \<open>MqttService\<close>, \<open>src/mqtt/mqtt_service.c\<close>: both builds; the order of the calls into the client library
      and the delays between attempts to connect.
    \<^item> \<open>VideoColor\<close>, \<open>VideoPipeline\<close> and \<open>VideoFrames\<close>, \<open>src/video/video_pipeline.c\<close>: the conversion against its
      formula, the camera, the queue and both threads; no block is in two places and frames are shown in
      the order of their capture.
    \<^item> \<open>HubMain\<close> and \<open>HubSafety\<close>, \<open>src/main.c\<close>: the start, the events of the running hub and the end; what is
      left of descriptors, mappings, memory and children.
    \<^item> \<open>HubTools\<close>: \<open>src/utils/hub_log.c\<close> and the two command line programs, \<open>tools/hal_demo\<close> over the device layer
      and the test of the driver.
    \<^item> \<open>QtPanel\<close> and \<open>HubRemote\<close>, \<open>qt_gui/qt59_control_panel\<close>: the handlers of the panel and the life of its
      window; a button of the panel followed through the message to the pin and to the published answer.
\<close>

section \<open>How the code is modelled\<close>

text \<open>
  Structures are records and enumerations are datatypes with the names of the source, and a C function is a
  definition of its name that takes and returns the state it works on. \<open>Prelude\<close> has the C integers at
  the width of a 64-bit Linux, pointers that may be NULL as options, and the errno values; \<open>Posix\<close> the
  descriptor table with the lowest free number; \<open>CText\<close> the text functions of the C library.

  An \<open>option\<close> around the result of a function says that it may have none: a loop that does not end, a wait
  that has not ended yet, a read beyond an array, an overflow or a division that C leaves undefined. Each
  definition with such a result says which. Loops that may not end are \<open>partial_function (option)\<close>;
  where a time limit or an assumption on the environment ends them, the theorems give the result and do
  not assume it. There is no fuel: lists of turns or events stand for the runs of threads, and the
  theorems quantify over all of them.

  What is not in the sources is a parameter of the definitions that use it: clocks, the results of system
  calls and allocations, what a socket delivers, the answers of cameras and kernel calls, the MQTT client
  library, the libraries of plugins, \<open>QProcess\<close>. Its use is a trace of events where the order of the calls
  matters. Environments that act while a component waits, such as the sampling thread during a capture,
  are functions that the theorems constrain only as far as the code relies on them.

  The interfaces are locales, each interpreted on the definitions of the model: \<open>byte_fifo\<close> on the ring,
  \<open>pair_decoder\<close> on the I2C and SPI steps, \<open>switchable\<close> on the four parts of the service that are started
  and stopped, \<open>reference_pool\<close> on the pool as the pipeline sees it, \<open>led_device\<close> on the driver, and
  \<open>tool_plugin\<close> on the plugins of the workbench.
\<close>

section \<open>Steps and threads\<close>

text \<open>
  Where the code is lock-free, the steps are the atomic operations: \<open>RingSpsc\<close>, and the race of the pool's
  release. Elsewhere a thread acts in turns, one pass of its loop, and a call under a lock is one step.
  In particular a release of the pool is one step outside of the theorem on its race; an acquire of the
  capture thread inside the pipeline waits while nothing else touches the pool, which the predicate
  \<open>quiet\<close> states: an acquire has no effect before it gets its block, so one that a release of the render
  thread wakes is the acquire placed after that release; a SUMP client serves one command in a turn; and the events of the hub and of the toolkit
  are interleaved at these turns. The ring is read in \<open>ToolkitDecode\<close> by one consumer.
\<close>

section \<open>Not modelled\<close>

text \<open>
  The arrangement of Qt widgets, their titles and sizes: they hold no state of the programs. The times
  in the log lines and the toolkit's printed status lines, which format floating-point numbers; the
  percentage of the processor is kept as the quotient it is computed from. The descriptions and licence
  macros of the kernel module. Build files, shell scripts and the default configuration file, which are
  not code of the programs. Memory ordering weaker than sequential consistency: the atomic operations of
  the ring are acquire and release, and are taken as steps of one sequence.
\<close>

end
